(* ===== verification/Prelude.thy ===== *)
theory Prelude
  imports Main "HOL-Library.Sublist"
begin

text \<open>
  Shared material of the development: the theorem collections the component theories
  fill, the string functions of the C++ standard library the sources use
  (\<^verbatim>\<open>starts_with\<close>, \<^verbatim>\<open>substr\<close>, \<^verbatim>\<open>contains\<close>), and generic facts on lists.
\<close>

named_theorems heap_simps \<open>reads and updates of the envelope heap\<close>
named_theorems bus_frame \<open>what an operation of the bus leaves alone\<close>
named_theorems decode_simps \<open>equations of the wire decoders\<close>

section \<open>Strings\<close>

text \<open>\<^verbatim>\<open>std::string_view::starts_with\<close>.\<close>

fun starts_with :: "string \<Rightarrow> string \<Rightarrow> bool" where
  "starts_with s [] = True"
| "starts_with [] (c # cs) = False"
| "starts_with (d # ds) (c # cs) = (d = c \<and> starts_with ds cs)"

text \<open>\<^verbatim>\<open>std::string_view::substr(pos)\<close>, for \<open>pos \<le> size\<close> as in every call of the sources.\<close>

definition substr_from :: "string \<Rightarrow> nat \<Rightarrow> string" where
  "substr_from s k = drop k s"

text \<open>A name in single quotes, as the messages of the exceptions carry it.\<close>

definition quoted :: "string \<Rightarrow> string" where
  "quoted s = [CHR 0x27] @ s @ [CHR 0x27]"

lemma starts_with_append [simp]: "starts_with (p @ s) p"
  by (induction p) auto

lemma starts_with_split: "starts_with s p \<Longrightarrow> s = p @ drop (length p) s"
  by (induction s p rule: starts_with.induct) auto

lemma starts_with_iff: "starts_with s p \<longleftrightarrow> (\<exists>t. s = p @ t)"
  using starts_with_split starts_with_append by metis

lemma substr_from_append [simp]: "substr_from (p @ s) (length p) = s"
  by (simp add: substr_from_def)

section \<open>Lists\<close>

lemma drop_eq_Cons_nth: "i < length xs \<Longrightarrow> drop i xs = xs ! i # drop (Suc i) xs"
  by (simp add: Cons_nth_drop_Suc)

lemma fold_invariant_set:
  assumes "P s" and "\<And>x s. x \<in> set xs \<Longrightarrow> P s \<Longrightarrow> P (f x s)"
  shows "P (fold f xs s)"
  using assms by (induction xs arbitrary: s) auto

lemma fold_filter_if: "fold (\<lambda>x s. if P x then f x s else s) xs s = fold f (filter P xs) s"
  by (induction xs arbitrary: s) auto

lemma fold_keeps_field:
  assumes "\<And>x s. g (f x s) = g s"
  shows "g (fold f xs s) = g s"
  using assms by (induction xs arbitrary: s) auto

lemma fold_appends_log:
  assumes "\<And>x s. x \<in> set xs \<Longrightarrow> g (f x s) = g s @ h x"
  shows "g (fold f xs s) = g s @ concat (map h xs)"
  using assms by (induction xs arbitrary: s) auto

end
