(* ===== verification/Exceptions.thy ===== *)
theory Exceptions
  imports Prelude
begin

text \<open>
  The exception hierarchy of \<^verbatim>\<open>include/conduit/exception.hpp\<close> with the per-transport
  subclasses of the adapter headers, C++ \<^verbatim>\<open>catch\<close> clauses as a subclass test, and the
  sequencing of computations that may throw. The classes the sources catch but do not
  define (\<^verbatim>\<open>std::exception\<close>, \<^verbatim>\<open>parcel::ParcelException\<close>, nlohmann's exceptions, and
  whatever a user callback throws) are constructors of the same type.
\<close>

datatype exn_class =
    StdException
  | StdRuntimeError
  | ConduitException
  | ConfigError
  | TlsNotSupportedError
  | TransportError
  | SerializationError
  | UnknownEventTypeError
  | AmqpError | MqttError | NatsError | RedisError | ZmqError
  | ParcelException
  | InvalidJsonException
  | KindMismatchException
  | JsonException
  | ForeignStdException
  | ForeignException

text \<open>The base class each class derives from; a \<open>ForeignException\<close> is no \<^verbatim>\<open>std::exception\<close>.\<close>

fun base_class :: "exn_class \<Rightarrow> exn_class option" where
  "base_class StdException = None"
| "base_class StdRuntimeError = Some StdException"
| "base_class ConduitException = Some StdRuntimeError"
| "base_class ConfigError = Some ConduitException"
| "base_class TlsNotSupportedError = Some ConfigError"
| "base_class TransportError = Some ConduitException"
| "base_class SerializationError = Some ConduitException"
| "base_class UnknownEventTypeError = Some ConduitException"
| "base_class AmqpError = Some TransportError"
| "base_class MqttError = Some TransportError"
| "base_class NatsError = Some TransportError"
| "base_class RedisError = Some TransportError"
| "base_class ZmqError = Some TransportError"
| "base_class ParcelException = Some StdException"
| "base_class InvalidJsonException = Some ParcelException"
| "base_class KindMismatchException = Some ParcelException"
| "base_class JsonException = Some StdException"
| "base_class ForeignStdException = Some StdException"
| "base_class ForeignException = None"

fun class_rank :: "exn_class \<Rightarrow> nat" where
  "class_rank StdException = 0"
| "class_rank ForeignException = 0"
| "class_rank StdRuntimeError = 1"
| "class_rank ParcelException = 1"
| "class_rank JsonException = 1"
| "class_rank ForeignStdException = 1"
| "class_rank InvalidJsonException = 2"
| "class_rank KindMismatchException = 2"
| "class_rank ConduitException = 2"
| "class_rank ConfigError = 3"
| "class_rank TransportError = 3"
| "class_rank SerializationError = 3"
| "class_rank UnknownEventTypeError = 3"
| "class_rank TlsNotSupportedError = 4"
| "class_rank AmqpError = 4"
| "class_rank MqttError = 4"
| "class_rank NatsError = 4"
| "class_rank RedisError = 4"
| "class_rank ZmqError = 4"

lemma base_class_rank: "base_class c = Some b \<Longrightarrow> class_rank b < class_rank c"
  by (cases c) auto

text \<open>Whether \<^verbatim>\<open>catch (const d&)\<close> catches an exception of class \<open>c\<close>.\<close>

function is_a :: "exn_class \<Rightarrow> exn_class \<Rightarrow> bool" where
  "is_a c d = (c = d \<or> (case base_class c of None \<Rightarrow> False | Some b \<Rightarrow> is_a b d))"
  by pat_completeness auto
termination
  by (relation "measure (\<lambda>(c, d). class_rank c)") (auto dest: base_class_rank)

declare is_a.simps [simp del]

text \<open>A thrown object: its class and its \<^verbatim>\<open>what()\<close>. An \<^verbatim>\<open>exception_ptr\<close> is such a value.\<close>

datatype exn = Exn (exn_kind: exn_class) (exn_what: string)

text \<open>A computation that may throw, and its continuation when it does not.\<close>

type_synonym 'a throws = "exn + 'a"

definition and_then :: "'a throws \<Rightarrow> ('a \<Rightarrow> 'b throws) \<Rightarrow> 'b throws" where
  "and_then r f = (case r of Inl e \<Rightarrow> Inl e | Inr x \<Rightarrow> f x)"

lemma and_then_simps [simp]: "and_then (Inl e) f = Inl e" "and_then (Inr x) f = f x"
  by (simp_all add: and_then_def)

lemma and_then_eq_Inr: "and_then r f = Inr y \<longleftrightarrow> (\<exists>x. r = Inr x \<and> f x = Inr y)"
  by (cases r) auto

lemma and_then_eq_Inl: "and_then r f = Inl e \<longleftrightarrow> r = Inl e \<or> (\<exists>x. r = Inr x \<and> f x = Inl e)"
  by (cases r) auto

text \<open>Every class the library defines, from the list in the header comment.\<close>

definition conduit_classes :: "exn_class list" where
  "conduit_classes = [ConduitException, ConfigError, TlsNotSupportedError, TransportError,
     SerializationError, UnknownEventTypeError, AmqpError, MqttError, NatsError, RedisError, ZmqError]"

lemma is_a_refl [simp]: "is_a c c"
  by (simp add: is_a.simps)

lemma is_a_trans: "is_a c d \<Longrightarrow> is_a d e \<Longrightarrow> is_a c e"
proof (induction c d rule: is_a.induct)
  case (1 c d)
  show ?case
  proof (cases "c = d")
    case False
    then obtain b where b: "base_class c = Some b" "is_a b d"
      using "1.prems"(1) by (auto simp: is_a.simps [of c d] split: option.splits)
    then have "is_a b e" using "1.IH" "1.prems"(2) by blast
    then show ?thesis using b by (simp add: is_a.simps [of c e])
  qed (use "1.prems" in simp)
qed

lemma is_a_conduit_iff: "is_a c ConduitException \<longleftrightarrow> c \<in> set conduit_classes"
  by (cases c) (simp_all add: is_a.simps conduit_classes_def)

lemma is_a_SerializationError_iff: "is_a c SerializationError \<longleftrightarrow> c = SerializationError"
  by (cases c) (simp_all add: is_a.simps)

lemma is_a_ParcelException_iff:
  "is_a c ParcelException \<longleftrightarrow> c \<in> {ParcelException, InvalidJsonException, KindMismatchException}"
  by (cases c) (simp_all add: is_a.simps)

lemma is_a_StdException_iff: "is_a c StdException \<longleftrightarrow> c \<noteq> ForeignException"
  by (cases c) (simp_all add: is_a.simps)

end
