(* ===== verification/Events.thy ===== *)
theory Events
  imports Prelude
begin

text \<open>
  Flags and event types: \<^verbatim>\<open>include/conduit/flags.hpp\<close> and \<^verbatim>\<open>include/conduit/event.hpp\<close>.
  A flag is identified by its name; a \<^verbatim>\<open>comms::FlagSet\<close> is the list of names it iterates
  over, and its \<^verbatim>\<open>insert\<close>, which lives in cpp-commons, is a parameter of the definitions
  that call it.
\<close>

section \<open>Built-in flags\<close>

datatype builtin_flag =
    Direct | Durable | Persistent | NoMiddleware | RequireAck | Broadcast | LocalOnly | RemoteOnly

fun flag_name :: "builtin_flag \<Rightarrow> string" where
  "flag_name Direct = ''direct''"
| "flag_name Durable = ''durable''"
| "flag_name Persistent = ''persistent''"
| "flag_name NoMiddleware = ''no_middleware''"
| "flag_name RequireAck = ''require_ack''"
| "flag_name Broadcast = ''broadcast''"
| "flag_name LocalOnly = ''local_only''"
| "flag_name RemoteOnly = ''remote_only''"

text \<open>The category every conduit flag belongs to.\<close>

definition ConduitFlagCategory :: string where
  "ConduitFlagCategory = ''conduit''"

text \<open>
  The \<^verbatim>\<open>comms::DisplayInfo\<close> each built-in flag carries; icons and colours are the names
  of the cpp-commons constants (\<^verbatim>\<open>comms::Icons::mdi\<close>, \<^verbatim>\<open>comms::Colors::mui\<close>).
\<close>

record DisplayInfo =
  di_name :: string
  di_description :: string
  di_icon :: string
  di_color :: string

fun display_info :: "builtin_flag \<Rightarrow> DisplayInfo" where
  "display_info Direct = \<lparr>di_name = ''Direct'',
     di_description = ''Force same-thread dispatch even in Queue / ThreadPool execution modes.'',
     di_icon = ''flash'', di_color = ''yellow_700''\<rparr>"
| "display_info Durable = \<lparr>di_name = ''Durable'',
     di_description = ''Hint to durable transports that they should persist the envelope.'',
     di_icon = ''database'', di_color = ''blue_700''\<rparr>"
| "display_info Persistent = \<lparr>di_name = ''Persistent'',
     di_description = ''Hint to transports to use a persistent (human-readable) wire format.'',
     di_icon = ''file_document_outline'', di_color = ''teal_500''\<rparr>"
| "display_info NoMiddleware = \<lparr>di_name = ''NoMiddleware'',
     di_description = ''Skip the middleware pipeline for this envelope.'',
     di_icon = ''pipe_disconnected'', di_color = ''grey_600''\<rparr>"
| "display_info RequireAck = \<lparr>di_name = ''RequireAck'',
     di_description = ''Request the broker / transport acknowledge the publish before returning.'',
     di_icon = ''check_decagram'', di_color = ''green_600''\<rparr>"
| "display_info Broadcast = \<lparr>di_name = ''Broadcast'',
     di_description = ''Hint that this envelope is intended for fan-out broadcast.'',
     di_icon = ''broadcast'', di_color = ''deep_orange_500''\<rparr>"
| "display_info LocalOnly = \<lparr>di_name = ''LocalOnly'',
     di_description = ''Restrict dispatch to transports with TransportScope::Local.'',
     di_icon = ''home_circle'', di_color = ''light_blue_500''\<rparr>"
| "display_info RemoteOnly = \<lparr>di_name = ''RemoteOnly'',
     di_description = ''Restrict dispatch to transports with TransportScope::Remote.'',
     di_icon = ''earth'', di_color = ''indigo_500''\<rparr>"

text \<open>The \<^verbatim>\<open>COMMONS_REGISTER_FLAG\<close> lines, in their order.\<close>

definition registered_builtins :: "builtin_flag list" where
  "registered_builtins = [Direct, Durable, Persistent, NoMiddleware, RequireAck, Broadcast,
     LocalOnly, RemoteOnly]"

type_synonym FlagSet = "string list"

text \<open>\<^verbatim>\<open>FlagSet::contains<F>()\<close>: membership by name.\<close>

definition contains_flag :: "FlagSet \<Rightarrow> builtin_flag \<Rightarrow> bool" where
  "contains_flag fs f = List.member fs (flag_name f)"

text \<open>What the sources rely on for \<^verbatim>\<open>FlagSet::insert\<close>: it adds that one name.\<close>

definition flag_insert_law :: "(string \<Rightarrow> FlagSet \<Rightarrow> FlagSet) \<Rightarrow> bool" where
  "flag_insert_law ins \<longleftrightarrow> (\<forall>f fs. set (ins f fs) = insert f (set fs))"

section \<open>Event types\<close>

definition event_kind_prefix :: string where
  "event_kind_prefix = ''conduit:event:''"

text \<open>
  An event class \<^verbatim>\<open>T : Event<T, Name>\<close>: the identity of the C++ type, the bare name, and
  its default flags, from \<^verbatim>\<open>event_traits<T>\<close> and, where the class has the mixin, from
  \<^verbatim>\<open>DefaultFlags<Fs...>\<close>.
\<close>

record event_type =
  type_id :: string
  event_name_v :: string
  traits_default_flags :: FlagSet
  mixin_default_flags :: "FlagSet option"

definition kind_id :: "event_type \<Rightarrow> string" where
  "kind_id T = event_kind_prefix @ event_name_v T"

definition HasDefaultFlagsMixin :: "event_type \<Rightarrow> bool" where
  "HasDefaultFlagsMixin T = (mixin_default_flags T \<noteq> None)"

definition collect_default_flags :: "(string \<Rightarrow> FlagSet \<Rightarrow> FlagSet) \<Rightarrow> event_type \<Rightarrow> FlagSet" where
  "collect_default_flags ins T =
     (let s = traits_default_flags T
      in case mixin_default_flags T of None \<Rightarrow> s | Some fs \<Rightarrow> fold ins fs s)"

lemma contains_flag_iff [simp]: "contains_flag fs f \<longleftrightarrow> flag_name f \<in> set fs"
  by (simp add: contains_flag_def)

lemma flag_name_inj [simp]: "flag_name f = flag_name g \<longleftrightarrow> f = g"
  by (cases f; cases g) simp_all

lemma set_fold_flag_insert: "flag_insert_law ins \<Longrightarrow> set (fold ins fs s) = set s \<union> set fs"
  by (induction fs arbitrary: s) (auto simp: flag_insert_law_def)

lemma set_collect_default_flags:
  "flag_insert_law ins \<Longrightarrow> set (collect_default_flags ins T) =
     set (traits_default_flags T) \<union> (case mixin_default_flags T of None \<Rightarrow> {} | Some fs \<Rightarrow> set fs)"
  by (auto simp: collect_default_flags_def set_fold_flag_insert split: option.splits)

end
