(* ===== verification/Json.thy ===== *)
theory Json
  imports Prelude
begin

text \<open>
  JSON values as the sources build and read them (\<^verbatim>\<open>parcel::json_t\<close>, nlohmann's value
  type). An object keeps its members in order with unique keys. Reading a member and
  testing the kind of a value are functions on the data; nlohmann's conversions
  (\<^verbatim>\<open>get<T>()\<close>), iteration, text and CBOR codecs are parameters where they are used.
\<close>

datatype json =
    JNull
  | JBool bool
  | JInt int
  | JFloat int int
  | JString string
  | JArray "json list"
  | JObject "(string \<times> json) list"

fun is_object :: "json \<Rightarrow> bool" where
  "is_object (JObject m) = True"
| "is_object j = False"

fun is_string :: "json \<Rightarrow> bool" where
  "is_string (JString s) = True"
| "is_string j = False"

text \<open>\<^verbatim>\<open>find\<close>: the member with a key; no member of a value that is no object.\<close>

fun json_find :: "json \<Rightarrow> string \<Rightarrow> json option" where
  "json_find (JObject m) k = map_of m k"
| "json_find j k = None"

definition json_contains :: "json \<Rightarrow> string \<Rightarrow> bool" where
  "json_contains j k = (json_find j k \<noteq> None)"

text \<open>\<^verbatim>\<open>obj[k] = v\<close> on an object: overwrite the member or add it.\<close>

fun assign_member :: "(string \<times> json) list \<Rightarrow> string \<Rightarrow> json \<Rightarrow> (string \<times> json) list" where
  "assign_member [] k v = [(k, v)]"
| "assign_member ((k', v') # m) k v =
     (if k' = k then (k, v) # m else (k', v') # assign_member m k v)"

fun json_set :: "json \<Rightarrow> string \<Rightarrow> json \<Rightarrow> json" where
  "json_set (JObject m) k v = JObject (assign_member m k v)"
| "json_set j k v = j"

text \<open>An assignment under an \<^verbatim>\<open>if (opt)\<close>.\<close>

definition json_set_opt :: "json \<Rightarrow> string \<Rightarrow> json option \<Rightarrow> json" where
  "json_set_opt j k v = (case v of None \<Rightarrow> j | Some x \<Rightarrow> json_set j k x)"

lemma map_of_assign_member [simp]: "map_of (assign_member m k v) = (map_of m)(k \<mapsto> v)"
  by (induction m k v rule: assign_member.induct) auto

lemma is_object_set [simp]: "is_object (json_set j k v) = is_object j"
  by (cases j) auto

lemma is_object_set_opt [simp]: "is_object (json_set_opt j k v) = is_object j"
  by (simp add: json_set_opt_def split: option.splits)

lemma json_find_set [simp]:
  "is_object j \<Longrightarrow> json_find (json_set j k v) k' = (if k' = k then Some v else json_find j k')"
  by (cases j) auto

lemma json_find_set_opt [simp]:
  "is_object j \<Longrightarrow> json_find (json_set_opt j k v) k' =
     (if k' = k \<and> v \<noteq> None then v else json_find j k')"
  by (auto simp: json_set_opt_def split: option.splits)

lemma json_contains_iff [simp]: "json_contains j k \<longleftrightarrow> (\<exists>v. json_find j k = Some v)"
  by (simp add: json_contains_def)

end
