(* ===== verification/Envelope.thy ===== *)
theory Envelope
  imports Exceptions Events Json "HOL-Library.Word"
begin

text \<open>
  \<^verbatim>\<open>include/conduit/envelope.hpp\<close> and \<^verbatim>\<open>include/conduit/metadata.hpp\<close>: the envelope core,
  the heap of cores that envelope copies share, the accessors, and the hand-written JSON
  layout. Ulids, metadata codecs, the flag registry, parcel's cells and registry and
  nlohmann's conversions are the fields of a parameter record.
\<close>

section \<open>Data\<close>

type_synonym ulid = "128 word"

text \<open>
  A \<^verbatim>\<open>system_clock::time_point\<close> is a count of clock ticks since the epoch; the number of
  ticks in a millisecond is fixed by the standard library in use.
\<close>

type_synonym time_point = int

record Timestamps =
  created_at :: time_point
  published_at :: "time_point option"
  received_at :: "time_point option"
  delivered_at :: "time_point option"
  failed_at :: "time_point option"

text \<open>Metadata: the value kinds listed in \<^verbatim>\<open>metadata.hpp\<close>; floats by their bits.\<close>

datatype md_value =
    MdNull
  | MdBool bool
  | MdInt64 "64 word"
  | MdUint64 "64 word"
  | MdFloat "32 word"
  | MdDouble "64 word"
  | MdString string
  | MdArray "md_value list"
  | MdObject "(string \<times> md_value) list"

type_synonym Metadata = "(string \<times> md_value) list"

text \<open>A payload cell (\<^verbatim>\<open>parcel::ICell\<close>): its dynamic C++ type, its kind, its contents.\<close>

record cell =
  dyn_type :: string
  kind :: string
  contents :: json

record EnvelopeCore =
  core_id :: ulid
  core_flags :: FlagSet
  core_metadata :: Metadata
  core_timestamps :: Timestamps
  correlation_id :: "ulid option"
  causation_id :: "ulid option"
  payload_cell :: "cell option"

definition empty_timestamps :: Timestamps where
  "empty_timestamps = \<lparr>created_at = 0, published_at = None, received_at = None,
     delivered_at = None, failed_at = None\<rparr>"

text \<open>\<^verbatim>\<open>std::make_shared<EnvelopeCore>()\<close>: every member default-initialised.\<close>

definition empty_core :: EnvelopeCore where
  "empty_core = \<lparr>core_id = 0, core_flags = [], core_metadata = [], core_timestamps = empty_timestamps,
     correlation_id = None, causation_id = None, payload_cell = None\<rparr>"

section \<open>Accessors\<close>

text \<open>
  An envelope object holds a pointer to a core; the accessors below are given what the
  pointer refers to, \<open>None\<close> for a null pointer.
\<close>

definition env_name :: "EnvelopeCore option \<Rightarrow> string" where
  "env_name value =
     (case value of None \<Rightarrow> []
      | Some core \<Rightarrow>
          (case payload_cell core of None \<Rightarrow> []
           | Some c \<Rightarrow>
               let k = kind c
               in if starts_with k event_kind_prefix
                  then substr_from k (length event_kind_prefix) else k))"

definition env_valid :: "EnvelopeCore option \<Rightarrow> bool" where
  "env_valid value = (case value of None \<Rightarrow> False | Some core \<Rightarrow> payload_cell core \<noteq> None)"

definition env_to_string :: "EnvelopeCore option \<Rightarrow> string" where
  "env_to_string value = env_name value"

text \<open>
  \<^verbatim>\<open>payload_as<T>()\<close>: \<open>derives\<close> is the class hierarchy \<^verbatim>\<open>dynamic_pointer_cast\<close> consults,
  from a dynamic type to the type asked for.
\<close>

definition payload_as :: "(string \<Rightarrow> string \<Rightarrow> bool) \<Rightarrow> event_type \<Rightarrow> EnvelopeCore option \<Rightarrow> cell option" where
  "payload_as derives T value =
     (case value of None \<Rightarrow> None
      | Some core \<Rightarrow>
          (case payload_cell core of None \<Rightarrow> None
           | Some c \<Rightarrow> if derives (dyn_type c) (type_id T) then Some c else None))"

text \<open>The cell of an event object of class \<open>T\<close>.\<close>

definition event_cell :: "event_type \<Rightarrow> json \<Rightarrow> cell" where
  "event_cell T x = \<lparr>dyn_type = type_id T, kind = kind_id T, contents = x\<rparr>"

text \<open>The constructors: from a typed payload, and from a core and a payload cell.\<close>

definition envelope_of_payload :: "event_type \<Rightarrow> json \<Rightarrow> EnvelopeCore" where
  "envelope_of_payload T x = empty_core\<lparr>payload_cell := Some (event_cell T x)\<rparr>"

definition envelope_of_core :: "EnvelopeCore \<Rightarrow> cell option \<Rightarrow> EnvelopeCore" where
  "envelope_of_core core payload = core\<lparr>payload_cell := payload\<rparr>"

definition envelope_kind_id :: string where
  "envelope_kind_id = ''conduit:envelope''"

text \<open>
  \<^verbatim>\<open>compare\<close>: by kind, bytes compared as unsigned numbers; two envelopes are never ordered, and in particular an
  envelope is not equivalent to itself.
\<close>

datatype partial_ordering = OrdLess | OrdEquivalent | OrdGreater | OrdUnordered

fun compare_bytes :: "string \<Rightarrow> string \<Rightarrow> partial_ordering" where
  "compare_bytes [] [] = OrdEquivalent"
| "compare_bytes [] (d # ds) = OrdLess"
| "compare_bytes (c # cs) [] = OrdGreater"
| "compare_bytes (c # cs) (d # ds) =
     (if (of_char c :: nat) < of_char d then OrdLess else if (of_char d :: nat) < of_char c then OrdGreater
      else compare_bytes cs ds)"

definition envelope_compare :: "string \<Rightarrow> partial_ordering" where
  "envelope_compare other_kind =
     (let kc = compare_bytes envelope_kind_id other_kind in if kc \<noteq> OrdEquivalent then kc else OrdUnordered)"

section \<open>The wire layout\<close>

definition trunc_div :: "int \<Rightarrow> int \<Rightarrow> int" where
  "trunc_div a b = (if a < 0 then - ((- a) div b) else a div b)"

definition to_ms_since_epoch :: "int \<Rightarrow> time_point \<Rightarrow> int" where
  "to_ms_since_epoch ticks_per_ms tp = trunc_div tp ticks_per_ms"

definition from_ms_since_epoch :: "int \<Rightarrow> int \<Rightarrow> time_point" where
  "from_ms_since_epoch ticks_per_ms ms = ms * ticks_per_ms"

text \<open>
  The code outside the repository the envelope calls: cpp-ulid, cpp-metadata, the flag set
  and the global flag registry of cpp-commons, parcel's cells, display info and registry
  (of type \<open>'r\<close>), nlohmann's conversions and iteration, the tick of \<^verbatim>\<open>system_clock\<close>.
\<close>

record 'r wire_lib =
  ulid_string :: "ulid \<Rightarrow> string"
  ulid_from_string :: "string \<Rightarrow> ulid option"
  md_to_json :: "Metadata \<Rightarrow> json"
  md_from_json :: "json \<Rightarrow> Metadata throws"
  flag_insert :: "string \<Rightarrow> FlagSet \<Rightarrow> FlagSet"
  flag_find :: "string \<Rightarrow> string option"
  cell_to_json :: "cell \<Rightarrow> json throws"
  cell_from_json :: "'r \<Rightarrow> json \<Rightarrow> cell option throws"
  inject_display_info :: "json \<Rightarrow> json"
  get_string :: "json \<Rightarrow> string throws"
  get_int64 :: "json \<Rightarrow> int throws"
  json_items :: "json \<Rightarrow> json list"
  ticks_per_ms :: int

definition KEY_KIND :: string where "KEY_KIND = ''k''"

definition KEY_VALUE :: string where "KEY_VALUE = ''v''"

definition timestamps_to_json :: "'r wire_lib \<Rightarrow> Timestamps \<Rightarrow> json" where
  "timestamps_to_json L t =
     (let ms = (\<lambda>tp. JInt (to_ms_since_epoch (ticks_per_ms L) tp));
          ts = json_set (JObject []) ''created_at'' (ms (created_at t));
          ts = json_set_opt ts ''published_at'' (map_option ms (published_at t));
          ts = json_set_opt ts ''received_at'' (map_option ms (received_at t));
          ts = json_set_opt ts ''delivered_at'' (map_option ms (delivered_at t))
      in json_set_opt ts ''failed_at'' (map_option ms (failed_at t)))"

definition to_json :: "'r wire_lib \<Rightarrow> EnvelopeCore option \<Rightarrow> json throws" where
  "to_json L value =
     (case value of
        None \<Rightarrow> Inl (Exn SerializationError ''EventEnvelope::to_json: envelope has no payload'')
      | Some core \<Rightarrow>
          (case payload_cell core of
             None \<Rightarrow> Inl (Exn SerializationError ''EventEnvelope::to_json: envelope has no payload'')
           | Some c \<Rightarrow>
               (let v = json_set (JObject []) ''id'' (JString (ulid_string L (core_id core)));
                    v = json_set v ''name'' (JString (env_name value));
                    v = json_set v ''flags'' (JArray (map JString (core_flags core)));
                    v = json_set_opt v ''correlation_id''
                          (map_option (\<lambda>u. JString (ulid_string L u)) (correlation_id core));
                    v = json_set_opt v ''causation_id''
                          (map_option (\<lambda>u. JString (ulid_string L u)) (causation_id core));
                    v = json_set v ''metadata'' (md_to_json L (core_metadata core));
                    v = json_set v ''timestamps'' (timestamps_to_json L (core_timestamps core))
                in and_then (cell_to_json L c) (\<lambda>p.
                     let v = json_set v ''payload'' p
                     in Inr (inject_display_info L
                          (JObject [(KEY_KIND, JString envelope_kind_id), (KEY_VALUE, v)]))))))"

definition invalid_json :: "string \<Rightarrow> 'a throws" where
  "invalid_json msg = Inl (Exn InvalidJsonException msg)"

text \<open>The checks on the wrapper object: it yields the \<open>v\<close> member.\<close>

definition from_json_value :: "json \<Rightarrow> json throws" where
  "from_json_value j =
     (if \<not> is_object j then invalid_json ''Expected JSON object for EventEnvelope''
      else case json_find j KEY_KIND of
        Some (JString s) \<Rightarrow>
          if s \<noteq> envelope_kind_id then Inl (Exn KindMismatchException ''EventEnvelope: kind mismatch'')
          else (case json_find j KEY_VALUE of
             Some v \<Rightarrow> if is_object v then Inr v
               else invalid_json (''EventEnvelope: missing/invalid '' @ quoted ''v'' @ '' (expected object)'')
           | None \<Rightarrow> invalid_json (''EventEnvelope: missing/invalid '' @ quoted ''v'' @ '' (expected object)''))
      | _ \<Rightarrow> invalid_json (''EventEnvelope: missing/invalid '' @ quoted ''k''))"

definition from_json_id :: "'r wire_lib \<Rightarrow> json \<Rightarrow> ulid throws" where
  "from_json_id L v =
     (case json_find v ''id'' of
        Some x \<Rightarrow>
          if \<not> is_string x then invalid_json (''EventEnvelope: missing/invalid '' @ quoted ''id'')
          else and_then (get_string L x) (\<lambda>s.
            case ulid_from_string L s of
              None \<Rightarrow> invalid_json (''EventEnvelope: invalid ULID for '' @ quoted ''id'')
            | Some u \<Rightarrow> Inr u)
      | None \<Rightarrow> invalid_json (''EventEnvelope: missing/invalid '' @ quoted ''id''))"

text \<open>The identical blocks for \<open>correlation_id\<close> and \<open>causation_id\<close>; no test of the kind here.\<close>

definition from_json_opt_ulid :: "'r wire_lib \<Rightarrow> json \<Rightarrow> string \<Rightarrow> ulid option throws" where
  "from_json_opt_ulid L v key =
     (case json_find v key of
        None \<Rightarrow> Inr None
      | Some x \<Rightarrow>
          and_then (get_string L x) (\<lambda>s.
            case ulid_from_string L s of
              None \<Rightarrow> invalid_json (''EventEnvelope: invalid ULID for '' @ quoted key)
            | Some u \<Rightarrow> Inr (Some u)))"

fun decode_flags :: "'r wire_lib \<Rightarrow> json list \<Rightarrow> FlagSet \<Rightarrow> FlagSet throws" where
  "decode_flags L [] fs = Inr fs"
| "decode_flags L (j # js) fs =
     and_then (get_string L j) (\<lambda>s.
       case flag_find L s of
         None \<Rightarrow> decode_flags L js fs
       | Some f \<Rightarrow> decode_flags L js (flag_insert L f fs))"

definition from_json_flags :: "'r wire_lib \<Rightarrow> json \<Rightarrow> FlagSet throws" where
  "from_json_flags L v =
     (case json_find v ''flags'' of None \<Rightarrow> Inr [] | Some js \<Rightarrow> decode_flags L (json_items L js) [])"

definition from_json_metadata :: "'r wire_lib \<Rightarrow> json \<Rightarrow> Metadata throws" where
  "from_json_metadata L v =
     (case json_find v ''metadata'' of
        None \<Rightarrow> Inr []
      | Some m \<Rightarrow> if is_object m then md_from_json L m else Inr [])"

definition from_json_time :: "'r wire_lib \<Rightarrow> json \<Rightarrow> string \<Rightarrow> time_point option throws" where
  "from_json_time L ts key =
     (case json_find ts key of
        None \<Rightarrow> Inr None
      | Some x \<Rightarrow> and_then (get_int64 L x) (\<lambda>ms. Inr (Some (from_ms_since_epoch (ticks_per_ms L) ms))))"

definition from_json_timestamps :: "'r wire_lib \<Rightarrow> json \<Rightarrow> Timestamps throws" where
  "from_json_timestamps L v =
     (case json_find v ''timestamps'' of
        None \<Rightarrow> Inr empty_timestamps
      | Some ts \<Rightarrow>
          and_then (from_json_time L ts ''created_at'') (\<lambda>c.
          and_then (from_json_time L ts ''published_at'') (\<lambda>p.
          and_then (from_json_time L ts ''received_at'') (\<lambda>r.
          and_then (from_json_time L ts ''delivered_at'') (\<lambda>d.
          and_then (from_json_time L ts ''failed_at'') (\<lambda>f.
            Inr \<lparr>created_at = (case c of None \<Rightarrow> 0 | Some t \<Rightarrow> t), published_at = p,
                 received_at = r, delivered_at = d, failed_at = f\<rparr>))))))"

definition from_json_payload :: "'r wire_lib \<Rightarrow> 'r \<Rightarrow> json \<Rightarrow> cell option throws" where
  "from_json_payload L reg v =
     (case json_find v ''payload'' of
        None \<Rightarrow> invalid_json (''EventEnvelope: missing '' @ quoted ''payload'')
      | Some p \<Rightarrow> cell_from_json L reg p)"

definition from_json :: "'r wire_lib \<Rightarrow> 'r \<Rightarrow> json \<Rightarrow> EnvelopeCore throws" where
  "from_json L reg j =
     and_then (from_json_value j) (\<lambda>v.
     and_then (from_json_id L v) (\<lambda>u.
     and_then (from_json_opt_ulid L v ''correlation_id'') (\<lambda>cor.
     and_then (from_json_opt_ulid L v ''causation_id'') (\<lambda>cau.
     and_then (from_json_flags L v) (\<lambda>fs.
     and_then (from_json_metadata L v) (\<lambda>md.
     and_then (from_json_timestamps L v) (\<lambda>ts.
     and_then (from_json_payload L reg v) (\<lambda>p.
       Inr \<lparr>core_id = u, core_flags = fs, core_metadata = md, core_timestamps = ts,
            correlation_id = cor, causation_id = cau, payload_cell = p\<rparr>))))))))"

section \<open>What the codecs are assumed to do\<close>

text \<open>
  Documented behaviour of the libraries: nlohmann's conversions of a value of the right
  kind and iteration over an array, parcel adding members of its own beside \<open>k\<close> and \<open>v\<close>,
  the flag registry finding a flag under its own name, a clock with at least one tick per
  millisecond.
\<close>

definition wire_lib_laws :: "'r wire_lib \<Rightarrow> bool" where
  "wire_lib_laws L \<longleftrightarrow>
     (\<forall>s. get_string L (JString s) = Inr s) \<and>
     (\<forall>i. get_int64 L (JInt i) = Inr i) \<and>
     (\<forall>js. json_items L (JArray js) = js) \<and>
     (\<forall>m. is_object (inject_display_info L (JObject m)) \<and>
        json_find (inject_display_info L (JObject m)) KEY_KIND = map_of m KEY_KIND \<and>
        json_find (inject_display_info L (JObject m)) KEY_VALUE = map_of m KEY_VALUE) \<and>
     (\<forall>s f. flag_find L s = Some f \<longrightarrow> f = s) \<and>
     flag_insert_law (flag_insert L) \<and>
     0 < ticks_per_ms L"

text \<open>
  The ulid, metadata and cell codecs invert each other on the values of this envelope; for
  the payload that is the case once its type is registered.
\<close>

definition codecs_invert :: "'r wire_lib \<Rightarrow> 'r \<Rightarrow> EnvelopeCore \<Rightarrow> bool" where
  "codecs_invert L reg core \<longleftrightarrow>
     ulid_from_string L (ulid_string L (core_id core)) = Some (core_id core) \<and>
     (\<forall>u. correlation_id core = Some u \<longrightarrow> ulid_from_string L (ulid_string L u) = Some u) \<and>
     (\<forall>u. causation_id core = Some u \<longrightarrow> ulid_from_string L (ulid_string L u) = Some u) \<and>
     is_object (md_to_json L (core_metadata core)) \<and>
     md_from_json L (md_to_json L (core_metadata core)) = Inr (core_metadata core) \<and>
     (\<exists>c p. payload_cell core = Some c \<and> cell_to_json L c = Inr p \<and> cell_from_json L reg p = Inr (Some c))"

text \<open>Timestamps with the fraction of a millisecond cut off.\<close>

definition to_whole_ms :: "int \<Rightarrow> Timestamps \<Rightarrow> Timestamps" where
  "to_whole_ms k t =
     (let f = (\<lambda>tp. trunc_div tp k * k)
      in \<lparr>created_at = f (created_at t), published_at = map_option f (published_at t),
          received_at = map_option f (received_at t), delivered_at = map_option f (delivered_at t),
          failed_at = map_option f (failed_at t)\<rparr>)"

text \<open>The \<open>v\<close> member \<^verbatim>\<open>to_json\<close> builds.\<close>

definition wire_value :: "'r wire_lib \<Rightarrow> EnvelopeCore \<Rightarrow> json \<Rightarrow> json" where
  "wire_value L core p =
     (let v = json_set (JObject []) ''id'' (JString (ulid_string L (core_id core)));
          v = json_set v ''name'' (JString (env_name (Some core)));
          v = json_set v ''flags'' (JArray (map JString (core_flags core)));
          v = json_set_opt v ''correlation_id'' (map_option (\<lambda>u. JString (ulid_string L u)) (correlation_id core));
          v = json_set_opt v ''causation_id'' (map_option (\<lambda>u. JString (ulid_string L u)) (causation_id core));
          v = json_set v ''metadata'' (md_to_json L (core_metadata core));
          v = json_set v ''timestamps'' (timestamps_to_json L (core_timestamps core))
      in json_set v ''payload'' p)"

text \<open>
  A concrete library on which the laws hold: the instance the witnesses evaluate. Its
  registry is the list of registered kinds, and it knows the built-in flags.
\<close>

fun example_cell_from_json :: "string list \<Rightarrow> json \<Rightarrow> cell option throws" where
  "example_cell_from_json reg (JObject [(_, JString t), (_, JString k), (_, x)]) =
     (if List.member reg k then Inr (Some \<lparr>dyn_type = t, kind = k, contents = x\<rparr>)
      else Inl (Exn ParcelException ''unknown kind''))"
| "example_cell_from_json reg _ = Inl (Exn InvalidJsonException ''cell'')"

definition example_lib :: "string list wire_lib" where
  "example_lib =
     \<lparr>ulid_string = (\<lambda>u. replicate (unat u) (CHR ''I'')),
      ulid_from_string = (\<lambda>s. if list_all (\<lambda>c. c = CHR ''I'') s then Some (of_nat (length s)) else None),
      md_to_json = (\<lambda>m. JObject (map (\<lambda>(k, v). (k, case v of MdString s \<Rightarrow> JString s | _ \<Rightarrow> JNull)) m)),
      md_from_json = (\<lambda>j. case j of
         JObject m \<Rightarrow> Inr (map (\<lambda>(k, v). (k, case v of JString s \<Rightarrow> MdString s | _ \<Rightarrow> MdNull)) m)
       | _ \<Rightarrow> Inl (Exn ForeignStdException ''metadata'')),
      flag_insert = (\<lambda>f fs. if List.member fs f then fs else fs @ [f]),
      flag_find = (\<lambda>f. if List.member (map flag_name registered_builtins) f then Some f else None),
      cell_to_json = (\<lambda>c. Inr (JObject [(''t'', JString (dyn_type c)), (''k'', JString (kind c)),
         (''v'', contents c)])),
      cell_from_json = example_cell_from_json,
      inject_display_info = (\<lambda>j. j),
      get_string = (\<lambda>j. case j of JString s \<Rightarrow> Inr s | _ \<Rightarrow> Inl (Exn JsonException ''type must be string'')),
      get_int64 = (\<lambda>j. case j of JInt i \<Rightarrow> Inr i | _ \<Rightarrow> Inl (Exn JsonException ''type must be number'')),
      json_items = (\<lambda>j. case j of JArray js \<Rightarrow> js | _ \<Rightarrow> []),
      ticks_per_ms = 1000000\<rparr>"

definition example_type :: event_type where
  "example_type = \<lparr>type_id = ''OrderCreated'', event_name_v = ''order.created'',
     traits_default_flags = [], mixin_default_flags = Some [''local_only'']\<rparr>"

definition example_core :: EnvelopeCore where
  "example_core = \<lparr>core_id = 2, core_flags = [''direct'', ''my.audit''],
     core_metadata = [(''tenant'', MdString ''acme'')],
     core_timestamps = empty_timestamps\<lparr>created_at := 1500000, published_at := Some (- 2500000)\<rparr>,
     correlation_id = Some 3, causation_id = None,
     payload_cell = Some (event_cell example_type (JObject [(''total'', JInt 5)]))\<rparr>"

section \<open>Names and payloads\<close>

lemma compare_bytes_equivalent: "compare_bytes a b = OrdEquivalent \<longleftrightarrow> a = b"
proof (induction a b rule: compare_bytes.induct)
  case (4 c cs d ds)
  have "(of_char c :: nat) = of_char d \<longleftrightarrow> c = d" by simp
  then show ?case using 4 by (auto simp del: of_char_eq_iff)
qed simp_all

lemma envelope_compare_unordered:
  "envelope_compare k = OrdUnordered \<longleftrightarrow> k = envelope_kind_id" "envelope_compare k \<noteq> OrdEquivalent"
proof -
  have "compare_bytes a b \<noteq> OrdUnordered" for a b by (induction a b rule: compare_bytes.induct) simp_all
  then show "envelope_compare k = OrdUnordered \<longleftrightarrow> k = envelope_kind_id" "envelope_compare k \<noteq> OrdEquivalent"
    by (auto simp: envelope_compare_def Let_def compare_bytes_equivalent)
qed

lemma env_name_event [simp]:
  "payload_cell core = Some (event_cell T x) \<Longrightarrow> env_name (Some core) = event_name_v T"
  by (simp add: env_name_def event_cell_def kind_id_def Let_def)

lemma env_name_null [simp]: "env_name None = []"
  by (simp add: env_name_def)

lemma payload_as_event:
  "payload_cell core = Some (event_cell T x) \<Longrightarrow> derives (type_id T) (type_id T) \<Longrightarrow>
   payload_as derives T (Some core) = Some (event_cell T x)"
  by (simp add: payload_as_def event_cell_def)

section \<open>Round trip\<close>


lemma to_from_ms: "0 < k \<Longrightarrow> to_ms_since_epoch k (from_ms_since_epoch k ms) = ms"
  by (auto simp: to_ms_since_epoch_def from_ms_since_epoch_def trunc_div_def mult_less_0_iff
      simp flip: mult_minus_left)

lemma trunc_div_mult: "0 < k \<Longrightarrow> k dvd a \<Longrightarrow> trunc_div a k * k = a"
  by (auto simp: trunc_div_def)

lemma trunc_error:
  assumes "0 < k"
  shows "\<bar>a - trunc_div a k * k\<bar> < k"
proof -
  have m: "x - x div k * k = x mod k" for x by (simp add: minus_div_mult_eq_mod)
  have "a - trunc_div a k * k = (if a < 0 then - ((- a) mod k) else a mod k)"
    using m [of a] m [of "- a"] by (simp add: trunc_div_def)
  then show ?thesis using assms by (simp add: abs_of_nonneg)
qed

lemma trunc_shrinks:
  assumes "0 < k"
  shows "\<bar>trunc_div a k * k\<bar> \<le> \<bar>a\<bar>"
proof -
  have "x div k * k \<le> x" for x
    using minus_div_mult_eq_mod [of x k] pos_mod_sign [OF assms, of x] by linarith
  moreover have "0 \<le> x \<Longrightarrow> 0 \<le> x div k * k" for x
    using assms by (simp add: pos_imp_zdiv_nonneg_iff)
  ultimately show ?thesis by (fastforce simp: trunc_div_def)
qed

lemma decode_flags_names:
  assumes "wire_lib_laws L"
  shows "decode_flags L (map JString fs) acc =
    Inr (fold (flag_insert L) (filter (\<lambda>f. flag_find L f \<noteq> None) fs) acc)"
  using assms by (induction fs arbitrary: acc) (auto simp: wire_lib_laws_def split: option.splits)

lemma from_json_time_some:
  "wire_lib_laws L \<Longrightarrow> json_find ts k = map_option (\<lambda>tp. JInt (to_ms_since_epoch (ticks_per_ms L) tp)) t \<Longrightarrow>
   from_json_time L ts k = Inr (map_option (\<lambda>tp. trunc_div tp (ticks_per_ms L) * ticks_per_ms L) t)"
  by (cases t) (auto simp: from_json_time_def wire_lib_laws_def to_ms_since_epoch_def from_ms_since_epoch_def)

lemma timestamps_roundtrip:
  assumes "wire_lib_laws L" and "json_find v ''timestamps'' = Some (timestamps_to_json L t)"
  shows "from_json_timestamps L v = Inr (to_whole_ms (ticks_per_ms L) t)"
proof -
  let ?ts = "timestamps_to_json L t"
  let ?ms = "\<lambda>tp. JInt (to_ms_since_epoch (ticks_per_ms L) tp)"
  have "json_find ?ts ''created_at'' = map_option ?ms (Some (created_at t))"
    "json_find ?ts ''published_at'' = map_option ?ms (published_at t)"
    "json_find ?ts ''received_at'' = map_option ?ms (received_at t)"
    "json_find ?ts ''delivered_at'' = map_option ?ms (delivered_at t)"
    "json_find ?ts ''failed_at'' = map_option ?ms (failed_at t)"
    by (auto simp: timestamps_to_json_def Let_def)
  note r = this [THEN from_json_time_some [OF assms(1)]]
  show ?thesis
    using assms(2) by (simp add: from_json_timestamps_def r to_whole_ms_def Let_def)
qed

lemma opt_ulid_roundtrip:
  assumes "wire_lib_laws L" "json_find v k = map_option (\<lambda>u. JString (ulid_string L u)) o'"
    and "\<forall>u. o' = Some u \<longrightarrow> ulid_from_string L (ulid_string L u) = Some u"
  shows "from_json_opt_ulid L v k = Inr o'"
  using assms by (cases o') (auto simp: from_json_opt_ulid_def wire_lib_laws_def)

lemma wire_value_find:
  "is_object (wire_value L core p)"
  "json_find (wire_value L core p) ''id'' = Some (JString (ulid_string L (core_id core)))"
  "json_find (wire_value L core p) ''flags'' = Some (JArray (map JString (core_flags core)))"
  "json_find (wire_value L core p) ''correlation_id'' = map_option (\<lambda>u. JString (ulid_string L u)) (correlation_id core)"
  "json_find (wire_value L core p) ''causation_id'' = map_option (\<lambda>u. JString (ulid_string L u)) (causation_id core)"
  "json_find (wire_value L core p) ''metadata'' = Some (md_to_json L (core_metadata core))"
  "json_find (wire_value L core p) ''timestamps'' = Some (timestamps_to_json L (core_timestamps core))"
  "json_find (wire_value L core p) ''payload'' = Some p"
  by (auto simp: wire_value_def Let_def)

lemma to_json_wire_value:
  "payload_cell core = Some c \<Longrightarrow> cell_to_json L c = Inr p \<Longrightarrow>
   to_json L (Some core) = Inr (inject_display_info L
     (JObject [(KEY_KIND, JString envelope_kind_id), (KEY_VALUE, wire_value L core p)]))"
  by (simp add: to_json_def wire_value_def Let_def)

lemma from_json_value_wrapped:
  "wire_lib_laws L \<Longrightarrow> is_object v \<Longrightarrow>
   from_json_value (inject_display_info L (JObject [(KEY_KIND, JString envelope_kind_id), (KEY_VALUE, v)])) = Inr v"
  by (simp add: from_json_value_def wire_lib_laws_def KEY_KIND_def KEY_VALUE_def)

lemma roundtrip_aux:
  assumes L: "wire_lib_laws L" and inv: "codecs_invert L reg core"
  shows "\<exists>j. to_json L (Some core) = Inr j \<and>
    from_json L reg j = Inr (core\<lparr>core_timestamps := to_whole_ms (ticks_per_ms L) (core_timestamps core),
      core_flags := fold (flag_insert L) (filter (\<lambda>f. flag_find L f \<noteq> None) (core_flags core)) []\<rparr>)"
proof -
  obtain c p where c: "payload_cell core = Some c" "cell_to_json L c = Inr p" "cell_from_json L reg p = Inr (Some c)"
    using inv by (auto simp: codecs_invert_def)
  let ?v = "wire_value L core p"
  note f = wire_value_find [of L core p]
  have "from_json_id L ?v = Inr (core_id core)"
    using L inv by (simp add: from_json_id_def f wire_lib_laws_def codecs_invert_def)
  moreover have "from_json_opt_ulid L ?v ''correlation_id'' = Inr (correlation_id core)"
    "from_json_opt_ulid L ?v ''causation_id'' = Inr (causation_id core)"
    using inv f by (auto simp: codecs_invert_def intro!: opt_ulid_roundtrip [OF L])
  moreover have "from_json_flags L ?v =
      Inr (fold (flag_insert L) (filter (\<lambda>f. flag_find L f \<noteq> None) (core_flags core)) [])"
    using L decode_flags_names [OF L] by (simp add: from_json_flags_def f wire_lib_laws_def)
  moreover have "from_json_metadata L ?v = Inr (core_metadata core)"
    using inv by (simp add: from_json_metadata_def f codecs_invert_def)
  moreover have "from_json_payload L reg ?v = Inr (payload_cell core)"
    using c by (simp add: from_json_payload_def f)
  ultimately show ?thesis
    using timestamps_roundtrip [OF L f(7)] from_json_value_wrapped [OF L f(1)] to_json_wire_value [OF c(1,2)]
    by (simp add: from_json_def)
qed

lemma example_lib_laws: "wire_lib_laws example_lib"
  by (simp add: wire_lib_laws_def example_lib_def flag_insert_law_def KEY_KIND_def KEY_VALUE_def insert_absorb)

lemma example_core_inverts: "codecs_invert example_lib [''conduit:event:order.created''] example_core"
  by (simp add: codecs_invert_def example_lib_def example_core_def event_cell_def example_type_def
      kind_id_def event_kind_prefix_def list_all_iff)

section \<open>Properties\<close>

text \<open>
  The JSON round trip of an envelope. Encoding succeeds, and decoding what was encoded
  gives back every field: id, correlation and causation id, metadata and payload are equal,
  each timestamp is cut to whole milliseconds, and the flags are exactly those the
  decoding process has registered (an unregistered flag is lost on decode).
\<close>

theorem envelope_json_roundtrip:
  assumes "wire_lib_laws L" and "codecs_invert L reg core"
  shows "\<exists>j core'. to_json L (Some core) = Inr j \<and> from_json L reg j = Inr core' \<and>
    core' = core\<lparr>core_timestamps := to_whole_ms (ticks_per_ms L) (core_timestamps core),
                 core_flags := core_flags core'\<rparr> \<and>
    set (core_flags core') = {f \<in> set (core_flags core). flag_find L f \<noteq> None}"
proof -
  let ?fs = "fold (flag_insert L) (filter (\<lambda>f. flag_find L f \<noteq> None) (core_flags core)) []"
  have "set ?fs = {f \<in> set (core_flags core). flag_find L f \<noteq> None}"
    using assms(1) set_fold_flag_insert by (fastforce simp: wire_lib_laws_def)
  then show ?thesis using roundtrip_aux [OF assms] by fastforce
qed

theorem envelope_json_roundtrip_witness:
  "\<exists>j core'. to_json example_lib (Some example_core) = Inr j \<and>
     from_json example_lib [''conduit:event:order.created''] j = Inr core' \<and>
     core_metadata core' = [(''tenant'', MdString ''acme'')] \<and>
     created_at (core_timestamps core') = 1000000 \<and>
     published_at (core_timestamps core') = Some (- 2000000) \<and> set (core_flags core') = {''direct''}"
proof -
  obtain j core' where d: "to_json example_lib (Some example_core) = Inr j"
      "from_json example_lib [''conduit:event:order.created''] j = Inr core'"
    and c: "core' = example_core\<lparr>core_timestamps := to_whole_ms (ticks_per_ms example_lib)
        (core_timestamps example_core), core_flags := core_flags core'\<rparr>"
    and f: "set (core_flags core') = {f \<in> set (core_flags example_core). flag_find example_lib f \<noteq> None}"
    using envelope_json_roundtrip [OF example_lib_laws example_core_inverts] by auto
  have "core_metadata core' = [(''tenant'', MdString ''acme'')]"
    and "core_timestamps core' = to_whole_ms 1000000 (core_timestamps example_core)"
    by (subst c, simp add: example_core_def example_lib_def)+
  moreover have "set (core_flags core') = {''direct''}"
    unfolding f by (auto simp: example_core_def example_lib_def registered_builtins_def)
  ultimately show ?thesis
    using d by (simp add: to_whole_ms_def example_core_def empty_timestamps_def trunc_div_def)
qed

text \<open>
  \<^verbatim>\<open>to_ms_since_epoch\<close> inverts \<^verbatim>\<open>from_ms_since_epoch\<close>, and the other way round the time
  point is off by less than one millisecond, towards the epoch.
\<close>

theorem ms_conversions:
  assumes "0 < k"
  shows "to_ms_since_epoch k (from_ms_since_epoch k ms) = ms \<and>
    \<bar>tp - from_ms_since_epoch k (to_ms_since_epoch k tp)\<bar> < k \<and>
    \<bar>from_ms_since_epoch k (to_ms_since_epoch k tp)\<bar> \<le> \<bar>tp\<bar>"
proof (intro conjI)
  show "to_ms_since_epoch k (from_ms_since_epoch k ms) = ms" by (rule to_from_ms [OF assms])
  show "\<bar>tp - from_ms_since_epoch k (to_ms_since_epoch k tp)\<bar> < k"
    using trunc_error [OF assms] by (simp add: to_ms_since_epoch_def from_ms_since_epoch_def)
  show "\<bar>from_ms_since_epoch k (to_ms_since_epoch k tp)\<bar> \<le> \<bar>tp\<bar>"
    using trunc_shrinks [OF assms] by (simp add: to_ms_since_epoch_def from_ms_since_epoch_def)
qed

theorem ms_conversions_witness:
  "(0::int) < 1000000 \<and> to_ms_since_epoch 1000000 (from_ms_since_epoch 1000000 (- 7)) = - 7 \<and>
   from_ms_since_epoch 1000000 (to_ms_since_epoch 1000000 (- 7999999)) = - 7000000"
proof -
  have h: "(0::int) < 1000000" by simp
  show ?thesis using h ms_conversions [OF h, of "- 7" "- 7999999"]
    by (simp add: to_ms_since_epoch_def from_ms_since_epoch_def trunc_div_def)
qed

end
