(* ===== verification/Metrics.thy ===== *)
theory Metrics
  imports Prelude
begin

text \<open>
  \<^verbatim>\<open>include/conduit/metrics.hpp\<close>: the handles of the always-on metrics. The prom library
  is outside the repository; what the model keeps of a bus's telemetry is the sequence of
  calls it makes on these handles.
\<close>

datatype metric =
    events_published
  | events_dropped
  | listener_invocations
  | listener_errors
  | transport_errors
  | listeners_gauge
  | dispatch_seconds

datatype metric_type = Counter | Gauge | Histogram

record metric_spec =
  m_type :: metric_type
  m_name :: string
  m_help :: string

text \<open>The shared scope: its name and the prefix it puts before every metric.\<close>

definition scope_name :: string where "scope_name = ''conduit''"

definition scope_prefix :: string where "scope_prefix = ''conduit_''"

fun metric_handle :: "metric \<Rightarrow> metric_spec" where
  "metric_handle events_published = \<lparr>m_type = Counter, m_name = ''events_published_total'',
     m_help = ''Envelopes that entered the dispatch pipeline.''\<rparr>"
| "metric_handle events_dropped = \<lparr>m_type = Counter, m_name = ''events_dropped_total'',
     m_help = ''Envelopes dropped before dispatch (middleware veto or routing conflict).''\<rparr>"
| "metric_handle listener_invocations = \<lparr>m_type = Counter, m_name = ''listener_invocations_total'',
     m_help = ''Listener handler calls during fan-out (per matched listener).''\<rparr>"
| "metric_handle listener_errors = \<lparr>m_type = Counter, m_name = ''listener_errors_total'',
     m_help = ''Listener handlers that threw during fan-out.''\<rparr>"
| "metric_handle transport_errors = \<lparr>m_type = Counter, m_name = ''transport_errors_total'',
     m_help = ''Transport-level inbound failures (e.g. an undecodable message).''\<rparr>"
| "metric_handle listeners_gauge = \<lparr>m_type = Gauge, m_name = ''listeners'',
     m_help = ''Live listener subscriptions registered on a bus.''\<rparr>"
| "metric_handle dispatch_seconds = \<lparr>m_type = Histogram, m_name = ''dispatch_seconds'',
     m_help = ''Wall-clock seconds from publish to the end of the synchronous dispatch pipeline.''\<rparr>"

definition metric_full_name :: "metric \<Rightarrow> string" where
  "metric_full_name m = scope_prefix @ m_name (metric_handle m)"

text \<open>A call on a handle selected by its labels: \<^verbatim>\<open>inc()\<close>, \<^verbatim>\<open>dec()\<close>, \<^verbatim>\<open>observe(x)\<close>.\<close>

type_synonym labels = "(string \<times> string) list"

datatype metric_call = Inc metric labels | Dec metric labels | Observe metric labels int

text \<open>
  What a series shows after a sequence of calls, for a counter or gauge that starts at
  zero: its increments less its decrements.
\<close>

definition series_value :: "metric \<Rightarrow> labels \<Rightarrow> metric_call list \<Rightarrow> int" where
  "series_value m ls cs = int (count_list cs (Inc m ls)) - int (count_list cs (Dec m ls))"

lemma series_value_simps [simp]:
  "series_value m ls [] = 0"
  "series_value m ls (cs @ ds) = series_value m ls cs + series_value m ls ds"
  "series_value m ls [Inc m' ls'] = (if m = m' \<and> ls = ls' then 1 else 0)"
  "series_value m ls [Dec m' ls'] = (if m = m' \<and> ls = ls' then - 1 else 0)"
  "series_value m ls [Observe m' ls' x] = 0"
  by (auto simp: series_value_def)

end
