(* ===== verification/World.thy ===== *)
theory World
  imports Envelope Metrics
begin

text \<open>
  What every component shares at run time: the heap of envelope cores, the calls made on
  the metric handles, and the readings of the system clock. An \<^verbatim>\<open>EventEnvelope\<close> object is
  the address of its core; copying the object copies the address, so copies share the core.
\<close>

type_synonym env = nat

record world =
  cores :: "env \<Rightarrow> EnvelopeCore option"
  heap_next :: env
  metrics :: "metric_call list"
  clock :: nat

text \<open>
  The core an accessor reads through the pointer. The accessors dereference without a test,
  so a read at an address with no core has no meaning in C++.
\<close>

definition core_at :: "env \<Rightarrow> 'a world_scheme \<Rightarrow> EnvelopeCore" where
  "core_at v s = (case cores s v of None \<Rightarrow> empty_core | Some c \<Rightarrow> c)"

definition name_of :: "env \<Rightarrow> 'a world_scheme \<Rightarrow> string" where
  "name_of v s = env_name (cores s v)"

text \<open>The non-const accessors: the update is seen through every copy of the envelope.\<close>

definition update_core :: "env \<Rightarrow> (EnvelopeCore \<Rightarrow> EnvelopeCore) \<Rightarrow> 'a world_scheme \<Rightarrow> 'a world_scheme" where
  "update_core v f s = s\<lparr>cores := (cores s)(v := map_option f (cores s v))\<rparr>"

definition update_timestamps :: "env \<Rightarrow> (Timestamps \<Rightarrow> Timestamps) \<Rightarrow> 'a world_scheme \<Rightarrow> 'a world_scheme" where
  "update_timestamps v f = update_core v (\<lambda>c. c\<lparr>core_timestamps := f (core_timestamps c)\<rparr>)"

definition alloc_core :: "EnvelopeCore \<Rightarrow> 'a world_scheme \<Rightarrow> env \<times> 'a world_scheme" where
  "alloc_core c s =
     (heap_next s, s\<lparr>cores := (cores s)(heap_next s \<mapsto> c), heap_next := Suc (heap_next s)\<rparr>)"

text \<open>A call on a metric handle, and a reading of \<^verbatim>\<open>system_clock::now()\<close>.\<close>

definition meter :: "metric_call \<Rightarrow> 'a world_scheme \<Rightarrow> 'a world_scheme" where
  "meter c s = s\<lparr>metrics := metrics s @ [c]\<rparr>"

definition read_clock :: "(nat \<Rightarrow> time_point) \<Rightarrow> 'a world_scheme \<Rightarrow> time_point \<times> 'a world_scheme" where
  "read_clock now s = (now (clock s), s\<lparr>clock := Suc (clock s)\<rparr>)"

text \<open>A heap in which the next address, and all above it, are free.\<close>

definition heap_ok :: "'a world_scheme \<Rightarrow> bool" where
  "heap_ok s \<longleftrightarrow> (\<forall>v \<ge> heap_next s. cores s v = None)"

lemma core_at_Some [simp]: "cores s v = Some c \<Longrightarrow> core_at v s = c"
  by (simp add: core_at_def)

lemma update_core_simps [simp, heap_simps]:
  "cores (update_core v f s) = (cores s)(v := map_option f (cores s v))"
  "heap_next (update_core v f s) = heap_next s"
  "metrics (update_core v f s) = metrics s"
  "clock (update_core v f s) = clock s"
  "world.more (update_core v f s) = world.more s"
  by (simp_all add: update_core_def)

lemma meter_simps [simp, heap_simps]:
  "cores (meter c s) = cores s"
  "heap_next (meter c s) = heap_next s"
  "metrics (meter c s) = metrics s @ [c]"
  "clock (meter c s) = clock s"
  "world.more (meter c s) = world.more s"
  by (simp_all add: meter_def)

lemma name_of_meter [simp]: "name_of v (meter c s) = name_of v s"
  by (simp add: name_of_def)

lemma env_name_timestamps [simp]:
  "env_name (map_option (\<lambda>c. c\<lparr>core_timestamps := f c\<rparr>) x) = env_name x"
  by (cases x) (simp_all add: env_name_def)

lemma name_of_update_timestamps [simp]: "name_of v (update_timestamps w f s) = name_of v s"
  by (simp add: name_of_def update_timestamps_def)

lemma heap_ok_update_core [simp]: "heap_ok s \<Longrightarrow> heap_ok (update_core v f s)"
  by (simp add: heap_ok_def)

lemma heap_ok_alloc: "heap_ok s \<Longrightarrow> heap_ok (snd (alloc_core c s))"
  by (simp add: heap_ok_def alloc_core_def)

lemma alloc_core_fresh: "heap_ok s \<Longrightarrow> cores s (fst (alloc_core c s)) = None"
  by (simp add: heap_ok_def alloc_core_def)

end
