(* ===== verification/Builder.thy ===== *)
theory Builder
  imports World
begin

text \<open>
  \<^verbatim>\<open>include/conduit/builder.hpp\<close>: the fluent builder. \<^verbatim>\<open>ulid::generate\<close>, the clock,
  \<^verbatim>\<open>FlagSet::insert\<close> and \<^verbatim>\<open>Metadata::insert_or_assign\<close> are arguments of the operations
  that call them.
\<close>

record EventBuilder =
  builder_type :: event_type
  builder_core :: EnvelopeCore
  builder_payload :: json
  id_set :: bool
  created_at_set :: bool

definition builder_new :: "(string \<Rightarrow> FlagSet \<Rightarrow> FlagSet) \<Rightarrow> event_type \<Rightarrow> json \<Rightarrow> EventBuilder" where
  "builder_new ins T x =
     \<lparr>builder_type = T, builder_core = empty_core\<lparr>core_flags := collect_default_flags ins T\<rparr>,
      builder_payload = x, id_set = False, created_at_set = False\<rparr>"

definition builder_id :: "ulid \<Rightarrow> EventBuilder \<Rightarrow> EventBuilder" where
  "builder_id u b = b\<lparr>builder_core := (builder_core b)\<lparr>core_id := u\<rparr>, id_set := True\<rparr>"

definition builder_correlation_id :: "ulid \<Rightarrow> EventBuilder \<Rightarrow> EventBuilder" where
  "builder_correlation_id u b = b\<lparr>builder_core := (builder_core b)\<lparr>correlation_id := Some u\<rparr>\<rparr>"

definition builder_causation_id :: "ulid \<Rightarrow> EventBuilder \<Rightarrow> EventBuilder" where
  "builder_causation_id u b = b\<lparr>builder_core := (builder_core b)\<lparr>causation_id := Some u\<rparr>\<rparr>"

definition builder_metadata ::
  "(string \<Rightarrow> md_value \<Rightarrow> Metadata \<Rightarrow> Metadata) \<Rightarrow> string \<Rightarrow> md_value \<Rightarrow> EventBuilder \<Rightarrow> EventBuilder" where
  "builder_metadata insert_or_assign key value b =
     b\<lparr>builder_core := (builder_core b)
       \<lparr>core_metadata := insert_or_assign key value (core_metadata (builder_core b))\<rparr>\<rparr>"

definition builder_metadata_all :: "Metadata \<Rightarrow> EventBuilder \<Rightarrow> EventBuilder" where
  "builder_metadata_all md b = b\<lparr>builder_core := (builder_core b)\<lparr>core_metadata := md\<rparr>\<rparr>"

definition builder_created_at :: "time_point \<Rightarrow> EventBuilder \<Rightarrow> EventBuilder" where
  "builder_created_at tp b =
     b\<lparr>builder_core := (builder_core b)
       \<lparr>core_timestamps := (core_timestamps (builder_core b))\<lparr>created_at := tp\<rparr>\<rparr>,
      created_at_set := True\<rparr>"

definition builder_flag :: "(string \<Rightarrow> FlagSet \<Rightarrow> FlagSet) \<Rightarrow> string \<Rightarrow> EventBuilder \<Rightarrow> EventBuilder" where
  "builder_flag ins f b =
     b\<lparr>builder_core := (builder_core b)\<lparr>core_flags := ins f (core_flags (builder_core b))\<rparr>\<rparr>"

definition builder_flags :: "(string \<Rightarrow> FlagSet \<Rightarrow> FlagSet) \<Rightarrow> string list \<Rightarrow> EventBuilder \<Rightarrow> EventBuilder" where
  "builder_flags ins fs b = fold (builder_flag ins) fs b"

text \<open>
  \<^verbatim>\<open>build()\<close>: the core it moves into the new envelope. The clock is read only when
  \<^verbatim>\<open>created_at\<close> was not given.
\<close>

definition build :: "ulid \<Rightarrow> (nat \<Rightarrow> time_point) \<Rightarrow> EventBuilder \<Rightarrow> 'a world_scheme \<Rightarrow> env \<times> 'a world_scheme" where
  "build generated now b s =
     (let core = (if id_set b then builder_core b else (builder_core b)\<lparr>core_id := generated\<rparr>);
          (core, s) =
            (if created_at_set b then (core, s)
             else let (t, s) = read_clock now s
                  in (core\<lparr>core_timestamps := (core_timestamps core)\<lparr>created_at := t\<rparr>\<rparr>, s))
      in alloc_core (envelope_of_core core (Some (event_cell (builder_type b) (builder_payload b)))) s)"

text \<open>The free functions \<^verbatim>\<open>event\<close> and \<^verbatim>\<open>make_event\<close>; the latter runs a constructor of the payload type first.\<close>

definition event :: "(string \<Rightarrow> FlagSet \<Rightarrow> FlagSet) \<Rightarrow> event_type \<Rightarrow> json \<Rightarrow> EventBuilder" where
  "event ins T x = builder_new ins T x"

definition make_event :: "(string \<Rightarrow> FlagSet \<Rightarrow> FlagSet) \<Rightarrow> event_type \<Rightarrow> ('a \<Rightarrow> json) \<Rightarrow> 'a \<Rightarrow> EventBuilder" where
  "make_event ins T ctor args = builder_new ins T (ctor args)"

text \<open>A chain of builder calls.\<close>

datatype builder_call =
    CallId ulid
  | CallCorrelation ulid
  | CallCausation ulid
  | CallMetadata string md_value
  | CallMetadataAll Metadata
  | CallCreatedAt time_point
  | CallFlag string
  | CallFlags "string list"

fun builder_step ::
  "(string \<Rightarrow> FlagSet \<Rightarrow> FlagSet) \<Rightarrow> (string \<Rightarrow> md_value \<Rightarrow> Metadata \<Rightarrow> Metadata) \<Rightarrow>
     builder_call \<Rightarrow> EventBuilder \<Rightarrow> EventBuilder" where
  "builder_step ins ioa (CallId u) = builder_id u"
| "builder_step ins ioa (CallCorrelation u) = builder_correlation_id u"
| "builder_step ins ioa (CallCausation u) = builder_causation_id u"
| "builder_step ins ioa (CallMetadata k x) = builder_metadata ioa k x"
| "builder_step ins ioa (CallMetadataAll md) = builder_metadata_all md"
| "builder_step ins ioa (CallCreatedAt tp) = builder_created_at tp"
| "builder_step ins ioa (CallFlag f) = builder_flag ins f"
| "builder_step ins ioa (CallFlags fs) = builder_flags ins fs"

text \<open>The flags a chain of calls names, and the last id and creation time it sets.\<close>

fun call_flags :: "builder_call \<Rightarrow> string set" where
  "call_flags (CallFlag f) = {f}"
| "call_flags (CallFlags fs) = set fs"
| "call_flags _ = {}"

fun last_id :: "builder_call list \<Rightarrow> ulid option" where
  "last_id [] = None"
| "last_id (c # cs) =
     (case last_id cs of Some u \<Rightarrow> Some u | None \<Rightarrow> (case c of CallId u \<Rightarrow> Some u | _ \<Rightarrow> None))"

fun last_created :: "builder_call list \<Rightarrow> time_point option" where
  "last_created [] = None"
| "last_created (c # cs) =
     (case last_created cs of Some t \<Rightarrow> Some t | None \<Rightarrow> (case c of CallCreatedAt t \<Rightarrow> Some t | _ \<Rightarrow> None))"

text \<open>A concrete flag insertion: at the end, without duplicates.\<close>

definition set_insert :: "string \<Rightarrow> FlagSet \<Rightarrow> FlagSet" where
  "set_insert f fs = (if f \<in> set fs then fs else fs @ [f])"

text \<open>An \<open>orders.created\<close> event with the mixin flag \<^verbatim>\<open>durable\<close>, given an id and a flag.\<close>

definition order_created :: event_type where
  "order_created = \<lparr>type_id = ''OrderCreated'', event_name_v = ''orders.created'',
     traits_default_flags = [], mixin_default_flags = Some [flag_name Durable]\<rparr>"

definition empty_world :: world where
  "empty_world = \<lparr>cores = Map.empty, heap_next = 0, metrics = [], clock = 0\<rparr>"

lemmas builder_defs = builder_id_def builder_correlation_id_def builder_causation_id_def
  builder_metadata_def builder_metadata_all_def builder_created_at_def builder_flag_def

lemma set_insert_law [simp]: "flag_insert_law set_insert"
  by (auto simp: flag_insert_law_def set_insert_def)

lemma builder_flags_effect:
  assumes "flag_insert_law ins"
  shows "set (core_flags (builder_core (builder_flags ins fs b))) = set (core_flags (builder_core b)) \<union> set fs \<and>
    builder_type (builder_flags ins fs b) = builder_type b \<and>
    builder_payload (builder_flags ins fs b) = builder_payload b \<and>
    id_set (builder_flags ins fs b) = id_set b \<and>
    created_at_set (builder_flags ins fs b) = created_at_set b \<and>
    core_id (builder_core (builder_flags ins fs b)) = core_id (builder_core b) \<and>
    core_timestamps (builder_core (builder_flags ins fs b)) = core_timestamps (builder_core b)"
  unfolding builder_flags_def
  by (induction fs arbitrary: b) (use assms in \<open>auto simp: builder_flag_def flag_insert_law_def\<close>)

lemma builder_step_keeps [simp]:
  assumes "flag_insert_law ins"
  shows "builder_type (builder_step ins ioa c b) = builder_type b"
    and "builder_payload (builder_step ins ioa c b) = builder_payload b"
    and "set (core_flags (builder_core (builder_step ins ioa c b))) =
           set (core_flags (builder_core b)) \<union> call_flags c"
    and "id_set (builder_step ins ioa c b) \<longleftrightarrow> id_set b \<or> (\<exists>u. c = CallId u)"
    and "created_at_set (builder_step ins ioa c b) \<longleftrightarrow> created_at_set b \<or> (\<exists>t. c = CallCreatedAt t)"
    and "core_id (builder_core (builder_step ins ioa c b)) =
           (case c of CallId u \<Rightarrow> u | _ \<Rightarrow> core_id (builder_core b))"
    and "created_at (core_timestamps (builder_core (builder_step ins ioa c b))) =
           (case c of CallCreatedAt t \<Rightarrow> t | _ \<Rightarrow> created_at (core_timestamps (builder_core b)))"
  using assms builder_flags_effect [OF assms]
  by (cases c; auto simp: builder_defs flag_insert_law_def)+

lemma builder_chain_effect:
  fixes ioa :: "string \<Rightarrow> md_value \<Rightarrow> Metadata \<Rightarrow> Metadata"
  assumes "flag_insert_law ins"
  defines "run \<equiv> \<lambda>cs b. fold (builder_step ins ioa) cs b"
  shows "builder_type (run cs b) = builder_type b" (is ?type)
    and "builder_payload (run cs b) = builder_payload b" (is ?payload)
    and "set (core_flags (builder_core (run cs b))) =
           set (core_flags (builder_core b)) \<union> (\<Union>c \<in> set cs. call_flags c)" (is ?flags)
    and "id_set (run cs b) \<longleftrightarrow> id_set b \<or> last_id cs \<noteq> None" (is ?idset)
    and "created_at_set (run cs b) \<longleftrightarrow> created_at_set b \<or> last_created cs \<noteq> None" (is ?catset)
    and "core_id (builder_core (run cs b)) =
           (case last_id cs of Some u \<Rightarrow> u | None \<Rightarrow> core_id (builder_core b))" (is ?id)
    and "created_at (core_timestamps (builder_core (run cs b))) =
           (case last_created cs of Some t \<Rightarrow> t | None \<Rightarrow> created_at (core_timestamps (builder_core b)))" (is ?cat)
proof -
  show ?type ?payload ?flags unfolding run_def
    by (induction cs arbitrary: b) (auto simp: assms(1))
  show ?idset ?catset unfolding run_def
    by (induction cs arbitrary: b) (auto simp: assms(1) split: option.splits builder_call.splits)
  show ?id ?cat unfolding run_def
    by (induction cs arbitrary: b) (auto simp: assms(1) split: option.splits builder_call.splits)
qed

lemma build_effect:
  assumes "build g now b s = (v, s')"
  shows "v = heap_next s \<and> heap_next s' = Suc (heap_next s) \<and>
    (\<exists>c. cores s' = (cores s)(v \<mapsto> c) \<and>
      payload_cell c = Some (event_cell (builder_type b) (builder_payload b)) \<and>
      core_flags c = core_flags (builder_core b) \<and>
      core_id c = (if id_set b then core_id (builder_core b) else g) \<and>
      created_at (core_timestamps c) =
        (if created_at_set b then created_at (core_timestamps (builder_core b)) else now (clock s)))"
  using assms
  by (auto simp: build_def alloc_core_def read_clock_def envelope_of_core_def Let_def split: if_splits)



end
