(* ===== verification/Registry.thy ===== *)
theory Registry
  imports World
begin

text \<open>
  \<^verbatim>\<open>include/conduit/serialization.hpp\<close> and \<^verbatim>\<open>include/conduit/event_type_registry.hpp\<close>: the
  copy-on-write registry that decodes envelopes, its encode and decode helpers, the catalog
  of event types, and the interleaving of threads that register types concurrently.
  \<^verbatim>\<open>parcel::ParcelRegistry\<close> and nlohmann's CBOR codec are a parameter record.
\<close>

section \<open>Data\<close>

text \<open>A \<^verbatim>\<open>parcel::cell_type_descriptor_t\<close>, by what the sources read through the handle.\<close>

record descriptor =
  d_kind :: string
  d_display_info :: json
  d_schema :: json

type_synonym bytes = "8 word list"

record 'r parcel_lib =
  default_registry :: 'r
  register_kind :: "descriptor \<Rightarrow> 'r \<Rightarrow> 'r"
  registry_find :: "'r \<Rightarrow> string \<Rightarrow> descriptor option"
  registry_all :: "'r \<Rightarrow> descriptor list"
  descriptor_of :: "event_type \<Rightarrow> descriptor"
  envelope_descriptor :: descriptor
  from_cbor :: "bytes \<Rightarrow> json throws"
  to_cbor :: "json \<Rightarrow> bytes"
  wire :: "'r wire_lib"

section \<open>The event registry\<close>

text \<open>
  The active \<^verbatim>\<open>shared_ptr\<close> is only ever replaced, never written through, so an
  \<^verbatim>\<open>EventRegistry\<close> is the registry version it points to; a snapshot is that version.
\<close>

record 'r EventRegistry =
  registry_ptr :: 'r

definition EventRegistry_new :: "'r parcel_lib \<Rightarrow> 'r EventRegistry" where
  "EventRegistry_new P = \<lparr>registry_ptr = register_kind P (envelope_descriptor P) (default_registry P)\<rparr>"

definition registry_snapshot :: "'r EventRegistry \<Rightarrow> 'r" where
  "registry_snapshot g = registry_ptr g"

definition EventRegistry_copy :: "'r EventRegistry \<Rightarrow> 'r EventRegistry" where
  "EventRegistry_copy other = \<lparr>registry_ptr = registry_snapshot other\<rparr>"

text \<open>\<^verbatim>\<open>add_descriptor\<close> as one thread runs it: snapshot, private copy, swap.\<close>

definition build_next :: "'r parcel_lib \<Rightarrow> descriptor \<Rightarrow> 'r \<Rightarrow> 'r" where
  "build_next P d current = register_kind P d current"

definition swap_in :: "'r \<Rightarrow> 'r EventRegistry \<Rightarrow> 'r EventRegistry" where
  "swap_in r g = g\<lparr>registry_ptr := r\<rparr>"

definition add_descriptor :: "'r parcel_lib \<Rightarrow> descriptor \<Rightarrow> 'r EventRegistry \<Rightarrow> 'r EventRegistry" where
  "add_descriptor P d g = swap_in (build_next P d (registry_snapshot g)) g"

definition registry_add :: "'r parcel_lib \<Rightarrow> event_type \<Rightarrow> 'r EventRegistry \<Rightarrow> 'r EventRegistry" where
  "registry_add P T g = add_descriptor P (descriptor_of P T) g"

definition decode_json :: "'r parcel_lib \<Rightarrow> 'r EventRegistry \<Rightarrow> json \<Rightarrow> EnvelopeCore throws" where
  "decode_json P g j =
     (case from_json (wire P) (registry_snapshot g) j of
        Inr core \<Rightarrow> Inr core
      | Inl e \<Rightarrow> if is_a (exn_kind e) ParcelException then Inl (Exn SerializationError (exn_what e)) else Inl e)"

definition decode_cbor :: "'r parcel_lib \<Rightarrow> 'r EventRegistry \<Rightarrow> bytes \<Rightarrow> EnvelopeCore throws" where
  "decode_cbor P g bs =
     (case and_then (from_cbor P bs) (decode_json P g) of
        Inr core \<Rightarrow> Inr core
      | Inl e \<Rightarrow>
          if is_a (exn_kind e) ParcelException then Inl (Exn SerializationError (exn_what e))
          else if is_a (exn_kind e) SerializationError then Inl e
          else if is_a (exn_kind e) StdException then Inl (Exn SerializationError (exn_what e))
          else Inl e)"

definition encode_json :: "'r parcel_lib \<Rightarrow> EnvelopeCore option \<Rightarrow> json throws" where
  "encode_json P v = to_json (wire P) v"

definition encode_cbor :: "'r parcel_lib \<Rightarrow> EnvelopeCore option \<Rightarrow> bytes throws" where
  "encode_cbor P v = and_then (to_json (wire P) v) (\<lambda>j. Inr (to_cbor P j))"

section \<open>The catalog of event types\<close>

record EventTypeInfo =
  info_name :: string
  info_kind_id :: string
  info_descriptor :: descriptor

definition info_display_info :: "EventTypeInfo \<Rightarrow> json" where
  "info_display_info i = d_display_info (info_descriptor i)"

definition info_schema :: "EventTypeInfo \<Rightarrow> json" where
  "info_schema i = d_schema (info_descriptor i)"

definition info_of :: "descriptor \<Rightarrow> EventTypeInfo" where
  "info_of d = \<lparr>info_name = substr_from (d_kind d) (length event_kind_prefix), info_kind_id = d_kind d,
     info_descriptor = d\<rparr>"

definition types_add :: "'r parcel_lib \<Rightarrow> event_type \<Rightarrow> 'r \<Rightarrow> 'r" where
  "types_add P T r = register_kind P (descriptor_of P T) r"

definition types_all :: "'r parcel_lib \<Rightarrow> 'r \<Rightarrow> EventTypeInfo list" where
  "types_all P r = map info_of (filter (\<lambda>d. starts_with (d_kind d) event_kind_prefix) (registry_all P r))"

definition types_resolve :: "'r parcel_lib \<Rightarrow> 'r \<Rightarrow> string \<Rightarrow> descriptor option" where
  "types_resolve P r name_or_kind =
     (if starts_with name_or_kind event_kind_prefix then registry_find P r name_or_kind
      else registry_find P r (event_kind_prefix @ name_or_kind))"

definition types_find :: "'r parcel_lib \<Rightarrow> 'r \<Rightarrow> string \<Rightarrow> EventTypeInfo option" where
  "types_find P r n = (case types_resolve P r n of None \<Rightarrow> None | Some d \<Rightarrow> Some (info_of d))"

definition types_contains :: "'r parcel_lib \<Rightarrow> 'r \<Rightarrow> string \<Rightarrow> bool" where
  "types_contains P r n = (types_resolve P r n \<noteq> None)"

definition types_schema :: "'r parcel_lib \<Rightarrow> 'r \<Rightarrow> string \<Rightarrow> json throws" where
  "types_schema P r n =
     (case types_resolve P r n of
        None \<Rightarrow> Inl (Exn UnknownEventTypeError
          (''EventTypeRegistry::schema: unknown event type '' @ quoted n))
      | Some d \<Rightarrow> Inr (d_schema d))"

text \<open>
  The process-wide catalog: the singleton starts as a default-constructed registry, and each registrar object,
  one per \<^verbatim>\<open>CONDUIT_REGISTER_EVENT\<close>, adds its type when static initialisation reaches it.
\<close>

definition global_event_types :: "'r parcel_lib \<Rightarrow> 'r" where
  "global_event_types P = default_registry P"

definition EventTypeRegistrar :: "'r parcel_lib \<Rightarrow> event_type \<Rightarrow> 'r \<Rightarrow> 'r" where
  "EventTypeRegistrar P T catalog = types_add P T catalog"

definition registered_event_types :: "'r parcel_lib \<Rightarrow> event_type list \<Rightarrow> EventTypeInfo list" where
  "registered_event_types P registrars = types_all P (fold (EventTypeRegistrar P) registrars (global_event_types P))"

section \<open>Concurrent registration\<close>

text \<open>
  Threads inside \<^verbatim>\<open>add_descriptor\<close>: before the snapshot, after it with the version copied
  and extended, and after the swap. Only the snapshot and the swap touch shared state, each
  under the lock.
\<close>

datatype 'r writer = Idle descriptor | Built descriptor 'r | Finished descriptor

record 'r writers =
  shared :: "'r EventRegistry"
  threads :: "'r writer list"

inductive registry_step :: "'r parcel_lib \<Rightarrow> 'r writers \<Rightarrow> 'r writers \<Rightarrow> bool" for P where
  take_snapshot: "i < length (threads s) \<Longrightarrow> threads s ! i = Idle d \<Longrightarrow>
    registry_step P s (s\<lparr>threads := (threads s)[i := Built d (build_next P d (registry_snapshot (shared s)))]\<rparr>)"
| swap: "i < length (threads s) \<Longrightarrow> threads s ! i = Built d r \<Longrightarrow>
    registry_step P s (s\<lparr>shared := swap_in r (shared s), threads := (threads s)[i := Finished d]\<rparr>)"

fun writer_desc :: "'r writer \<Rightarrow> descriptor" where
  "writer_desc (Idle d) = d"
| "writer_desc (Built d r) = d"
| "writer_desc (Finished d) = d"

fun writer_finished :: "'r writer \<Rightarrow> bool" where
  "writer_finished (Finished d) = True"
| "writer_finished w = False"

text \<open>A version obtained from \<open>r0\<close> by registering some of the descriptors \<open>D\<close>, in some order.\<close>

definition version_of :: "'r parcel_lib \<Rightarrow> 'r \<Rightarrow> descriptor set \<Rightarrow> 'r \<Rightarrow> bool" where
  "version_of P r0 D r \<longleftrightarrow> (\<exists>ds. set ds \<subseteq> D \<and> r = fold (register_kind P) ds r0)"

section \<open>What parcel is assumed to do\<close>

text \<open>
  A kind is found after it was registered and registering it leaves other kinds alone; a
  found descriptor has the kind it was asked for; \<^verbatim>\<open>all()\<close> lists exactly what can be found;
  the descriptor of an event type carries the type's kind.
\<close>

definition parcel_laws :: "'r parcel_lib \<Rightarrow> bool" where
  "parcel_laws P \<longleftrightarrow>
     (\<forall>d r k. registry_find P (register_kind P d r) k = (if k = d_kind d then Some d else registry_find P r k)) \<and>
     (\<forall>r k d. registry_find P r k = Some d \<longrightarrow> d_kind d = k) \<and>
     (\<forall>r d. d \<in> set (registry_all P r) \<longleftrightarrow> registry_find P r (d_kind d) = Some d) \<and>
     (\<forall>T. d_kind (descriptor_of P T) = kind_id T)"

text \<open>nlohmann's CBOR codec gives back the document of this envelope.\<close>

definition cbor_inverts :: "'r parcel_lib \<Rightarrow> EnvelopeCore \<Rightarrow> bool" where
  "cbor_inverts P core \<longleftrightarrow> (\<forall>j. to_json (wire P) (Some core) = Inr j \<longrightarrow> from_cbor P (to_cbor P j) = Inr j)"

text \<open>Every version a thread holds, and the shared one, comes from registrations of the threads' types.\<close>

definition versions_ok :: "'r parcel_lib \<Rightarrow> 'r \<Rightarrow> descriptor list \<Rightarrow> 'r writers \<Rightarrow> bool" where
  "versions_ok P r0 ds s \<longleftrightarrow> map writer_desc (threads s) = ds \<and>
     version_of P r0 (set ds) (registry_ptr (shared s)) \<and>
     (\<forall>d r. Built d r \<in> set (threads s) \<longrightarrow> version_of P r0 (set ds) r)"

text \<open>
  A concrete instance for the witnesses: the registry is the list of its descriptors, newest
  first, and CBOR bytes are looked up in a table of two documents.
\<close>

definition example_descriptor :: "event_type \<Rightarrow> descriptor" where
  "example_descriptor T = \<lparr>d_kind = kind_id T, d_display_info = JNull,
     d_schema = JObject [(''kind'', JString (kind_id T))]\<rparr>"

definition example_wire :: "descriptor list wire_lib" where
  "example_wire =
     \<lparr>ulid_string = ulid_string example_lib, ulid_from_string = ulid_from_string example_lib,
      md_to_json = md_to_json example_lib, md_from_json = md_from_json example_lib,
      flag_insert = flag_insert example_lib, flag_find = flag_find example_lib,
      cell_to_json = cell_to_json example_lib,
      cell_from_json = (\<lambda>r. cell_from_json example_lib (map d_kind r)),
      inject_display_info = inject_display_info example_lib, get_string = get_string example_lib,
      get_int64 = get_int64 example_lib, json_items = json_items example_lib,
      ticks_per_ms = ticks_per_ms example_lib\<rparr>"

definition example_doc :: json where
  "example_doc = (case to_json example_wire (Some example_core) of Inr j \<Rightarrow> j | Inl e \<Rightarrow> JNull)"

definition bad_doc :: json where
  "bad_doc = JObject [(''k'', JString ''conduit:envelope''),
     (''v'', JObject [(''id'', JString ''II''), (''correlation_id'', JInt 5)])]"

definition example_parcel :: "descriptor list parcel_lib" where
  "example_parcel =
     \<lparr>default_registry = [],
      register_kind = (\<lambda>d r. d # filter (\<lambda>e. d_kind e \<noteq> d_kind d) r),
      registry_find = (\<lambda>r k. find (\<lambda>d. d_kind d = k) r),
      registry_all = (\<lambda>r. filter (\<lambda>d. find (\<lambda>e. d_kind e = d_kind d) r = Some d) r),
      descriptor_of = example_descriptor,
      envelope_descriptor = \<lparr>d_kind = envelope_kind_id, d_display_info = JNull, d_schema = JNull\<rparr>,
      from_cbor = (\<lambda>bs. if bs = [0x80] then Inr example_doc else if bs = [0x81] then Inr bad_doc
         else Inl (Exn JsonException ''cbor'')),
      to_cbor = (\<lambda>j. if j = example_doc then [0x80] else if j = bad_doc then [0x81] else []),
      wire = example_wire\<rparr>"

definition example_registry :: "descriptor list EventRegistry" where
  "example_registry = registry_add example_parcel example_type (EventRegistry_new example_parcel)"

definition item_type :: "string \<Rightarrow> event_type" where
  "item_type n = \<lparr>type_id = n, event_name_v = n, traits_default_flags = [], mixin_default_flags = None\<rparr>"

section \<open>Lemmas\<close>

lemma parcel_lawsD:
  assumes "parcel_laws P"
  shows "registry_find P (register_kind P d r) k = (if k = d_kind d then Some d else registry_find P r k)"
    and "registry_find P r k = Some d \<Longrightarrow> d_kind d = k"
    and "d \<in> set (registry_all P r) \<longleftrightarrow> registry_find P r (d_kind d) = Some d"
    and "d_kind (descriptor_of P T) = kind_id T"
  using assms unfolding parcel_laws_def by blast+

lemma exn_cases_decode_cbor:
  assumes "decode_cbor P g bs = Inl e"
  shows "is_a (exn_kind e) SerializationError \<or> \<not> is_a (exn_kind e) StdException"
  using assms by (auto simp: decode_cbor_def split: sum.splits if_splits)

lemma decode_json_eq_Inr:
  "decode_json P g j = Inr core \<longleftrightarrow> from_json (wire P) (registry_ptr g) j = Inr core"
  by (cases "from_json (wire P) (registry_ptr g) j") (auto simp: decode_json_def registry_snapshot_def)

lemma decode_cbor_eq_Inr:
  "decode_cbor P g bs = Inr core \<longleftrightarrow>
     (\<exists>j. from_cbor P bs = Inr j \<and> from_json (wire P) (registry_ptr g) j = Inr core)"
proof -
  have "decode_cbor P g bs = Inr core \<longleftrightarrow> and_then (from_cbor P bs) (decode_json P g) = Inr core"
    by (auto simp: decode_cbor_def split: sum.splits if_splits)
  then show ?thesis by (simp add: and_then_eq_Inr decode_json_eq_Inr)
qed

lemma find_types_add:
  assumes "parcel_laws P" and "\<not> starts_with (event_name_v T) event_kind_prefix"
  shows "types_resolve P (types_add P T r) (event_name_v T) = Some (descriptor_of P T)"
    and "types_resolve P (types_add P T r) (kind_id T) = Some (descriptor_of P T)"
  using assms(2) by (auto simp: types_resolve_def types_add_def parcel_lawsD [OF assms(1)] kind_id_def)

lemma version_refl: "version_of P r D r"
  by (auto simp: version_of_def intro: exI [of _ "[]"])

lemma version_extend: "version_of P r0 D r \<Longrightarrow> d \<in> D \<Longrightarrow> version_of P r0 D (build_next P d r)"
proof -
  assume "version_of P r0 D r" "d \<in> D"
  then obtain ds where "set ds \<subseteq> D" "r = fold (register_kind P) ds r0" by (auto simp: version_of_def)
  then show ?thesis using \<open>d \<in> D\<close>
    by (auto simp: version_of_def build_next_def intro!: exI [of _ "ds @ [d]"])
qed

lemma desc_of_update:
  "i < length ts \<Longrightarrow> writer_desc w = writer_desc (ts ! i) \<Longrightarrow> map writer_desc (ts[i := w]) = map writer_desc ts"
  by (simp add: map_update list_update_same_conv)

lemma versions_ok_step: "registry_step P s s' \<Longrightarrow> versions_ok P r0 ds s \<Longrightarrow> versions_ok P r0 ds s'"
proof (induction rule: registry_step.induct)
  case (take_snapshot i s d)
  then have "d \<in> set ds" by (metis list.set_map nth_mem rev_image_eqI versions_ok_def writer_desc.simps(1))
  then show ?case
    using take_snapshot set_update_subset_insert [of "threads s" i]
    by (auto simp: versions_ok_def desc_of_update registry_snapshot_def intro: version_extend)
next
  case (swap i s d r)
  then have "version_of P r0 (set ds) r" by (metis nth_mem versions_ok_def)
  then show ?case
    using swap set_update_subset_insert [of "threads s" i]
    by (auto simp: versions_ok_def desc_of_update swap_in_def)
qed

lemma versions_ok_reach: "(registry_step P)\<^sup>*\<^sup>* s s' \<Longrightarrow> versions_ok P r0 ds s \<Longrightarrow> versions_ok P r0 ds s'"
  by (induction rule: rtranclp_induct) (auto intro: versions_ok_step)

lemma versions_ok_initial: "versions_ok P (registry_ptr g) ds \<lparr>shared = g, threads = map Idle ds\<rparr>"
  by (auto simp: versions_ok_def version_refl comp_def)

lemma fold_register_find:
  assumes "parcel_laws P" and "registry_find P r k = Some d"
  shows "\<exists>d. registry_find P (fold (register_kind P) ds r) k = Some d"
  using assms(2)
proof (induction ds arbitrary: r d)
  case (Cons d0 ds)
  have "\<exists>d. registry_find P (register_kind P d0 r) k = Some d"
    using Cons.prems by (simp add: parcel_lawsD(1) [OF assms(1)])
  then show ?case using Cons.IH by auto
qed auto

lemma fold_register_origin:
  assumes "parcel_laws P" and "registry_find P (fold (register_kind P) ds r) k = Some d"
  shows "registry_find P r k = Some d \<or> d \<in> set ds"
  using assms(2)
proof (induction ds arbitrary: r)
  case (Cons d0 ds)
  then have "registry_find P (register_kind P d0 r) k = Some d \<or> d \<in> set ds" by simp
  then show ?case by (auto simp: parcel_lawsD(1) [OF assms(1)] split: if_splits)
qed auto

lemma types_all_find_aux:
  assumes "parcel_laws P"
  shows "i \<in> set (types_all P r) \<longleftrightarrow> (\<exists>n. types_find P r n = Some i \<and> starts_with n event_kind_prefix)"
proof
  assume "i \<in> set (types_all P r)"
  then obtain d where d: "i = info_of d" "starts_with (d_kind d) event_kind_prefix"
      "registry_find P r (d_kind d) = Some d"
    by (auto simp: types_all_def parcel_lawsD(3) [OF assms])
  then show "\<exists>n. types_find P r n = Some i \<and> starts_with n event_kind_prefix"
    by (intro exI [of _ "d_kind d"]) (simp add: types_find_def types_resolve_def)
next
  assume "\<exists>n. types_find P r n = Some i \<and> starts_with n event_kind_prefix"
  then obtain n d where nd: "starts_with n event_kind_prefix" "registry_find P r n = Some d" "i = info_of d"
    by (auto simp: types_find_def types_resolve_def split: option.splits)
  moreover have "d_kind d = n" by (rule parcel_lawsD(2) [OF assms nd(2)])
  ultimately show "i \<in> set (types_all P r)"
    by (auto simp: types_all_def parcel_lawsD(3) [OF assms])
qed

lemma find_filter_kind:
  "find (\<lambda>d. d_kind d = k) (filter (\<lambda>e. d_kind e \<noteq> k') r) =
     (if k = k' then None else find (\<lambda>d. d_kind d = k) (r :: descriptor list))"
  by (induction r) auto

lemma find_kind: "find (\<lambda>d. d_kind d = k) r = Some d \<Longrightarrow> d_kind d = k \<and> d \<in> set r" for r :: "descriptor list"
  by (auto simp: find_Some_iff)

lemma example_parcel_laws: "parcel_laws example_parcel"
  unfolding parcel_laws_def
proof (intro conjI allI)
  fix d r k show "registry_find example_parcel (register_kind example_parcel d r) k =
      (if k = d_kind d then Some d else registry_find example_parcel r k)"
    by (simp add: example_parcel_def find_filter_kind)
next
  fix r k d show "registry_find example_parcel r k = Some d \<longrightarrow> d_kind d = k"
    using find_kind [of k r d] by (simp add: example_parcel_def)
next
  fix r d show "d \<in> set (registry_all example_parcel r) \<longleftrightarrow> registry_find example_parcel r (d_kind d) = Some d"
    using find_kind [of "d_kind d" r d] by (auto simp: example_parcel_def)
next
  fix T show "d_kind (descriptor_of example_parcel T) = kind_id T"
    by (simp add: example_parcel_def example_descriptor_def)
qed

lemma example_wire_laws: "wire_lib_laws example_wire"
  using example_lib_laws by (simp add: wire_lib_laws_def example_wire_def)

lemma example_registry_kinds:
  "map d_kind (registry_ptr example_registry) = [''conduit:event:order.created'', ''conduit:envelope'']"
  by (simp add: example_registry_def registry_add_def add_descriptor_def swap_in_def build_next_def
      registry_snapshot_def EventRegistry_new_def example_parcel_def example_descriptor_def
      kind_id_def example_type_def event_kind_prefix_def envelope_kind_id_def)

lemma example_registry_inverts: "codecs_invert example_wire (registry_ptr example_registry) example_core"
  using example_core_inverts
  by (auto simp: codecs_invert_def example_wire_def example_registry_kinds)
     (auto simp: example_lib_def example_core_def event_cell_def example_type_def kind_id_def
      event_kind_prefix_def)

section \<open>Properties\<close>

text \<open>
  C11: the CBOR round trip through a registry: encoding succeeds and decoding the bytes gives
  the envelope back, timestamps cut to whole milliseconds and flags reduced to those the
  decoding process knows.
\<close>

theorem envelope_cbor_roundtrip:
  assumes "wire_lib_laws (wire P)" and "codecs_invert (wire P) (registry_ptr g) core" and "cbor_inverts P core"
  shows "\<exists>bs core'. encode_cbor P (Some core) = Inr bs \<and> decode_cbor P g bs = Inr core' \<and>
    core' = core\<lparr>core_timestamps := to_whole_ms (ticks_per_ms (wire P)) (core_timestamps core),
                 core_flags := core_flags core'\<rparr> \<and>
    set (core_flags core') = {f \<in> set (core_flags core). flag_find (wire P) f \<noteq> None}"
proof -
  let ?fs = "fold (flag_insert (wire P)) (filter (\<lambda>f. flag_find (wire P) f \<noteq> None) (core_flags core)) []"
  have "set ?fs = {f \<in> set (core_flags core). flag_find (wire P) f \<noteq> None}"
    using assms(1) set_fold_flag_insert by (fastforce simp: wire_lib_laws_def)
  then show ?thesis
    using roundtrip_aux [OF assms(1,2)] assms(3)
    by (fastforce simp: encode_cbor_def decode_cbor_eq_Inr cbor_inverts_def)
qed

theorem envelope_cbor_roundtrip_witness:
  "\<exists>bs core'. encode_cbor example_parcel (Some example_core) = Inr bs \<and>
     decode_cbor example_parcel example_registry bs = Inr core' \<and>
     core_id core' = 2 \<and> set (core_flags core') = {''direct''}"
proof -
  have w: "wire example_parcel = example_wire" by (simp add: example_parcel_def)
  have c: "cbor_inverts example_parcel example_core"
    by (auto simp: cbor_inverts_def example_parcel_def example_doc_def split: sum.splits)
  obtain bs core' where d: "encode_cbor example_parcel (Some example_core) = Inr bs"
      "decode_cbor example_parcel example_registry bs = Inr core'"
    and e: "core' = example_core\<lparr>core_timestamps := to_whole_ms (ticks_per_ms example_wire)
        (core_timestamps example_core), core_flags := core_flags core'\<rparr>"
    and f: "set (core_flags core') = {f \<in> set (core_flags example_core). flag_find example_wire f \<noteq> None}"
    using envelope_cbor_roundtrip [of example_parcel example_registry example_core, unfolded w,
        OF example_wire_laws example_registry_inverts c] by auto
  have "core_id core' = 2" by (subst e) (simp add: example_core_def)
  moreover have "set (core_flags core') = {''direct''}"
    unfolding f by (auto simp: example_core_def example_wire_def example_lib_def registered_builtins_def)
  ultimately show ?thesis using d by blast
qed

text \<open>
  Whatever the bytes, an exception that leaves \<^verbatim>\<open>decode_cbor\<close> is a \<^verbatim>\<open>SerializationError\<close>
  unless it is not a \<^verbatim>\<open>std::exception\<close> at all; the decoded core, when there is one, came from
  the envelope decoder on the active registry version.
\<close>

theorem decode_cbor_classifies:
  "case decode_cbor P g bs of
     Inl e \<Rightarrow> exn_kind e = SerializationError \<or> exn_kind e = ForeignException
   | Inr core \<Rightarrow> \<exists>j. from_cbor P bs = Inr j \<and> from_json (wire P) (registry_ptr g) j = Inr core"
proof (cases "decode_cbor P g bs")
  case (Inl e)
  then show ?thesis
    using exn_cases_decode_cbor [OF Inl] by (simp add: is_a_SerializationError_iff is_a_StdException_iff)
next
  case (Inr core)
  then show ?thesis using decode_cbor_eq_Inr [THEN iffD1, OF Inr] by simp
qed

text \<open>
  \<^verbatim>\<open>decode_json\<close> on its own translates parcel's exceptions only. A well-formed wrapper
  whose \<open>correlation_id\<close> is a value nlohmann refuses to convert makes it throw nlohmann's own
  exception, while \<^verbatim>\<open>decode_cbor\<close> on the same document throws a \<^verbatim>\<open>SerializationError\<close>.
\<close>

theorem decode_json_leaks:
  assumes "from_json_value j = Inr v" and "from_json_id (wire P) v = Inr u"
    and "json_find v ''correlation_id'' = Some x" and "get_string (wire P) x = Inl e"
    and "exn_kind e = JsonException" and "from_cbor P bs = Inr j"
  shows "decode_json P g j = Inl e \<and> \<not> is_a (exn_kind e) ConduitException \<and>
    decode_cbor P g bs = Inl (Exn SerializationError (exn_what e))"
proof -
  have "from_json (wire P) (registry_ptr g) j = Inl e"
    using assms by (simp add: from_json_def from_json_opt_ulid_def)
  then show ?thesis
    using assms(5,6)
    by (simp add: decode_json_def decode_cbor_def registry_snapshot_def is_a.simps)
qed

theorem decode_json_leaks_witness:
  "decode_json example_parcel example_registry bad_doc = Inl (Exn JsonException ''type must be string'') \<and>
   decode_cbor example_parcel example_registry [0x81] = Inl (Exn SerializationError ''type must be string'')"
proof -
  have v: "from_json_value bad_doc = Inr (JObject [(''id'', JString ''II''), (''correlation_id'', JInt 5)])"
    by (simp add: from_json_value_def bad_doc_def KEY_KIND_def KEY_VALUE_def envelope_kind_id_def)
  have i: "from_json_id (wire example_parcel) (JObject [(''id'', JString ''II''), (''correlation_id'', JInt 5)]) = Inr 2"
    by (simp add: from_json_id_def example_parcel_def example_wire_def example_lib_def)
  have b: "from_cbor example_parcel [0x81] = Inr bad_doc" by (simp add: example_parcel_def)
  have g: "get_string (wire example_parcel) (JInt 5) = Inl (Exn JsonException ''type must be string'')"
    by (simp add: example_parcel_def example_wire_def example_lib_def)
  show ?thesis
    using decode_json_leaks [OF v i _ g _ b, of example_registry] by simp
qed

text \<open>
  The event type catalog. After adding a type it is found under its bare name and under
  its full kind, with the bare name, the kind and the schema of its descriptor, and every
  other lookup is as before; an unknown name makes \<^verbatim>\<open>schema\<close> throw \<^verbatim>\<open>UnknownEventTypeError\<close>; the
  listing holds exactly the event types that can be found.
\<close>

theorem event_type_catalog:
  assumes "parcel_laws P" and "\<not> starts_with (event_name_v T) event_kind_prefix"
    and "n \<in> {event_name_v T, kind_id T}" and "m \<notin> {event_name_v T, kind_id T}"
  shows "types_find P (types_add P T r) n = Some \<lparr>info_name = event_name_v T, info_kind_id = kind_id T,
      info_descriptor = descriptor_of P T\<rparr> \<and>
    types_schema P (types_add P T r) n = Inr (d_schema (descriptor_of P T)) \<and>
    types_find P (types_add P T r) m = types_find P r m \<and>
    (\<not> types_contains P r m \<longleftrightarrow> (\<exists>w. types_schema P r m = Inl (Exn UnknownEventTypeError w))) \<and>
    (\<forall>i. i \<in> set (types_all P r) \<longleftrightarrow> (\<exists>k. types_find P r k = Some i \<and> starts_with k event_kind_prefix))"
proof -
  have "d_kind (descriptor_of P T) = kind_id T" by (rule parcel_lawsD(4) [OF assms(1)])
  then have "info_of (descriptor_of P T) = \<lparr>info_name = event_name_v T, info_kind_id = kind_id T,
      info_descriptor = descriptor_of P T\<rparr>"
    by (simp add: info_of_def kind_id_def)
  moreover have "types_resolve P (types_add P T r) n = Some (descriptor_of P T)"
    using find_types_add [OF assms(1,2)] assms(3) by auto
  moreover have "types_resolve P (types_add P T r) m = types_resolve P r m"
    using assms(4) starts_with_split [of m event_kind_prefix]
    by (auto simp: types_resolve_def types_add_def parcel_lawsD [OF assms(1)] kind_id_def)
  moreover have "\<not> types_contains P r m \<longleftrightarrow> (\<exists>w. types_schema P r m = Inl (Exn UnknownEventTypeError w))"
    by (auto simp: types_contains_def types_schema_def split: option.splits)
  ultimately show ?thesis
    using types_all_find_aux [OF assms(1)] by (simp add: types_find_def types_schema_def)
qed

theorem event_type_catalog_witness:
  "types_find example_parcel (types_add example_parcel example_type []) ''order.created'' =
     Some \<lparr>info_name = ''order.created'', info_kind_id = ''conduit:event:order.created'',
       info_descriptor = example_descriptor example_type\<rparr> \<and>
   types_find example_parcel (types_add example_parcel example_type []) ''order.paid'' =
     types_find example_parcel [] ''order.paid''"
  using event_type_catalog [OF example_parcel_laws, of example_type "''order.created''" "''order.paid''" "[]"]
  by (simp add: example_type_def kind_id_def event_kind_prefix_def example_parcel_def)

text \<open>
  C19: registering types from any number of threads while others decode: at every moment the
  active version, and so every snapshot a decoder takes, is the initial registry extended by
  registrations the threads asked for; every kind known before stays known, and no other
  kind appears.
\<close>

theorem registry_snapshots_consistent:
  assumes "parcel_laws P" and "(registry_step P)\<^sup>*\<^sup>* \<lparr>shared = g, threads = map Idle ds\<rparr> s"
  shows "version_of P (registry_ptr g) (set ds) (registry_snapshot (shared s)) \<and>
    (\<forall>k. (registry_find P (registry_ptr g) k \<noteq> None \<longrightarrow> registry_find P (registry_snapshot (shared s)) k \<noteq> None) \<and>
      (\<forall>d. registry_find P (registry_snapshot (shared s)) k = Some d \<longrightarrow>
         registry_find P (registry_ptr g) k = Some d \<or> d \<in> set ds))"
proof -
  have "versions_ok P (registry_ptr g) ds s"
    by (rule versions_ok_reach [OF assms(2) versions_ok_initial])
  then obtain es where es: "set es \<subseteq> set ds"
      "registry_snapshot (shared s) = fold (register_kind P) es (registry_ptr g)"
    by (auto simp: versions_ok_def version_of_def registry_snapshot_def)
  let ?r = "fold (register_kind P) es (registry_ptr g)"
  have "version_of P (registry_ptr g) (set ds) ?r" using es(1) by (auto simp: version_of_def)
  moreover have "registry_find P (registry_ptr g) k \<noteq> None \<Longrightarrow> registry_find P ?r k \<noteq> None" for k
    using fold_register_find [OF assms(1)] by blast
  moreover have "registry_find P ?r k = Some d \<Longrightarrow> registry_find P (registry_ptr g) k = Some d \<or> d \<in> set ds" for k d
    using fold_register_origin [OF assms(1)] es(1) by blast
  ultimately show ?thesis unfolding es(2) by blast
qed

text \<open>
  C33: two threads that register different types can both finish with only one of the types
  registered: the version is copied before the lock is taken, so the second swap discards the
  first thread's registration.
\<close>

theorem registry_lost_update:
  assumes "parcel_laws P" and "d_kind d1 \<noteq> d_kind d2" and "registry_find P (registry_ptr g) (d_kind d1) = None"
  shows "\<exists>s. (registry_step P)\<^sup>*\<^sup>* \<lparr>shared = g, threads = map Idle [d1, d2]\<rparr> s \<and>
    list_all writer_finished (threads s) \<and> registry_find P (registry_snapshot (shared s)) (d_kind d1) = None"
proof -
  let ?r1 = "build_next P d1 (registry_ptr g)" and ?r2 = "build_next P d2 (registry_ptr g)"
  let ?s0 = "\<lparr>shared = g, threads = [Idle d1, Idle d2]\<rparr>"
  let ?s1 = "\<lparr>shared = g, threads = [Built d1 ?r1, Idle d2]\<rparr>"
  let ?s2 = "\<lparr>shared = g, threads = [Built d1 ?r1, Built d2 ?r2]\<rparr>"
  let ?s3 = "\<lparr>shared = swap_in ?r1 g, threads = [Finished d1, Built d2 ?r2]\<rparr>"
  let ?s4 = "\<lparr>shared = swap_in ?r2 (swap_in ?r1 g), threads = [Finished d1, Finished d2]\<rparr>"
  have "registry_step P ?s0 ?s1" using take_snapshot [of 0 ?s0 d1 P] by (simp add: registry_snapshot_def)
  moreover have "registry_step P ?s1 ?s2" using take_snapshot [of 1 ?s1 d2 P] by (simp add: registry_snapshot_def)
  moreover have "registry_step P ?s2 ?s3" using swap [of 0 ?s2 d1 ?r1 P] by simp
  moreover have "registry_step P ?s3 ?s4" using swap [of 1 ?s3 d2 ?r2 P] by simp
  ultimately have "(registry_step P)\<^sup>*\<^sup>* ?s0 ?s4" by (meson converse_rtranclp_into_rtranclp rtranclp.rtrancl_refl)
  then show ?thesis
    using assms(2,3) parcel_lawsD(1) [OF assms(1)]
    by (intro exI [of _ ?s4]) (simp add: registry_snapshot_def swap_in_def build_next_def)
qed

lemma item_type_kind [simp]: "d_kind (example_descriptor (item_type n)) = event_kind_prefix @ n"
  by (simp add: example_descriptor_def item_type_def kind_id_def)

theorem registry_lost_update_witness:
  "\<exists>s. (registry_step example_parcel)\<^sup>*\<^sup>*
      \<lparr>shared = EventRegistry_new example_parcel,
       threads = map Idle [example_descriptor (item_type ''a''), example_descriptor (item_type ''b'')]\<rparr> s \<and>
    list_all writer_finished (threads s) \<and>
    registry_find example_parcel (registry_snapshot (shared s)) ''conduit:event:a'' = None"
proof -
  have "registry_find example_parcel (registry_ptr (EventRegistry_new example_parcel))
      (d_kind (example_descriptor (item_type ''a''))) = None"
    by (simp add: EventRegistry_new_def example_parcel_def envelope_kind_id_def event_kind_prefix_def)
  from registry_lost_update [OF example_parcel_laws _ this, of "example_descriptor (item_type ''b'')"]
  show ?thesis by (simp add: event_kind_prefix_def)
qed

theorem registry_snapshots_consistent_witness:
  "\<exists>s. registry_step example_parcel \<lparr>shared = example_registry, threads = map Idle [example_descriptor (item_type ''a'')]\<rparr> s \<and>
    registry_find example_parcel (registry_snapshot (shared s)) ''conduit:event:order.created'' \<noteq> None"
proof -
  let ?s0 = "\<lparr>shared = example_registry, threads = map Idle [example_descriptor (item_type ''a'')]\<rparr>"
  obtain s where s: "registry_step example_parcel ?s0 s"
    using take_snapshot [of 0 ?s0 "example_descriptor (item_type ''a'')"] by auto
  have "registry_find example_parcel (registry_ptr example_registry) ''conduit:event:order.created'' \<noteq> None"
    using example_registry_kinds
    by (auto simp: example_parcel_def find_None_iff)
  then show ?thesis
    using registry_snapshots_consistent [OF example_parcel_laws r_into_rtranclp [of "registry_step example_parcel", OF s]] s
    by blast
qed

lemma find_inj: "inj_on f (set xs) \<Longrightarrow> find (\<lambda>x. f x = k) xs = Some x \<longleftrightarrow> x \<in> set xs \<and> f x = k"
  by (induction xs) (auto simp: inj_on_def)

lemma find_registered:
  assumes "parcel_laws P"
  shows "registry_find P (fold (EventTypeRegistrar P) Ts r) k =
    (case find (\<lambda>T. kind_id T = k) (rev Ts) of Some T \<Rightarrow> Some (descriptor_of P T) | None \<Rightarrow> registry_find P r k)"
  by (induction Ts arbitrary: r rule: rev_induct)
    (simp_all add: EventTypeRegistrar_def types_add_def parcel_lawsD [OF assms])

text \<open>
  The order in which static initialisation runs the registrars does not matter. When no two of the
  registered types share a name, the listing of the process-wide catalog holds exactly those types, with
  the name and kind each declares, and whatever else of the prefix the default registry had.
\<close>

theorem static_registration:
  assumes "parcel_laws P" and "inj_on kind_id (set Ts)"
  shows "set (registered_event_types P Ts) =
    (\<lambda>T. \<lparr>info_name = event_name_v T, info_kind_id = kind_id T, info_descriptor = descriptor_of P T\<rparr>) ` set Ts \<union>
    {i \<in> set (types_all P (default_registry P)). info_kind_id i \<notin> kind_id ` set Ts}"
proof -
  have kind: "d_kind (descriptor_of P T) = kind_id T" "starts_with (kind_id T) event_kind_prefix" for T
    by (simp_all add: parcel_lawsD(4) [OF assms(1)] kind_id_def)
  have listed: "i \<in> set (types_all P r) \<longleftrightarrow>
      (\<exists>d. i = info_of d \<and> starts_with (d_kind d) event_kind_prefix \<and> registry_find P r (d_kind d) = Some d)" for i r
    by (auto simp: types_all_def parcel_lawsD(3) [OF assms(1)])
  have found: "registry_find P (fold (EventTypeRegistrar P) Ts r) (d_kind d) = Some d \<longleftrightarrow>
      (\<exists>T \<in> set Ts. d = descriptor_of P T) \<or> d_kind d \<notin> kind_id ` set Ts \<and> registry_find P r (d_kind d) = Some d" for d r
  proof (cases "\<exists>T \<in> set Ts. kind_id T = d_kind d")
    case True
    then obtain T where T: "T \<in> set Ts" "kind_id T = d_kind d" by blast
    then have "find (\<lambda>T. kind_id T = d_kind d) (rev Ts) = Some T" using find_inj [of kind_id "rev Ts"] assms(2) by simp
    then have "registry_find P (fold (EventTypeRegistrar P) Ts r) (d_kind d) = Some (descriptor_of P T)"
      by (simp add: find_registered [OF assms(1)])
    moreover have "T' = T" if "T' \<in> set Ts" "d = descriptor_of P T'" for T'
      using that T kind(1) inj_onD [OF assms(2)] by metis
    ultimately show ?thesis using T by (metis imageI option.inject)
  next
    case False
    then have "find (\<lambda>T. kind_id T = d_kind d) (rev Ts) = None" by (auto simp: find_None_iff)
    then have "registry_find P (fold (EventTypeRegistrar P) Ts r) (d_kind d) = registry_find P r (d_kind d)"
      by (simp add: find_registered [OF assms(1)])
    then show ?thesis using False kind(1) by (metis (no_types, lifting) imageE)
  qed
  have info: "\<lparr>info_name = event_name_v T, info_kind_id = kind_id T, info_descriptor = descriptor_of P T\<rparr> = info_of (descriptor_of P T)" for T
    by (simp add: info_of_def kind(1)) (simp add: kind_id_def)
  have info_kind: "info_kind_id (info_of d) = d_kind d" for d by (simp add: info_of_def)
  show ?thesis
    unfolding registered_event_types_def global_event_types_def set_eq_iff Un_iff listed found info
    using kind by (auto simp: listed info_kind)
qed

theorem static_registration_witness:
  "set (registered_event_types example_parcel [item_type ''b'', item_type ''a'']) =
   set (registered_event_types example_parcel [item_type ''a'', item_type ''b''])"
proof -
  have i: "inj_on kind_id (set [item_type ''b'', item_type ''a''])" "inj_on kind_id (set [item_type ''a'', item_type ''b''])"
    by (simp_all add: inj_on_def kind_id_def item_type_def)
  show ?thesis
    unfolding static_registration [OF example_parcel_laws i(1)] static_registration [OF example_parcel_laws i(2)] by (simp add: insert_commute)
qed

end
