(* ===== verification/Glob.thy ===== *)
theory Glob
  imports Prelude
begin

text \<open>
  The event-name glob matcher of \<^verbatim>\<open>include/conduit/glob.hpp\<close>: the backtracking loop of
  \<^verbatim>\<open>detail::glob_match_impl\<close> with its five loop variables, the trailing-star loop, and the
  \<^verbatim>\<open>Glob\<close> class. The documented semantics is the inductive predicate \<open>globs\<close> over pattern
  tokens; the theorems relate the two.
\<close>

section \<open>The matcher\<close>

text \<open>
  The first loop. \<open>pi\<close>, \<open>ni\<close>, \<open>star_pi\<close>, \<open>star_ni\<close>, \<open>dd\<close> are the source's loop variables;
  \<open>star_pi = None\<close> is the sentinel \<^verbatim>\<open>k_no_star\<close> (the largest \<^verbatim>\<open>size_t\<close>, which is no index
  of a string). The result is \<open>None\<close> where the source returns false from the loop and
  \<open>Some pi\<close> where the loop ends.
\<close>

function glob_loop ::
  "string \<Rightarrow> string \<Rightarrow> nat \<Rightarrow> nat \<Rightarrow> nat option \<Rightarrow> nat \<Rightarrow> bool \<Rightarrow> nat option" where
  "glob_loop pattern name pi ni star_pi star_ni dd =
     (if ni < length name then
        if pi < length pattern \<and> pattern ! pi = CHR ''*'' then
          (let is_double = (pi + 1 < length pattern \<and> pattern ! (pi + 1) = CHR ''*'')
           in glob_loop pattern name (pi + (if is_double then 2 else 1)) ni (Some pi) ni is_double)
        else if pi < length pattern \<and> pattern ! pi = name ! ni then
          glob_loop pattern name (Suc pi) (Suc ni) star_pi star_ni dd
        else
          (case star_pi of
             None \<Rightarrow> None
           | Some sp \<Rightarrow>
               if \<not> dd \<and> name ! star_ni = CHR ''.'' then None
               else if \<not> dd \<and> Suc star_ni \<le> length name \<and> Suc star_ni > 0
                       \<and> name ! (Suc star_ni - 1) = CHR ''.'' then None
               else glob_loop pattern name (sp + (if dd then 2 else 1)) (Suc star_ni)
                      (Some sp) (Suc star_ni) dd)
      else Some pi)"
  by pat_completeness auto

text \<open>
  The loop ends: a new star lies further right in the pattern, a retry moves the start of
  the star's text right, and a literal match moves right in the pattern. The first two
  measures account for calls outside the loop's invariant.
\<close>

termination
  by (relation "measures
    [\<lambda>(p, n, pi, ni, sp, sn, dd). if ni < length n then 1 else 0,
     \<lambda>(p, n, pi, ni, sp, sn, dd). case sp of None \<Rightarrow> 0 | Some s \<Rightarrow> if pi \<le> s then 1 else 0,
     \<lambda>(p, n, pi, ni, sp, sn, dd). case sp of None \<Rightarrow> Suc (length p) | Some s \<Rightarrow> length p - s,
     \<lambda>(p, n, pi, ni, sp, sn, dd). length n - sn,
     \<lambda>(p, n, pi, ni, sp, sn, dd). length p - pi]")
     (auto split: option.splits)

declare glob_loop.simps [simp del]

text \<open>The same loop with a bound on the iterations; \<open>None\<close> when it is used up.\<close>

fun glob_bounded ::
  "nat \<Rightarrow> string \<Rightarrow> string \<Rightarrow> nat \<Rightarrow> nat \<Rightarrow> nat option \<Rightarrow> nat \<Rightarrow> bool \<Rightarrow> nat option option" where
  "glob_bounded 0 pattern name pi ni star_pi star_ni dd = None"
| "glob_bounded (Suc k) pattern name pi ni star_pi star_ni dd =
     (if ni < length name then
        if pi < length pattern \<and> pattern ! pi = CHR ''*'' then
          (let is_double = (pi + 1 < length pattern \<and> pattern ! (pi + 1) = CHR ''*'')
           in glob_bounded k pattern name (pi + (if is_double then 2 else 1)) ni (Some pi) ni is_double)
        else if pi < length pattern \<and> pattern ! pi = name ! ni then
          glob_bounded k pattern name (Suc pi) (Suc ni) star_pi star_ni dd
        else
          (case star_pi of
             None \<Rightarrow> Some None
           | Some sp \<Rightarrow>
               if \<not> dd \<and> name ! star_ni = CHR ''.'' then Some None
               else glob_bounded k pattern name (sp + (if dd then 2 else 1)) (Suc star_ni) (Some sp) (Suc star_ni) dd)
      else Some (Some pi))"

text \<open>The second loop: consume trailing stars of the pattern.\<close>

function glob_trail :: "string \<Rightarrow> nat \<Rightarrow> nat" where
  "glob_trail pattern pi =
     (if pi < length pattern \<and> pattern ! pi = CHR ''*'' then
        if pi + 1 < length pattern \<and> pattern ! (pi + 1) = CHR ''*''
        then glob_trail pattern (pi + 2)
        else glob_trail pattern (pi + 1)
      else pi)"
  by pat_completeness auto
termination
  by (relation "measure (\<lambda>(p, pi). length p - pi)") auto

declare glob_trail.simps [simp del]

definition glob_match_impl :: "string \<Rightarrow> string \<Rightarrow> bool" where
  "glob_match_impl pattern name =
     (case glob_loop pattern name 0 0 None 0 False of
        None \<Rightarrow> False
      | Some pi \<Rightarrow> glob_trail pattern pi = length pattern)"

text \<open>Class \<^verbatim>\<open>Glob\<close>: the pattern it owns, and its two ways to match.\<close>

record Glob =
  storage :: string

definition Glob_of :: "string \<Rightarrow> Glob" where
  "Glob_of pattern = \<lparr>storage = pattern\<rparr>"

definition glob_matches :: "Glob \<Rightarrow> string \<Rightarrow> bool" where
  "glob_matches g name = glob_match_impl (storage g) name"

definition glob_pattern :: "Glob \<Rightarrow> string" where
  "glob_pattern g = storage g"

definition glob_match :: "string \<Rightarrow> string \<Rightarrow> bool" where
  "glob_match pattern name = glob_match_impl pattern name"

section \<open>The documented semantics\<close>

text \<open>
  The file comment of \<^verbatim>\<open>glob.hpp\<close>: \<open>*\<close> matches any characters but a dot, \<open>**\<close> any
  characters, anything else itself. A pattern is read from the left, two stars as one token.
\<close>

datatype tok = Lit char | Star | DStar

fun toks :: "string \<Rightarrow> tok list" where
  "toks [] = []"
| "toks [c] = [if c = CHR ''*'' then Star else Lit c]"
| "toks (c # d # cs) =
     (if c = CHR ''*'' then
        if d = CHR ''*'' then DStar # toks cs else Star # toks (d # cs)
      else Lit c # toks (d # cs))"

inductive globs :: "tok list \<Rightarrow> string \<Rightarrow> bool" where
  nil: "globs [] []"
| lit: "globs ts v \<Longrightarrow> globs (Lit c # ts) (c # v)"
| star: "CHR ''.'' \<notin> set u \<Longrightarrow> globs ts v \<Longrightarrow> globs (Star # ts) (u @ v)"
| dstar: "globs ts v \<Longrightarrow> globs (DStar # ts) (u @ v)"

inductive_simps globs_Nil [simp]: "globs [] n"
inductive_simps globs_Lit: "globs (Lit c # ts) n"
inductive_simps globs_Star: "globs (Star # ts) n"
inductive_simps globs_DStar: "globs (DStar # ts) n"

text \<open>An executable form of the semantics, for evaluation on concrete names.\<close>

fun gmatch :: "tok list \<Rightarrow> string \<Rightarrow> bool" where
  "gmatch [] n = (n = [])"
| "gmatch (Lit c # ts) [] = False"
| "gmatch (Lit c # ts) (d # ds) = (c = d \<and> gmatch ts ds)"
| "gmatch (Star # ts) [] = gmatch ts []"
| "gmatch (Star # ts) (d # ds) = (gmatch ts (d # ds) \<or> d \<noteq> CHR ''.'' \<and> gmatch (Star # ts) ds)"
| "gmatch (DStar # ts) [] = gmatch ts []"
| "gmatch (DStar # ts) (d # ds) = (gmatch ts (d # ds) \<or> gmatch (DStar # ts) ds)"

text \<open>
  The patterns on which the matcher is exact: no single star after a double star.
\<close>

fun ordered_stars :: "tok list \<Rightarrow> bool" where
  "ordered_stars [] = True"
| "ordered_stars (DStar # ts) = (Star \<notin> set ts)"
| "ordered_stars (Star # ts) = ordered_stars ts"
| "ordered_stars (Lit c # ts) = ordered_stars ts"

section \<open>The loop invariant\<close>

text \<open>
  Vocabulary of the correctness proof: the token and width of a star, the text a star may
  cover, the matches a loop state still stands for, acceptance by the loop, and the
  invariant that ties the text read since the last star to the pattern.
\<close>

abbreviation star_width :: "bool \<Rightarrow> nat" where
  "star_width dd \<equiv> (if dd then 2 else 1)"

abbreviation star_tok :: "bool \<Rightarrow> tok" where
  "star_tok dd \<equiv> (if dd then DStar else Star)"

definition span_ok :: "bool \<Rightarrow> string \<Rightarrow> nat \<Rightarrow> nat \<Rightarrow> bool" where
  "span_ok dd n i k \<longleftrightarrow> dd \<or> (\<forall>j. i \<le> j \<and> j < k \<longrightarrow> n ! j \<noteq> CHR ''.'')"

definition config_matches :: "string \<Rightarrow> string \<Rightarrow> nat \<Rightarrow> nat \<Rightarrow> nat option \<Rightarrow> nat \<Rightarrow> bool \<Rightarrow> bool" where
  "config_matches p n pi ni sp sn dd \<longleftrightarrow>
     globs (toks (drop pi p)) (drop ni n) \<or>
     (\<exists>s k. sp = Some s \<and> sn < k \<and> k \<le> length n \<and> span_ok dd n sn k \<and>
        globs (toks (drop (s + star_width dd) p)) (drop k n))"

definition loop_accepts :: "string \<Rightarrow> string \<Rightarrow> nat \<Rightarrow> nat \<Rightarrow> nat option \<Rightarrow> nat \<Rightarrow> bool \<Rightarrow> bool" where
  "loop_accepts p n pi ni sp sn dd \<longleftrightarrow>
     (\<exists>pi'. glob_loop p n pi ni sp sn dd = Some pi' \<and> pi' \<le> length p \<and> globs (toks (drop pi' p)) [])"

definition loop_inv :: "string \<Rightarrow> string \<Rightarrow> nat \<Rightarrow> nat \<Rightarrow> nat option \<Rightarrow> nat \<Rightarrow> bool \<Rightarrow> bool" where
  "loop_inv p n pi ni sp sn dd \<longleftrightarrow>
     ni \<le> length n \<and> pi \<le> length p \<and> ordered_stars (toks (drop pi p)) \<and>
     (\<forall>s. sp = Some s \<longrightarrow>
        sn \<le> ni \<and> s + star_width dd \<le> length p \<and>
        toks (drop (s + star_width dd) p) = map Lit (take (ni - sn) (drop sn n)) @ toks (drop pi p) \<and>
        ordered_stars (toks (drop (s + star_width dd) p)) \<and>
        (dd \<longrightarrow> Star \<notin> set (toks (drop (s + star_width dd) p))))"

section \<open>Facts about tokens and the semantics\<close>

lemma globs_Star_Cons:
  "globs (Star # ts) (d # ds) \<longleftrightarrow> globs ts (d # ds) \<or> d \<noteq> CHR ''.'' \<and> globs (Star # ts) ds"
proof
  assume "globs (Star # ts) (d # ds)"
  then obtain u v where "d # ds = u @ v" "CHR ''.'' \<notin> set u" "globs ts v" by (auto simp: globs_Star)
  then show "globs ts (d # ds) \<or> d \<noteq> CHR ''.'' \<and> globs (Star # ts) ds"
    by (cases u) (auto intro: globs.star)
next
  assume "globs ts (d # ds) \<or> d \<noteq> CHR ''.'' \<and> globs (Star # ts) ds"
  then consider "globs ts ([] @ d # ds)" | u v where "ds = u @ v" "CHR ''.'' \<notin> set (d # u)" "globs ts v"
    by (auto simp: globs_Star)
  then show "globs (Star # ts) (d # ds)"
  proof cases
    case 1
    then show ?thesis using globs.star [of "[]" ts "d # ds"] by simp
  next
    case (2 u v)
    then show ?thesis using globs.star [of "d # u" ts v] by simp
  qed
qed

lemma globs_DStar_Cons: "globs (DStar # ts) (d # ds) \<longleftrightarrow> globs ts (d # ds) \<or> globs (DStar # ts) ds"
proof
  assume "globs (DStar # ts) (d # ds)"
  then obtain u v where "d # ds = u @ v" "globs ts v" by (auto simp: globs_DStar)
  then show "globs ts (d # ds) \<or> globs (DStar # ts) ds"
    by (cases u) (auto intro: globs.dstar)
next
  assume "globs ts (d # ds) \<or> globs (DStar # ts) ds"
  then consider "globs ts (d # ds)" | u v where "ds = u @ v" "globs ts v"
    by (auto simp: globs_DStar)
  then show "globs (DStar # ts) (d # ds)"
  proof cases
    case 1
    then show ?thesis using globs.dstar [of ts "d # ds" "[]"] by simp
  next
    case (2 u v)
    then show ?thesis using globs.dstar [of ts v "d # u"] by simp
  qed
qed

lemma globs_star_nil [simp]: "globs (Star # ts) [] = globs ts []" "globs (DStar # ts) [] = globs ts []"
  by (auto simp: globs_Star globs_DStar)

lemma gmatch_iff: "gmatch ts n \<longleftrightarrow> globs ts n"
  by (induction ts n rule: gmatch.induct) (auto simp: globs_Lit globs_Star_Cons globs_DStar_Cons)

lemma toks_drop_lit:
  assumes "i < length p" and "p ! i \<noteq> CHR ''*''"
  shows "toks (drop i p) = Lit (p ! i) # toks (drop (Suc i) p)"
  using assms by (cases "drop (Suc i) p") (simp_all add: drop_eq_Cons_nth)

lemma toks_drop_star:
  assumes "i < length p" and "p ! i = CHR ''*''" and "\<not> (i + 1 < length p \<and> p ! (i + 1) = CHR ''*'')"
  shows "toks (drop i p) = Star # toks (drop (i + 1) p)"
proof (cases "i + 1 < length p")
  case True
  then show ?thesis using assms by (simp add: drop_eq_Cons_nth)
next
  case False
  then have "drop i p = [CHR ''*'']" using assms by (simp add: drop_eq_Cons_nth)
  then show ?thesis using False by simp
qed

lemma toks_drop_dstar:
  assumes "i + 1 < length p" and "p ! i = CHR ''*''" and "p ! (i + 1) = CHR ''*''"
  shows "toks (drop i p) = DStar # toks (drop (i + 2) p)"
  using assms by (simp add: drop_eq_Cons_nth)

lemma glob_trail_iff: "pi \<le> length p \<Longrightarrow> glob_trail p pi = length p \<longleftrightarrow> globs (toks (drop pi p)) []"
proof (induction p pi rule: glob_trail.induct)
  case (1 p pi)
  show ?case
  proof (cases "pi < length p \<and> p ! pi = CHR ''*''")
    case star: True
    show ?thesis
    proof (cases "pi + 1 < length p \<and> p ! (pi + 1) = CHR ''*''")
      case True
      then show ?thesis using star 1
        by (simp add: glob_trail.simps [of p pi] toks_drop_dstar globs_DStar)
    next
      case False
      then have "toks (drop pi p) = Star # toks (drop (pi + 1) p)"
        using star by (intro toks_drop_star) auto
      moreover have "glob_trail p pi = glob_trail p (pi + 1)"
        using star False by (auto simp: glob_trail.simps [of p pi])
      ultimately show ?thesis using star False 1 by simp
    qed
  next
    case False
    then have "glob_trail p pi = pi" by (subst glob_trail.simps) auto
    with False show ?thesis using "1.prems"
      by (cases "pi < length p") (auto simp: toks_drop_lit globs_Lit)
  qed
qed

lemma toks_drop_any_star:
  assumes "i < length p" and "p ! i = CHR ''*''" and "dd = (i + 1 < length p \<and> p ! (i + 1) = CHR ''*'')"
  shows "toks (drop i p) = star_tok dd # toks (drop (i + star_width dd) p)"
  using assms toks_drop_star toks_drop_dstar by (cases dd) auto

lemma span_ok_refl [simp]: "span_ok dd n i i"
  by (auto simp: span_ok_def)

lemma span_ok_Suc: "i < k \<Longrightarrow> span_ok dd n i k \<longleftrightarrow> (dd \<or> n ! i \<noteq> CHR ''.'') \<and> span_ok dd n (Suc i) k"
  by (auto simp: span_ok_def) (metis Suc_leI le_neq_implies_less)

lemma globs_star_tok:
  assumes "i \<le> length n"
  shows "globs (star_tok dd # ts) (drop i n) \<longleftrightarrow>
    (\<exists>k. i \<le> k \<and> k \<le> length n \<and> span_ok dd n i k \<and> globs ts (drop k n))"
proof -
  have split: "(\<exists>u v. drop i n = u @ v \<and> (dd \<or> CHR ''.'' \<notin> set u) \<and> globs ts v) \<longleftrightarrow>
    (\<exists>k. i \<le> k \<and> k \<le> length n \<and> span_ok dd n i k \<and> globs ts (drop k n))" (is "?L \<longleftrightarrow> ?R")
  proof
    assume ?L
    then obtain u v where uv: "drop i n = u @ v" "dd \<or> CHR ''.'' \<notin> set u" "globs ts v" by auto
    let ?k = "i + length u"
    have "length u \<le> length n - i" using arg_cong [OF uv(1), of length] by simp
    then have "?k \<le> length n" using assms by simp
    moreover have "drop ?k n = v" using uv(1) by (metis append_eq_conv_conj drop_drop add.commute)
    moreover have "span_ok dd n i ?k"
    proof (cases dd)
      case False
      have "n ! j \<in> set u" if "i \<le> j" "j < ?k" for j
      proof -
        have "n ! j = drop i n ! (j - i)" using that assms by simp
        also have "\<dots> = u ! (j - i)" using that uv(1) by (simp add: nth_append less_diff_conv2)
        finally show ?thesis using that by simp
      qed
      then show ?thesis using uv(2) False by (fastforce simp: span_ok_def)
    qed (simp add: span_ok_def)
    ultimately show ?R using uv(3) by (intro exI [of _ ?k]) auto
  next
    assume ?R
    then obtain k where k: "i \<le> k" "k \<le> length n" "span_ok dd n i k" "globs ts (drop k n)" by auto
    have "drop i n = take (k - i) (drop i n) @ drop k n" using k(1)
      by (metis append_take_drop_id drop_drop le_add_diff_inverse2)
    moreover have "dd \<or> CHR ''.'' \<notin> set (take (k - i) (drop i n))"
      using k assms by (auto simp: span_ok_def in_set_conv_nth)
    ultimately show ?L using k(4) by metis
  qed
  show ?thesis
    unfolding split [symmetric] by (cases dd) (auto simp: globs_Star globs_DStar)
qed

lemma globs_map_Lit: "globs (map Lit L @ ts) m \<longleftrightarrow> (\<exists>m'. m = L @ m' \<and> globs ts m')"
  by (induction L arbitrary: m) (auto simp: globs_Lit)

lemma loop_end: "\<not> ni < length n \<Longrightarrow> glob_loop p n pi ni sp sn dd = Some pi"
  by (simp add: glob_loop.simps)

lemma loop_star:
  assumes "ni < length n" "pi < length p" "p ! pi = CHR ''*''"
    and "dd' = (pi + 1 < length p \<and> p ! (pi + 1) = CHR ''*'')"
  shows "glob_loop p n pi ni sp sn dd = glob_loop p n (pi + star_width dd') ni (Some pi) ni dd'"
  using assms by (subst glob_loop.simps) (simp add: Let_def)

lemma loop_lit:
  assumes "ni < length n" "pi < length p" "p ! pi \<noteq> CHR ''*''" "p ! pi = n ! ni"
  shows "glob_loop p n pi ni sp sn dd = glob_loop p n (Suc pi) (Suc ni) sp sn dd"
  using assms by (subst glob_loop.simps) simp

lemma loop_back:
  assumes "ni < length n" "\<not> (pi < length p \<and> (p ! pi = CHR ''*'' \<or> p ! pi = n ! ni))"
  shows "glob_loop p n pi ni (Some s) sn dd =
    (if \<not> dd \<and> n ! sn = CHR ''.'' then None
     else glob_loop p n (s + star_width dd) (Suc sn) (Some s) (Suc sn) dd)"
  using assms by (subst glob_loop.simps) auto

lemma loop_fail:
  assumes "ni < length n" "\<not> (pi < length p \<and> (p ! pi = CHR ''*'' \<or> p ! pi = n ! ni))"
  shows "glob_loop p n pi ni None sn dd = None"
  using assms by (subst glob_loop.simps) auto

lemmas loop_steps = loop_end loop_star loop_lit loop_back loop_fail

lemma no_match_here:
  assumes "ni < length n" "\<not> (pi < length p \<and> (p ! pi = CHR ''*'' \<or> p ! pi = n ! ni))"
  shows "\<not> globs (toks (drop pi p)) (drop ni n)"
  using assms
  by (cases "pi < length p") (auto simp: toks_drop_lit globs_Lit drop_eq_Cons_nth [of ni n])

lemma config_star:
  assumes "ni < length n" "pi < length p" "p ! pi = CHR ''*''"
    and dd': "dd' = (pi + 1 < length p \<and> p ! (pi + 1) = CHR ''*'')"
  shows "config_matches p n (pi + star_width dd') ni (Some pi) ni dd' \<longleftrightarrow>
    globs (toks (drop pi p)) (drop ni n)"
proof -
  have "toks (drop pi p) = star_tok dd' # toks (drop (pi + star_width dd') p)"
    using assms by (intro toks_drop_any_star)
  then have "globs (toks (drop pi p)) (drop ni n) \<longleftrightarrow>
    (\<exists>k. ni \<le> k \<and> k \<le> length n \<and> span_ok dd' n ni k \<and> globs (toks (drop (pi + star_width dd') p)) (drop k n))"
    using assms(1) globs_star_tok by simp
  then show ?thesis using assms(1)
    by (auto simp: config_matches_def le_less simp del: split_paired_Ex)
qed

lemma config_lit:
  assumes "ni < length n" "pi < length p" "p ! pi \<noteq> CHR ''*''" "p ! pi = n ! ni"
  shows "config_matches p n (Suc pi) (Suc ni) sp sn dd \<longleftrightarrow> config_matches p n pi ni sp sn dd"
  using assms by (simp add: config_matches_def toks_drop_lit drop_eq_Cons_nth [of ni n] globs_Lit)

lemma config_back:
  assumes "ni < length n" "\<not> (pi < length p \<and> (p ! pi = CHR ''*'' \<or> p ! pi = n ! ni))" and "sn \<le> ni"
  shows "config_matches p n pi ni (Some s) sn dd \<longleftrightarrow>
    (dd \<or> n ! sn \<noteq> CHR ''.'') \<and> config_matches p n (s + star_width dd) (Suc sn) (Some s) (Suc sn) dd"
proof -
  have "config_matches p n pi ni (Some s) sn dd \<longleftrightarrow> (\<exists>k. sn < k \<and> k \<le> length n \<and> span_ok dd n sn k \<and>
        globs (toks (drop (s + star_width dd) p)) (drop k n))"
    using no_match_here [OF assms(1,2)] by (simp add: config_matches_def)
  also have "\<dots> \<longleftrightarrow> (dd \<or> n ! sn \<noteq> CHR ''.'') \<and> (\<exists>k. Suc sn \<le> k \<and> k \<le> length n \<and> span_ok dd n (Suc sn) k \<and>
        globs (toks (drop (s + star_width dd) p)) (drop k n))"
    using span_ok_Suc by (auto simp: Suc_le_eq)
  also have "\<dots> \<longleftrightarrow> (dd \<or> n ! sn \<noteq> CHR ''.'') \<and> config_matches p n (s + star_width dd) (Suc sn) (Some s) (Suc sn) dd"
    using assms(1,3) by (auto simp: config_matches_def le_less)
  finally show ?thesis .
qed

lemma glob_loop_sound:
  "loop_accepts p n pi ni sp sn dd \<Longrightarrow> ni \<le> length n \<Longrightarrow> (sp \<noteq> None \<longrightarrow> sn \<le> ni) \<Longrightarrow>
   config_matches p n pi ni sp sn dd"
proof (induction p n pi ni sp sn dd rule: glob_loop.induct)
  case (1 p n pi ni sp sn dd)
  let ?dd = "pi + 1 < length p \<and> p ! (pi + 1) = CHR ''*''"
  show ?case
  proof (cases "ni < length n")
    case False
    then show ?thesis using "1.prems" by (simp add: loop_accepts_def loop_end config_matches_def)
  next
    case ni: True
    consider (wild) "pi < length p" "p ! pi = CHR ''*''"
      | (same) "pi < length p" "p ! pi \<noteq> CHR ''*''" "p ! pi = n ! ni"
      | (differ) "\<not> (pi < length p \<and> (p ! pi = CHR ''*'' \<or> p ! pi = n ! ni))" by blast
    then show ?thesis
    proof cases
      case wild
      have "config_matches p n (pi + star_width ?dd) ni (Some pi) ni ?dd"
        using "1.IH"(1) [OF ni] wild "1.prems" loop_star [OF ni wild refl] by (simp add: loop_accepts_def)
      then have "globs (toks (drop pi p)) (drop ni n)" using config_star [OF ni wild refl] by simp
      then show ?thesis by (simp add: config_matches_def)
    next
      case same
      then show ?thesis using "1.IH"(2) [OF ni] "1.prems" ni loop_lit [OF ni same] config_lit [OF ni same]
        by (auto simp: loop_accepts_def)
    next
      case differ
      show ?thesis
      proof (cases sp)
        case None
        then show ?thesis using "1.prems" loop_fail [OF ni differ] by (simp add: loop_accepts_def)
      next
        case (Some s)
        then show ?thesis using "1.IH"(3) [OF ni _ _ Some] "1.prems" ni differ loop_back [OF ni differ]
          config_back [OF ni differ] by (auto simp: loop_accepts_def split: if_splits)
      qed
    qed
  qed
qed


lemma ordered_stars_no_Star: "Star \<notin> set ts \<Longrightarrow> ordered_stars ts"
  by (induction ts rule: ordered_stars.induct) auto

text \<open>
  The combinatorial core: if a literal chunk occurs at \<open>sn\<close> and again at \<open>k\<close>, and no dot
  lies between the two starts, then no dot lies up to the end of the second occurrence.
\<close>

lemma repeated_chunk_dot_free:
  assumes gap: "\<And>j. sn \<le> j \<Longrightarrow> j < k \<Longrightarrow> n ! j \<noteq> CHR ''.''"
    and same: "\<And>x. x < l \<Longrightarrow> n ! (k + x) = n ! (sn + x)" and "sn < k"
  shows "sn \<le> j \<Longrightarrow> j < k + l \<Longrightarrow> n ! j \<noteq> CHR ''.''"
proof (induction j rule: less_induct)
  case (less j)
  show ?case
  proof (cases "j < k")
    case True
    then show ?thesis using gap less.prems by simp
  next
    case False
    then have "n ! j = n ! (sn + (j - k))" using same [of "j - k"] less.prems by simp
    moreover have "sn + (j - k) < j" using False assms(3) by simp
    ultimately show ?thesis using less.IH less.prems by simp
  qed
qed

lemma later_star_subsumes:
  assumes "sn \<le> ni" "ni \<le> length n" "sn < k" "k \<le> length n" "span_ok dd n sn k"
    and m: "globs (map Lit (take (ni - sn) (drop sn n)) @ star_tok dd' # ts) (drop k n)"
    and mono: "dd \<longrightarrow> dd'"
  shows "globs (star_tok dd' # ts) (drop ni n)"
proof -
  let ?L = "take (ni - sn) (drop sn n)"
  let ?l = "ni - sn"
  have len: "length ?L = ?l" using assms(1,2) by simp
  obtain m' where m': "drop k n = ?L @ m'" "globs (star_tok dd' # ts) m'"
    using m by (auto simp: globs_map_Lit)
  have kl: "k + ?l \<le> length n" using arg_cong [OF m'(1), of length] len assms(4) by simp
  have dm: "m' = drop (k + ?l) n"
    using m'(1) len by (metis add.commute append_eq_conv_conj drop_drop)
  have same: "n ! (k + x) = n ! (sn + x)" if "x < ?l" for x
  proof -
    have "n ! (k + x) = drop k n ! x" using assms(4) by simp
    also have "\<dots> = ?L ! x" using m'(1) len that by (simp add: nth_append)
    also have "\<dots> = n ! (sn + x)" using that assms(1,2) by simp
    finally show ?thesis .
  qed
  obtain k' where k': "k + ?l \<le> k'" "k' \<le> length n" "span_ok dd' n (k + ?l) k'" "globs ts (drop k' n)"
    using m'(2) globs_star_tok [OF kl, of dd' ts] unfolding dm by blast
  have "span_ok dd' n ni k'"
  proof (cases dd')
    case False
    then have "\<not> dd" using mono by simp
    then have gap: "n ! j \<noteq> CHR ''.''" if "sn \<le> j" "j < k" for j
      using assms(5) that by (simp add: span_ok_def)
    have "n ! j \<noteq> CHR ''.''" if "ni \<le> j" "j < k'" for j
    proof (cases "j < k + ?l")
      case True
      then show ?thesis
        using repeated_chunk_dot_free [where l = ?l and j = j, OF gap same assms(3)] True that assms(1) by simp
    next
      case False
      then show ?thesis using k'(3) that \<open>\<not> dd'\<close> by (simp add: span_ok_def)
    qed
    then show ?thesis by (simp add: span_ok_def)
  qed (simp add: span_ok_def)
  then show ?thesis
    using globs_star_tok [OF assms(2), of dd' ts] k' assms(1,3) by (metis add_leE le_trans nat_le_linear diff_is_0_eq le_add_diff_inverse add_le_mono1 less_imp_le)
qed


lemma inv_star:
  assumes "ni < length n" "pi < length p" "p ! pi = CHR ''*''"
    and dd': "dd' = (pi + 1 < length p \<and> p ! (pi + 1) = CHR ''*'')"
    and "loop_inv p n pi ni sp sn dd"
  shows "loop_inv p n (pi + star_width dd') ni (Some pi) ni dd'"
proof -
  have "toks (drop pi p) = star_tok dd' # toks (drop (pi + star_width dd') p)"
    using assms by (intro toks_drop_any_star)
  then show ?thesis using assms
    by (cases dd') (auto simp: loop_inv_def ordered_stars_no_Star)
qed

lemma inv_lit:
  assumes "ni < length n" "pi < length p" "p ! pi \<noteq> CHR ''*''" "p ! pi = n ! ni"
    and "loop_inv p n pi ni sp sn dd"
  shows "loop_inv p n (Suc pi) (Suc ni) sp sn dd"
proof -
  have t: "toks (drop pi p) = Lit (n ! ni) # toks (drop (Suc pi) p)" using toks_drop_lit assms by metis
  have "map Lit (take (ni - sn) (drop sn n)) @ Lit (n ! ni) # ts = map Lit (take (Suc ni - sn) (drop sn n)) @ ts"
    if "sn \<le> ni" for ts
    using that assms(1) by (simp add: Suc_diff_le take_Suc_conv_app_nth)
  then show ?thesis using assms t by (auto simp: loop_inv_def)
qed

lemma inv_back:
  assumes "ni < length n" "sn \<le> ni" "loop_inv p n pi ni (Some s) sn dd"
  shows "loop_inv p n (s + star_width dd) (Suc sn) (Some s) (Suc sn) dd"
  using assms by (auto simp: loop_inv_def)

lemma config_narrow:
  assumes "ni < length n" "pi < length p" "p ! pi = CHR ''*''"
    and inv: "loop_inv p n pi ni sp sn dd" and c: "config_matches p n pi ni sp sn dd"
  shows "globs (toks (drop pi p)) (drop ni n)"
proof (rule ccontr)
  assume no: "\<not> ?thesis"
  let ?dd = "pi + 1 < length p \<and> p ! (pi + 1) = CHR ''*''"
  obtain s k where k: "sp = Some s" "sn < k" "k \<le> length n" "span_ok dd n sn k"
      "globs (toks (drop (s + star_width dd) p)) (drop k n)"
    using c no by (auto simp: config_matches_def)
  have t: "toks (drop pi p) = star_tok ?dd # toks (drop (pi + star_width ?dd) p)"
    using assms by (intro toks_drop_any_star) auto
  have "toks (drop (s + star_width dd) p) = map Lit (take (ni - sn) (drop sn n)) @ toks (drop pi p)"
    and "sn \<le> ni" and "dd \<longrightarrow> Star \<notin> set (toks (drop (s + star_width dd) p))"
    using inv k(1) by (auto simp: loop_inv_def)
  then have "globs (star_tok ?dd # toks (drop (pi + star_width ?dd) p)) (drop ni n)"
    using k assms(1) t by (intro later_star_subsumes [of sn ni n k dd]) (auto split: if_splits)
  then show False using no t by simp
qed

lemma glob_loop_complete:
  "config_matches p n pi ni sp sn dd \<Longrightarrow> loop_inv p n pi ni sp sn dd \<Longrightarrow> loop_accepts p n pi ni sp sn dd"
proof (induction p n pi ni sp sn dd rule: glob_loop.induct)
  case (1 p n pi ni sp sn dd)
  let ?dd = "pi + 1 < length p \<and> p ! (pi + 1) = CHR ''*''"
  show ?case
  proof (cases "ni < length n")
    case False
    have "\<not> globs (map Lit (take (ni - sn) (drop sn n)) @ ts) (drop k n)" if "sn \<le> ni" "sn < k" "k \<le> length n" for k ts
      using that False "1.prems"(2) by (auto simp: globs_map_Lit loop_inv_def dest: arg_cong [of _ _ length])
    then have "globs (toks (drop pi p)) (drop ni n)"
      using "1.prems" by (auto simp: config_matches_def loop_inv_def)
    then show ?thesis using False "1.prems"(2) by (simp add: loop_accepts_def loop_end loop_inv_def)
  next
    case ni: True
    consider (wild) "pi < length p" "p ! pi = CHR ''*''"
      | (same) "pi < length p" "p ! pi \<noteq> CHR ''*''" "p ! pi = n ! ni"
      | (differ) "\<not> (pi < length p \<and> (p ! pi = CHR ''*'' \<or> p ! pi = n ! ni))" by blast
    then show ?thesis
    proof cases
      case wild
      have "config_matches p n (pi + star_width ?dd) ni (Some pi) ni ?dd"
        using config_star [OF ni wild refl] config_narrow [OF ni wild] "1.prems" by blast
      then show ?thesis
        using "1.IH"(1) [OF ni] wild inv_star [OF ni wild refl "1.prems"(2)] loop_star [OF ni wild refl]
        by (simp add: loop_accepts_def)
    next
      case same
      then show ?thesis
        using "1.IH"(2) [OF ni] "1.prems" inv_lit [OF ni same "1.prems"(2)] loop_lit [OF ni same] config_lit [OF ni same]
        by (auto simp: loop_accepts_def)
    next
      case differ
      then obtain s where s: "sp = Some s" "sn \<le> ni"
        using "1.prems" no_match_here [OF ni differ] by (auto simp: config_matches_def loop_inv_def)
      then show ?thesis
        using "1.IH"(3) [OF ni _ _ s(1)] "1.prems" differ inv_back [OF ni s(2)] loop_back [OF ni differ]
          config_back [OF ni differ s(2)] by (auto simp: loop_accepts_def)
    qed
  qed
qed

lemma glob_loop_bound:
  "glob_loop p n pi ni sp sn dd = Some pi' \<Longrightarrow> pi \<le> length p \<Longrightarrow>
   (\<forall>s. sp = Some s \<longrightarrow> s + star_width dd \<le> length p) \<Longrightarrow> pi' \<le> length p"
proof (induction p n pi ni sp sn dd rule: glob_loop.induct)
  case (1 p n pi ni sp sn dd)
  let ?dd = "pi + 1 < length p \<and> p ! (pi + 1) = CHR ''*''"
  show ?case
  proof (cases "ni < length n")
    case False
    then show ?thesis using "1.prems" by (simp add: loop_end)
  next
    case ni: True
    consider (wild) "pi < length p" "p ! pi = CHR ''*''"
      | (same) "pi < length p" "p ! pi \<noteq> CHR ''*''" "p ! pi = n ! ni"
      | (differ) "\<not> (pi < length p \<and> (p ! pi = CHR ''*'' \<or> p ! pi = n ! ni))" by blast
    then show ?thesis
    proof cases
      case wild
      then show ?thesis using "1.IH"(1) [OF ni] "1.prems"(1) loop_star [OF ni wild refl] by auto
    next
      case same
      then show ?thesis using "1.IH"(2) [OF ni] "1.prems" loop_lit [OF ni same] by auto
    next
      case differ
      then obtain s where s: "sp = Some s" using "1.prems"(1) loop_fail [OF ni differ] by (cases sp) auto
      then show ?thesis
        using "1.IH"(3) [OF ni _ _ s] "1.prems" differ loop_back [OF ni differ]
        by (auto split: if_splits)
    qed
  qed
qed

lemma glob_match_accepts: "glob_match p n \<longleftrightarrow> loop_accepts p n 0 0 None 0 False"
  using glob_loop_bound [of p n 0 0 None 0 False]
  by (auto simp: glob_match_def glob_match_impl_def loop_accepts_def glob_trail_iff split: option.splits)

lemma glob_match_sound_aux: "glob_match p n \<Longrightarrow> globs (toks p) n"
  using glob_loop_sound [of p n 0 0 None 0 False] by (simp add: glob_match_accepts config_matches_def)

lemma glob_match_exact_aux: "ordered_stars (toks p) \<Longrightarrow> glob_match p n \<longleftrightarrow> globs (toks p) n"
  using glob_loop_complete [of p n 0 0 None 0 False] glob_match_sound_aux [of p n]
  by (auto simp: glob_match_accepts config_matches_def loop_inv_def)

lemma toks_literal: "CHR ''*'' \<notin> set p \<Longrightarrow> toks (p @ q) = map Lit p @ toks q"
proof (induction p)
  case (Cons c p)
  then show ?case by (cases "p @ q") auto
qed simp

lemma ordered_stars_map_Lit [simp]: "ordered_stars (map Lit p @ ts) = ordered_stars ts"
  by (induction p) auto

lemma glob_match_all: "glob_match ''**'' n"
  using glob_match_exact_aux [of "''**''" n] by (simp add: globs_DStar)

lemma glob_bounded_enough:
  assumes "star_ni \<le> ni" and "(length name - star_ni) * (length pattern + 1) + (length pattern - pi) < k"
  shows "glob_bounded k pattern name pi ni star_pi star_ni dd = Some (glob_loop pattern name pi ni star_pi star_ni dd)"
  using assms
proof (induction k arbitrary: pi ni star_pi star_ni dd)
  case (Suc k)
  let ?P = "length pattern" and ?N = "length name"
  show ?case
  proof (cases "ni < ?N")
    case ni: True
    have retry: "(?N - Suc star_ni) * (?P + 1) + (?P - q) < k" for q
    proof -
      have "?N - star_ni = Suc (?N - Suc star_ni)" using ni Suc.prems(1) by simp
      then have "(?N - star_ni) * (?P + 1) = (?P + 1) + (?N - Suc star_ni) * (?P + 1)" by simp
      then show ?thesis using Suc.prems(2) by linarith
    qed
    have new: "(?N - ni) * (?P + 1) \<le> (?N - star_ni) * (?P + 1)"
      using Suc.prems(1) by (intro mult_le_mono1) simp
    have star: "glob_bounded k pattern name q ni (Some pi) ni b = Some (glob_loop pattern name q ni (Some pi) ni b)"
      if "pi < q" "pi < ?P" for q b
    proof (rule Suc.IH)
      have "?P - q < ?P - pi" using that by simp
      then show "(?N - ni) * (?P + 1) + (?P - q) < k" using new Suc.prems(2) by linarith
    qed simp
    have lit: "glob_bounded k pattern name (Suc pi) (Suc ni) star_pi star_ni dd =
        Some (glob_loop pattern name (Suc pi) (Suc ni) star_pi star_ni dd)" if "pi < ?P"
      using that Suc.prems by (intro Suc.IH) auto
    have again: "glob_bounded k pattern name q (Suc star_ni) sp (Suc star_ni) b =
        Some (glob_loop pattern name q (Suc star_ni) sp (Suc star_ni) b)" for q sp b
      using retry by (intro Suc.IH) auto
    show ?thesis
      using ni by (simp add: glob_loop.simps [of pattern name pi ni] star lit again Let_def split: option.splits)
  qed (simp add: glob_loop.simps [of pattern name pi ni])
qed simp

section \<open>Properties\<close>

text \<open>
  Soundness of the matcher. Whatever \<^verbatim>\<open>Glob::match\<close> accepts is a match of the
  documented semantics: \<open>*\<close> never swallows a dot, every other character matches itself.
\<close>

theorem glob_match_sound: "glob_match pattern name \<Longrightarrow> globs (toks pattern) name"
  by (rule glob_match_sound_aux)

theorem glob_match_sound_witness:
  "glob_match ''order.*.status'' ''order.payment.status'' \<and>
   globs (toks ''order.*.status'') ''order.payment.status''"
proof -
  have h: "glob_match ''order.*.status'' ''order.payment.status''"
    by (simp add: glob_match_def glob_match_impl_def glob_loop.simps glob_trail.simps)
  show ?thesis using h glob_match_sound [OF h] by simp
qed

text \<open>
  C4: the greedy matcher, which only remembers the last star, decides the documented
  semantics exactly for every pattern in which no single star follows a double star.
\<close>

theorem glob_match_exact:
  "ordered_stars (toks pattern) \<Longrightarrow> glob_match pattern name \<longleftrightarrow> globs (toks pattern) name"
  by (rule glob_match_exact_aux)

theorem glob_match_exact_witness:
  "ordered_stars (toks ''*.a*.**'') \<and>
   (glob_match ''*.a*.**'' ''x.ab.c.d'' \<longleftrightarrow> globs (toks ''*.a*.**'') ''x.ab.c.d'') \<and>
   glob_match ''*.a*.**'' ''x.ab.c.d''"
proof -
  have h: "ordered_stars (toks ''*.a*.**'')" by simp
  have m: "gmatch (toks ''*.a*.**'') ''x.ab.c.d''" by simp
  show ?thesis using h m glob_match_exact [OF h, of "''x.ab.c.d''"] by (simp add: gmatch_iff)
qed


text \<open>
  The three shapes of listener patterns the documentation uses. A pattern without a
  star matches exactly itself, a pattern with a final \<open>*\<close> matches the literal part and
  then characters other than a dot (one segment), and a final \<open>**\<close> matches every
  continuation.
\<close>

theorem glob_match_shapes:
  assumes "CHR ''*'' \<notin> set p"
  shows "(glob_match p name \<longleftrightarrow> p = name) \<and>
    (glob_match (p @ ''*'') name \<longleftrightarrow> (\<exists>seg. name = p @ seg \<and> CHR ''.'' \<notin> set seg)) \<and>
    (glob_match (p @ ''**'') name \<longleftrightarrow> starts_with name p)"
proof (intro conjI)
  have "toks p = map Lit p" using toks_literal [OF assms, of "[]"] by simp
  then show "glob_match p name \<longleftrightarrow> p = name"
    using glob_match_exact_aux [of p name] ordered_stars_map_Lit [of p "[]"] globs_map_Lit [of p "[]" name]
    by auto
  show "glob_match (p @ ''*'') name \<longleftrightarrow> (\<exists>seg. name = p @ seg \<and> CHR ''.'' \<notin> set seg)"
    using glob_match_exact_aux [of "p @ ''*''" name] toks_literal [OF assms, of "''*''"]
    by (auto simp: globs_map_Lit globs_Star)
  show "glob_match (p @ ''**'') name \<longleftrightarrow> starts_with name p"
    using glob_match_exact_aux [of "p @ ''**''" name] toks_literal [OF assms, of "''**''"]
    by (auto simp: globs_map_Lit globs_DStar starts_with_iff)
qed

theorem glob_match_shapes_witness:
  "CHR ''*'' \<notin> set ''order.'' \<and> glob_match (''order.'' @ ''*'') ''order.created'' \<and>
   \<not> glob_match (''order.'' @ ''*'') ''order.line.added'' \<and>
   glob_match (''order.'' @ ''**'') ''order.line.added''"
proof -
  have h: "CHR ''*'' \<notin> set ''order.''" by simp
  show ?thesis using h glob_match_shapes [OF h] by auto
qed

text \<open>
  C35: the matcher terminates quickly on every input: its main loop, which backtracks, makes at most
  \<open>(|name| + 1) * (|pattern| + 1)\<close> iterations, whatever the stars in the pattern.
\<close>

theorem glob_match_quadratic:
  "glob_bounded ((length name + 1) * (length pattern + 1)) pattern name 0 0 None 0 False =
     Some (glob_loop pattern name 0 0 None 0 False)"
  by (rule glob_bounded_enough) simp_all

end
