(* ===== verification/Listener.thy ===== *)
theory Listener
  imports Prelude "HOL-Library.Word"
begin

text \<open>
  \<^verbatim>\<open>include/conduit/listener.hpp\<close>: the RAII subscription handle and the subscriber's
  vector of handles. The interface \<^verbatim>\<open>detail::SubscriptionBackref\<close> through which a handle
  unregisters its listener is the locale \<open>subscription_backref\<close>; the bus interprets it.
\<close>

type_synonym SubscriptionId = "64 word"

text \<open>\<open>backref\<close> says whether the handle's \<^verbatim>\<open>shared_ptr\<close> to its bus is set.\<close>

record Subscription =
  backref :: bool
  sub_id :: SubscriptionId
  active :: bool

definition subscription_default :: Subscription where
  "subscription_default = \<lparr>backref = False, sub_id = 0, active = False\<rparr>"

definition subscription_new :: "SubscriptionId \<Rightarrow> Subscription" where
  "subscription_new i = \<lparr>backref = True, sub_id = i, active = True\<rparr>"

text \<open>
  The move constructor: the new handle, and what is left of the old one (a moved-from
  \<^verbatim>\<open>shared_ptr\<close> is empty, the id stays).
\<close>

definition move_construct :: "Subscription \<Rightarrow> Subscription \<times> Subscription" where
  "move_construct other =
     (\<lparr>backref = backref other, sub_id = sub_id other, active = active other\<rparr>,
      other\<lparr>backref := False, active := False\<rparr>)"

text \<open>\<open>rel\<close> is \<^verbatim>\<open>SubscriptionBackref::release\<close> on the state \<open>'s\<close> of the bus.\<close>

definition subscription_release ::
  "(SubscriptionId \<Rightarrow> 's \<Rightarrow> 's) \<Rightarrow> Subscription \<Rightarrow> 's \<Rightarrow> Subscription \<times> 's" where
  "subscription_release rel h s =
     (let s' = (if active h \<and> backref h then rel (sub_id h) s else s)
      in (h\<lparr>active := False, backref := False\<rparr>, s'))"

definition subscription_detach :: "Subscription \<Rightarrow> Subscription" where
  "subscription_detach h = h\<lparr>active := False, backref := False\<rparr>"

text \<open>Move assignment between two distinct handles: the target, the source, the bus.\<close>

definition move_assign ::
  "(SubscriptionId \<Rightarrow> 's \<Rightarrow> 's) \<Rightarrow> Subscription \<Rightarrow> Subscription \<Rightarrow> 's \<Rightarrow> Subscription \<times> Subscription \<times> 's" where
  "move_assign rel this other s =
     (let (_, s') = subscription_release rel this s
      in (\<lparr>backref = backref other, sub_id = sub_id other, active = active other\<rparr>,
          other\<lparr>backref := False, active := False\<rparr>, s'))"

definition subscription_destroy :: "(SubscriptionId \<Rightarrow> 's \<Rightarrow> 's) \<Rightarrow> Subscription \<Rightarrow> 's \<Rightarrow> 's" where
  "subscription_destroy rel h s = snd (subscription_release rel h s)"

text \<open>
  \<^verbatim>\<open>EventSubscriber\<close>: its own priority and the subscriptions it owns; destroying it
  destroys every handle in the vector.
\<close>

record EventSubscriber =
  subscriber_priority :: int
  subscriptions :: "Subscription list"

definition subscriber_destroy ::
  "(SubscriptionId \<Rightarrow> 's \<Rightarrow> 's) \<Rightarrow> EventSubscriber \<Rightarrow> 's \<Rightarrow> 's" where
  "subscriber_destroy rel sb s = fold (subscription_destroy rel) (subscriptions sb) s"

text \<open>The registration a handle owns, if any.\<close>

definition owned :: "Subscription \<Rightarrow> SubscriptionId set" where
  "owned h = (if active h \<and> backref h then {sub_id h} else {})"

lemma owned_simps [simp]:
  "owned subscription_default = {}"
  "owned (subscription_new i) = {i}"
  "owned (subscription_detach h) = {}"
  "owned (fst (subscription_release rel h s)) = {}"
  by (simp_all add: owned_def subscription_default_def subscription_new_def subscription_detach_def
      subscription_release_def)

section \<open>The back reference\<close>

text \<open>
  What a handle relies on: \<open>rel\<close> removes the registration with the id it is given and
  nothing else, on every state that satisfies the provider's invariant.
\<close>

locale subscription_backref =
  fixes rel :: "SubscriptionId \<Rightarrow> 's \<Rightarrow> 's"
    and live :: "'s \<Rightarrow> SubscriptionId set"
    and invar :: "'s \<Rightarrow> bool"
  assumes live_rel: "invar s \<Longrightarrow> live (rel i s) = live s - {i}"
    and invar_rel: "invar s \<Longrightarrow> invar (rel i s)"
begin

lemma live_destroy: "invar s \<Longrightarrow> live (subscription_destroy rel h s) = live s - owned h"
  by (simp add: subscription_destroy_def subscription_release_def live_rel owned_def)

lemma invar_destroy: "invar s \<Longrightarrow> invar (subscription_destroy rel h s)"
  by (simp add: subscription_destroy_def subscription_release_def invar_rel)

lemma destroy_moved_from:
  "subscription_destroy rel (snd (move_construct h)) s = s"
  by (simp add: subscription_destroy_def subscription_release_def move_construct_def)

lemma release_then_destroy:
  "subscription_destroy rel (fst (subscription_release rel h s)) s' = s'"
  by (simp add: subscription_destroy_def subscription_release_def)

lemma move_assign_live:
  assumes "invar s" and "move_assign rel this other s = (this', other', s')"
  shows "live s' = live s - owned this \<and> owned this' = owned other \<and> owned other' = {}"
  using assms live_destroy [OF assms(1), of this]
  by (auto simp: move_assign_def subscription_destroy_def owned_def split: prod.splits)

lemma subscriber_destroy_live:
  "invar s \<Longrightarrow> live (subscriber_destroy rel sb s) = live s - (\<Union>h \<in> set (subscriptions sb). owned h) \<and>
     invar (subscriber_destroy rel sb s)"
proof -
  have "invar s \<Longrightarrow> live (fold (subscription_destroy rel) hs s) = live s - (\<Union>h \<in> set hs. owned h) \<and>
     invar (fold (subscription_destroy rel) hs s)" for hs
    by (induction hs arbitrary: s) (auto simp: live_destroy invar_destroy)
  then show "invar s \<Longrightarrow> ?thesis" by (simp add: subscriber_destroy_def)
qed

end

end
