(* ===== verification/Bus.thy ===== *)
theory Bus
  imports Builder Registry Glob Listener
begin

text \<open>
  \<^verbatim>\<open>include/conduit/bus.hpp\<close> with the interfaces of \<^verbatim>\<open>middleware.hpp\<close> and
  \<^verbatim>\<open>transport.hpp\<close>: the bus's state and each of its operations. User callbacks, virtual
  methods of transports and middleware, and the containers of cpp-commons are the fields of
  a parameter record; a callback is given the whole state, so it may register or release
  listeners, publish, or change the envelope it sees.
\<close>

section \<open>State\<close>

datatype TransportScope = Local | Remote

text \<open>
  The closure a listener entry stores: what the wrappers in \<^verbatim>\<open>listen\<close> and
  \<^verbatim>\<open>wrap_typed_handler\<close> capture. Only the three shapes the code builds exist.
\<close>

datatype 'f wrapped =
    WrapPayload event_type 'f
  | WrapEnvelope 'f
  | WrapListener event_type 'f

record 'f ListenerEntry =
  entry_id :: SubscriptionId
  handler :: "'f wrapped"
  name_or_pattern :: string
  is_pattern :: bool
  listener_priority :: int

text \<open>
  Containers hold their elements in iteration order. Fields added to the record by an
  instance are the state of the callbacks and transports.
\<close>

record ('f, 'm, 't, 'r) bus = world +
  registry :: "'r EventRegistry"
  transports :: "'t list"
  middleware :: "'m list"
  listeners :: "'f ListenerEntry list"
  next_id :: SubscriptionId
  shutdown_flag :: bool
  self_alias :: bool

text \<open>
  The callbacks. An envelope passed by non-const reference comes back, since the callee may
  assign to it; a callback that throws returns the exception. \<^verbatim>\<open>detach\<close> is \<^verbatim>\<open>noexcept\<close>.
\<close>

record ('s, 'f, 'm, 't, 'r) host =
  parcel :: "'r parcel_lib"
  now :: "nat \<Rightarrow> time_point"
  generate_ulid :: "env \<Rightarrow> ulid"
  derives :: "string \<Rightarrow> string \<Rightarrow> bool"
  default_priority :: int
  insert_transport :: "'t \<Rightarrow> 't list \<Rightarrow> 't list"
  insert_middleware :: "'m \<Rightarrow> 'm list \<Rightarrow> 'm list"
  insert_listener :: "int \<Rightarrow> 'f ListenerEntry \<Rightarrow> 'f ListenerEntry list \<Rightarrow> 'f ListenerEntry list"
  invocable_payload :: "event_type \<Rightarrow> 'f \<Rightarrow> bool"
  invocable_envelope :: "'f \<Rightarrow> bool"
  has_priority :: "'f \<Rightarrow> bool"
  handler_null :: "'f \<Rightarrow> bool"
  handler_priority :: "'f \<Rightarrow> int"
  call_payload :: "'f \<Rightarrow> cell \<Rightarrow> 's \<Rightarrow> exn option \<times> 's"
  call_envelope :: "'f \<Rightarrow> env \<Rightarrow> 's \<Rightarrow> exn option \<times> 's"
  call_on_event :: "'f \<Rightarrow> cell \<Rightarrow> 's \<Rightarrow> exn option \<times> 's"
  before_dispatch :: "'m \<Rightarrow> env \<Rightarrow> 's \<Rightarrow> bool throws \<times> env \<times> 's"
  after_dispatch :: "'m \<Rightarrow> env \<Rightarrow> 's \<Rightarrow> exn option \<times> env \<times> 's"
  on_error :: "'m \<Rightarrow> env \<Rightarrow> exn \<Rightarrow> 's \<Rightarrow> exn option \<times> env \<times> 's"
  on_transport_error :: "'m \<Rightarrow> string \<Rightarrow> exn \<Rightarrow> 's \<Rightarrow> exn option \<times> 's"
  t_scope :: "'t \<Rightarrow> TransportScope"
  t_attach :: "'t \<Rightarrow> 's \<Rightarrow> exn option \<times> 's"
  t_dispatch :: "'t \<Rightarrow> env \<Rightarrow> 's \<Rightarrow> exn option \<times> 's"
  t_flush :: "'t \<Rightarrow> 's \<Rightarrow> exn option \<times> 's"
  t_detach :: "'t \<Rightarrow> 's \<Rightarrow> 's"

type_synonym ('f, 'm, 't, 'r, 'z) bus_host =
  "(('f, 'm, 't, 'r, 'z) bus_scheme, 'f, 'm, 't, 'r) host"

text \<open>The constructors: a registry of its own unless one is given.\<close>

definition Bus_new :: "'r parcel_lib \<Rightarrow> 'r EventRegistry option \<Rightarrow> 'z \<Rightarrow> ('f, 'm, 't, 'r, 'z) bus_scheme" where
  "Bus_new P reg z =
     \<lparr>cores = Map.empty, heap_next = 0, metrics = [], clock = 0,
      registry = (case reg of None \<Rightarrow> EventRegistry_new P | Some g \<Rightarrow> g),
      transports = [], middleware = [], listeners = [], next_id = 0, shutdown_flag = False,
      self_alias = False, \<dots> = z\<rparr>"

section \<open>Listener delivery\<close>

definition event_labels :: "string \<Rightarrow> labels" where
  "event_labels name = [(''event'', name)]"

text \<open>Calling the stored \<^verbatim>\<open>std::function\<close>.\<close>

fun call_handler ::
  "('f, 'm, 't, 'r, 'z) bus_host \<Rightarrow> 'f wrapped \<Rightarrow> env \<Rightarrow> ('f, 'm, 't, 'r, 'z) bus_scheme \<Rightarrow>
     exn option \<times> ('f, 'm, 't, 'r, 'z) bus_scheme" where
  "call_handler H (WrapPayload T f) v s =
     (case payload_as (derives H) T (cores s v) of None \<Rightarrow> (None, s) | Some c \<Rightarrow> call_payload H f c s)"
| "call_handler H (WrapEnvelope f) v s = call_envelope H f v s"
| "call_handler H (WrapListener T f) v s =
     (case payload_as (derives H) T (cores s v) of None \<Rightarrow> (None, s) | Some c \<Rightarrow> call_on_event H f c s)"

text \<open>\<^verbatim>\<open>run_on_error\<close>: every middleware of the snapshot, exceptions ignored; one shared copy \<open>mv\<close>.\<close>

definition run_on_error ::
  "('f, 'm, 't, 'r, 'z) bus_host \<Rightarrow> env \<Rightarrow> exn \<Rightarrow> ('f, 'm, 't, 'r, 'z) bus_scheme \<Rightarrow>
     ('f, 'm, 't, 'r, 'z) bus_scheme" where
  "run_on_error H v ep s = snd (fold (\<lambda>m (mv, s). snd (on_error H m mv ep s)) (middleware s) (v, s))"

definition entry_matches :: "'f ListenerEntry \<Rightarrow> string \<Rightarrow> bool" where
  "entry_matches e name =
     (if is_pattern e then glob_match (name_or_pattern e) name else name_or_pattern e = name)"

definition deliver_one ::
  "('f, 'm, 't, 'r, 'z) bus_host \<Rightarrow> env \<Rightarrow> string \<Rightarrow> 'f ListenerEntry \<Rightarrow>
     ('f, 'm, 't, 'r, 'z) bus_scheme \<Rightarrow> ('f, 'm, 't, 'r, 'z) bus_scheme" where
  "deliver_one H v name e s =
     (if \<not> entry_matches e name then s
      else let lbl = event_labels name;
               s = meter (Inc listener_invocations lbl) s
           in case call_handler H (handler e) v s of
                (None, s) \<Rightarrow> s
              | (Some ep, s) \<Rightarrow> run_on_error H v ep (meter (Inc listener_errors lbl) s))"

text \<open>The loop runs over the snapshot, with the name read once before it.\<close>

definition deliver_to_listeners ::
  "('f, 'm, 't, 'r, 'z) bus_host \<Rightarrow> env \<Rightarrow> ('f, 'm, 't, 'r, 'z) bus_scheme \<Rightarrow>
     ('f, 'm, 't, 'r, 'z) bus_scheme" where
  "deliver_to_listeners H v s = fold (deliver_one H v (name_of v s)) (listeners s) s"

definition report_transport_error ::
  "('f, 'm, 't, 'r, 'z) bus_host \<Rightarrow> string \<Rightarrow> exn \<Rightarrow> ('f, 'm, 't, 'r, 'z) bus_scheme \<Rightarrow>
     ('f, 'm, 't, 'r, 'z) bus_scheme" where
  "report_transport_error H transport ep s =
     (let s = meter (Inc transport_errors [(''transport'', transport)]) s
      in fold (\<lambda>m s. snd (on_transport_error H m transport ep s)) (middleware s) s)"

section \<open>Publishing\<close>

text \<open>The \<^verbatim>\<open>before_dispatch\<close> loop: whether to proceed, the envelope, the state.\<close>

fun run_before ::
  "('f, 'm, 't, 'r, 'z) bus_host \<Rightarrow> 'm list \<Rightarrow> env \<Rightarrow> ('f, 'm, 't, 'r, 'z) bus_scheme \<Rightarrow>
     bool \<times> env \<times> ('f, 'm, 't, 'r, 'z) bus_scheme" where
  "run_before H [] v s = (True, v, s)"
| "run_before H (m # ms) v s =
     (case before_dispatch H m v s of
        (Inr True, v, s) \<Rightarrow> run_before H ms v s
      | (Inr False, v, s) \<Rightarrow> (False, v, meter (Inc events_dropped (event_labels (name_of v s))) s)
      | (Inl ep, v, s) \<Rightarrow> (case on_error H m v ep s of (_, v, s) \<Rightarrow> run_before H ms v s))"

fun run_after ::
  "('f, 'm, 't, 'r, 'z) bus_host \<Rightarrow> 'm list \<Rightarrow> env \<Rightarrow> ('f, 'm, 't, 'r, 'z) bus_scheme \<Rightarrow>
     env \<times> ('f, 'm, 't, 'r, 'z) bus_scheme" where
  "run_after H [] v s = (v, s)"
| "run_after H (m # ms) v s =
     (case after_dispatch H m v s of
        (None, v, s) \<Rightarrow> run_after H ms v s
      | (Some ep, v, s) \<Rightarrow> (case on_error H m v ep s of (_, v, s) \<Rightarrow> run_after H ms v s))"

definition dispatch_one ::
  "('f, 'm, 't, 'r, 'z) bus_host \<Rightarrow> bool \<Rightarrow> bool \<Rightarrow> env \<Rightarrow> 't \<Rightarrow> ('f, 'm, 't, 'r, 'z) bus_scheme \<Rightarrow>
     ('f, 'm, 't, 'r, 'z) bus_scheme" where
  "dispatch_one H local_only remote_only v t s =
     (let sc = t_scope H t
      in if local_only \<and> sc \<noteq> Local then s
         else if remote_only \<and> sc \<noteq> Remote then s
         else case t_dispatch H t v s of
                (None, s) \<Rightarrow> s
              | (Some ep, s) \<Rightarrow> run_on_error H v ep s)"

text \<open>The bytes of the conflict message; the dash is three bytes of UTF-8.\<close>

definition conflict_error :: exn where
  "conflict_error = Exn StdRuntimeError (''LocalOnly + RemoteOnly conflict '' @
     [CHR 0xE2, CHR 0x80, CHR 0x94] @ '' envelope dropped'')"

definition route ::
  "('f, 'm, 't, 'r, 'z) bus_host \<Rightarrow> bool \<Rightarrow> bool \<Rightarrow> 't list \<Rightarrow> env \<Rightarrow> ('f, 'm, 't, 'r, 'z) bus_scheme \<Rightarrow>
     ('f, 'm, 't, 'r, 'z) bus_scheme" where
  "route H local_only remote_only ts v s =
     (let s = fold (dispatch_one H local_only remote_only v) ts s
      in if ts = [] \<and> \<not> remote_only then deliver_to_listeners H v s else s)"

text \<open>
  \<^verbatim>\<open>publish_impl\<close> in its four stretches: the stamp and the counter at entry, the conflict
  test, the routing above, and the observation of the elapsed time.
\<close>

definition begin_publish ::
  "('f, 'm, 't, 'r, 'z) bus_host \<Rightarrow> env \<Rightarrow> ('f, 'm, 't, 'r, 'z) bus_scheme \<Rightarrow>
     time_point \<times> ('f, 'm, 't, 'r, 'z) bus_scheme" where
  "begin_publish H v s =
     (let (started, s) = read_clock (now H) s;
          s = update_timestamps v (\<lambda>t. t\<lparr>published_at := Some started\<rparr>) s
      in (started, meter (Inc events_published (event_labels (name_of v s))) s))"

definition check_conflict ::
  "('f, 'm, 't, 'r, 'z) bus_host \<Rightarrow> bool \<Rightarrow> bool \<Rightarrow> bool \<Rightarrow> env \<Rightarrow> ('f, 'm, 't, 'r, 'z) bus_scheme \<Rightarrow>
     bool \<times> ('f, 'm, 't, 'r, 'z) bus_scheme" where
  "check_conflict H local_only remote_only proceed v s =
     (if local_only \<and> remote_only
      then (let s = run_on_error H v conflict_error s
            in (False, meter (Inc events_dropped (event_labels (name_of v s))) s))
      else (proceed, s))"

definition record_elapsed ::
  "('f, 'm, 't, 'r, 'z) bus_host \<Rightarrow> time_point \<Rightarrow> env \<Rightarrow> ('f, 'm, 't, 'r, 'z) bus_scheme \<Rightarrow>
     ('f, 'm, 't, 'r, 'z) bus_scheme" where
  "record_elapsed H started v s =
     (let (finished, s) = read_clock (now H) s
      in if finished - started \<ge> 0
         then meter (Observe dispatch_seconds (event_labels (name_of v s)) (finished - started)) s
         else s)"

definition publish_impl ::
  "('f, 'm, 't, 'r, 'z) bus_host \<Rightarrow> env \<Rightarrow> ('f, 'm, 't, 'r, 'z) bus_scheme \<Rightarrow>
     ('f, 'm, 't, 'r, 'z) bus_scheme" where
  "publish_impl H v s =
     (let local_only = contains_flag (core_flags (core_at v s)) LocalOnly;
          remote_only = contains_flag (core_flags (core_at v s)) RemoteOnly;
          (started, s) = begin_publish H v s;
          run_mw = (\<not> contains_flag (core_flags (core_at v s)) NoMiddleware);
          mw = (if run_mw then middleware s else []);
          (proceed, v, s) = run_before H mw v s;
          ts = transports s;
          (proceed, s) = check_conflict H local_only remote_only proceed v s;
          s = (if proceed then route H local_only remote_only ts v s else s);
          (v, s) = run_after H (rev mw) v s
      in record_elapsed H started v s)"

section \<open>Registration\<close>

definition register_event ::
  "('f, 'm, 't, 'r, 'z) bus_host \<Rightarrow> event_type \<Rightarrow> ('f, 'm, 't, 'r, 'z) bus_scheme \<Rightarrow>
     ('f, 'm, 't, 'r, 'z) bus_scheme" where
  "register_event H T s =
     s\<lparr>registry := add_descriptor (parcel H) (descriptor_of (parcel H) T) (registry s)\<rparr>"

definition shared_from_this_safe ::
  "('f, 'm, 't, 'r, 'z) bus_scheme \<Rightarrow> ('f, 'm, 't, 'r, 'z) bus_scheme" where
  "shared_from_this_safe s = (if \<not> self_alias s then s\<lparr>self_alias := True\<rparr> else s)"

definition register_listener_for_name ::
  "('f, 'm, 't, 'r, 'z) bus_host \<Rightarrow> string \<Rightarrow> 'f wrapped \<Rightarrow> bool \<Rightarrow> int \<Rightarrow>
     ('f, 'm, 't, 'r, 'z) bus_scheme \<Rightarrow> Subscription \<times> ('f, 'm, 't, 'r, 'z) bus_scheme" where
  "register_listener_for_name H n h pat priority s =
     (let i = next_id s + 1;
          s = s\<lparr>next_id := next_id s + 1\<rparr>;
          lbl = event_labels n;
          s = s\<lparr>listeners := insert_listener H priority
                 \<lparr>entry_id = i, handler = h, name_or_pattern = n, is_pattern = pat,
                  listener_priority = priority\<rparr> (listeners s)\<rparr>;
          s = meter (Inc listeners_gauge lbl) s;
          s = shared_from_this_safe s
      in (subscription_new i, s))"

definition derive_listener_priority :: "('f, 'm, 't, 'r, 'z) bus_host \<Rightarrow> 'f \<Rightarrow> int \<Rightarrow> int" where
  "derive_listener_priority H f explicit_priority =
     (if explicit_priority \<noteq> default_priority H then explicit_priority
      else if has_priority H f then (if \<not> handler_null H f then handler_priority H f else explicit_priority)
      else explicit_priority)"

definition wrap_typed_handler :: "('f, 'm, 't, 'r, 'z) bus_host \<Rightarrow> event_type \<Rightarrow> 'f \<Rightarrow> 'f wrapped" where
  "wrap_typed_handler H T f =
     (if invocable_payload H T f then WrapPayload T f
      else if invocable_envelope H f then WrapEnvelope f
      else WrapListener T f)"

definition listen_typed ::
  "('f, 'm, 't, 'r, 'z) bus_host \<Rightarrow> event_type \<Rightarrow> 'f \<Rightarrow> int \<Rightarrow> ('f, 'm, 't, 'r, 'z) bus_scheme \<Rightarrow>
     Subscription \<times> ('f, 'm, 't, 'r, 'z) bus_scheme" where
  "listen_typed H T f priority s =
     (let s = register_event H T s;
          effective_priority = derive_listener_priority H f priority;
          h = wrap_typed_handler H T f
      in register_listener_for_name H (event_name_v T) h False effective_priority s)"

definition listen_listener ::
  "('f, 'm, 't, 'r, 'z) bus_host \<Rightarrow> event_type \<Rightarrow> 'f \<Rightarrow> ('f, 'm, 't, 'r, 'z) bus_scheme \<Rightarrow>
     Subscription \<times> ('f, 'm, 't, 'r, 'z) bus_scheme" where
  "listen_listener H T listener s =
     (let s = register_event H T s;
          priority = (if \<not> handler_null H listener then handler_priority H listener else default_priority H)
      in register_listener_for_name H (event_name_v T) (WrapListener T listener) False priority s)"

definition listen_pattern ::
  "('f, 'm, 't, 'r, 'z) bus_host \<Rightarrow> string \<Rightarrow> 'f \<Rightarrow> int \<Rightarrow> ('f, 'm, 't, 'r, 'z) bus_scheme \<Rightarrow>
     Subscription \<times> ('f, 'm, 't, 'r, 'z) bus_scheme" where
  "listen_pattern H pattern f priority s =
     register_listener_for_name H pattern (WrapEnvelope f) (List.member pattern (CHR ''*'')) priority s"

text \<open>\<^verbatim>\<open>release\<close>: the first entry with the id goes, and its gauge with it.\<close>

fun erase_first :: "SubscriptionId \<Rightarrow> 'f ListenerEntry list \<Rightarrow> 'f ListenerEntry list" where
  "erase_first i [] = []"
| "erase_first i (e # es) = (if entry_id e = i then es else e # erase_first i es)"

definition release ::
  "SubscriptionId \<Rightarrow> ('f, 'm, 't, 'r, 'z) bus_scheme \<Rightarrow> ('f, 'm, 't, 'r, 'z) bus_scheme" where
  "release i s =
     (case find (\<lambda>e. entry_id e = i) (listeners s) of
        None \<Rightarrow> s
      | Some e \<Rightarrow> meter (Dec listeners_gauge (event_labels (name_or_pattern e)))
          (s\<lparr>listeners := erase_first i (listeners s)\<rparr>))"

text \<open>The \<^verbatim>\<open>on\<close> helpers of \<^verbatim>\<open>EventSubscriber\<close>.\<close>

definition subscriber_on ::
  "('f, 'm, 't, 'r, 'z) bus_host \<Rightarrow> event_type \<Rightarrow> 'f \<Rightarrow> EventSubscriber \<Rightarrow>
     ('f, 'm, 't, 'r, 'z) bus_scheme \<Rightarrow> EventSubscriber \<times> ('f, 'm, 't, 'r, 'z) bus_scheme" where
  "subscriber_on H T f sb s =
     (case listen_typed H T f (default_priority H) s of
        (h, s) \<Rightarrow> (sb\<lparr>subscriptions := subscriptions sb @ [h]\<rparr>, s))"

definition subscriber_on_pattern ::
  "('f, 'm, 't, 'r, 'z) bus_host \<Rightarrow> string \<Rightarrow> 'f \<Rightarrow> EventSubscriber \<Rightarrow>
     ('f, 'm, 't, 'r, 'z) bus_scheme \<Rightarrow> EventSubscriber \<times> ('f, 'm, 't, 'r, 'z) bus_scheme" where
  "subscriber_on_pattern H pattern f sb s =
     (case listen_pattern H pattern f (default_priority H) s of
        (h, s) \<Rightarrow> (sb\<lparr>subscriptions := subscriptions sb @ [h]\<rparr>, s))"

definition use_middleware ::
  "('f, 'm, 't, 'r, 'z) bus_host \<Rightarrow> 'm \<Rightarrow> ('f, 'm, 't, 'r, 'z) bus_scheme \<Rightarrow>
     ('f, 'm, 't, 'r, 'z) bus_scheme" where
  "use_middleware H m s = s\<lparr>middleware := insert_middleware H m (middleware s)\<rparr>"

text \<open>\<^verbatim>\<open>attach_transport\<close>: attached first, so a transport that throws is not inserted.\<close>

definition use_transport ::
  "('f, 'm, 't, 'r, 'z) bus_host \<Rightarrow> 't \<Rightarrow> ('f, 'm, 't, 'r, 'z) bus_scheme \<Rightarrow>
     exn option \<times> ('f, 'm, 't, 'r, 'z) bus_scheme" where
  "use_transport H t s =
     (case t_attach H t s of
        (Some ep, s) \<Rightarrow> (Some ep, s)
      | (None, s) \<Rightarrow> (None, s\<lparr>transports := insert_transport H t (transports s)\<rparr>))"

text \<open>\<^verbatim>\<open>use_transport<Tp>(args...)\<close>: the constructor may throw before anything is attached.\<close>

definition use_transport_make ::
  "('f, 'm, 't, 'r, 'z) bus_host \<Rightarrow> (('f, 'm, 't, 'r, 'z) bus_scheme \<Rightarrow> 't throws \<times> ('f, 'm, 't, 'r, 'z) bus_scheme) \<Rightarrow>
     ('f, 'm, 't, 'r, 'z) bus_scheme \<Rightarrow> 't throws \<times> ('f, 'm, 't, 'r, 'z) bus_scheme" where
  "use_transport_make H construct s =
     (case construct s of
        (Inl ep, s) \<Rightarrow> (Inl ep, s)
      | (Inr t, s) \<Rightarrow> (case use_transport H t s of (Some ep, s) \<Rightarrow> (Inl ep, s) | (None, s) \<Rightarrow> (Inr t, s)))"

text \<open>\<^verbatim>\<open>register_subscriber\<close>, with the subscriber's own \<^verbatim>\<open>register_to\<close>.\<close>

definition register_subscriber ::
  "(EventSubscriber \<Rightarrow> ('f, 'm, 't, 'r, 'z) bus_scheme \<Rightarrow> EventSubscriber \<times> ('f, 'm, 't, 'r, 'z) bus_scheme) \<Rightarrow>
     EventSubscriber \<Rightarrow> ('f, 'm, 't, 'r, 'z) bus_scheme \<Rightarrow> EventSubscriber \<times> ('f, 'm, 't, 'r, 'z) bus_scheme" where
  "register_subscriber register_to sb s = register_to sb s"

section \<open>The publish overloads\<close>

definition publish_envelope ::
  "('f, 'm, 't, 'r, 'z) bus_host \<Rightarrow> env \<Rightarrow> ('f, 'm, 't, 'r, 'z) bus_scheme \<Rightarrow> ('f, 'm, 't, 'r, 'z) bus_scheme" where
  "publish_envelope H v s = publish_impl H v s"

definition publish_builder ::
  "('f, 'm, 't, 'r, 'z) bus_host \<Rightarrow> EventBuilder \<Rightarrow> ('f, 'm, 't, 'r, 'z) bus_scheme \<Rightarrow>
     ('f, 'm, 't, 'r, 'z) bus_scheme" where
  "publish_builder H b s =
     (let s = register_event H (builder_type b) s;
          (v, s) = build (generate_ulid H (heap_next s)) (now H) b s
      in publish_impl H v s)"

definition publish_payload ::
  "('f, 'm, 't, 'r, 'z) bus_host \<Rightarrow> event_type \<Rightarrow> json \<Rightarrow> ('f, 'm, 't, 'r, 'z) bus_scheme \<Rightarrow>
     ('f, 'm, 't, 'r, 'z) bus_scheme" where
  "publish_payload H T x s =
     (let s = register_event H T s;
          (v, s) = build (generate_ulid H (heap_next s)) (now H) (event (flag_insert (wire (parcel H))) T x) s
      in publish_impl H v s)"

section \<open>Lifecycle\<close>

text \<open>\<^verbatim>\<open>drain\<close>: an exception from a \<^verbatim>\<open>flush\<close> ends the loop and propagates.\<close>

fun drain_loop ::
  "('f, 'm, 't, 'r, 'z) bus_host \<Rightarrow> 't list \<Rightarrow> ('f, 'm, 't, 'r, 'z) bus_scheme \<Rightarrow>
     exn option \<times> ('f, 'm, 't, 'r, 'z) bus_scheme" where
  "drain_loop H [] s = (None, s)"
| "drain_loop H (t # ts) s =
     (case t_flush H t s of (Some ep, s) \<Rightarrow> (Some ep, s) | (None, s) \<Rightarrow> drain_loop H ts s)"

definition drain ::
  "('f, 'm, 't, 'r, 'z) bus_host \<Rightarrow> ('f, 'm, 't, 'r, 'z) bus_scheme \<Rightarrow>
     exn option \<times> ('f, 'm, 't, 'r, 'z) bus_scheme" where
  "drain H s = drain_loop H (transports s) s"

definition shutdown ::
  "('f, 'm, 't, 'r, 'z) bus_host \<Rightarrow> ('f, 'm, 't, 'r, 'z) bus_scheme \<Rightarrow>
     ('f, 'm, 't, 'r, 'z) bus_scheme" where
  "shutdown H s =
     (if shutdown_flag s then s
      else let s = s\<lparr>shutdown_flag := True\<rparr>;
               ts = transports s;
               s = s\<lparr>transports := []\<rparr>
           in fold (\<lambda>t s. t_detach H t (snd (t_flush H t s))) ts s)"

definition Bus_destroy ::
  "('f, 'm, 't, 'r, 'z) bus_host \<Rightarrow> ('f, 'm, 't, 'r, 'z) bus_scheme \<Rightarrow>
     ('f, 'm, 't, 'r, 'z) bus_scheme" where
  "Bus_destroy H s =
     (let s = shutdown H s
      in fold (\<lambda>e. meter (Dec listeners_gauge (event_labels (name_or_pattern e)))) (listeners s) s)"

end
