(* ===== verification/BusDispatch.thy ===== *)
theory BusDispatch
  imports Bus
begin

text \<open>
  What publishing does: which callbacks run, in which order, with which envelope, for
  every combination of flags, vetoes, throwing callbacks and attached transports. The
  abstract specification is the list of calls \<open>publish_calls\<close>; the theorems show that the
  bus refines it.
\<close>

section \<open>Definitions\<close>

text \<open>The calls a bus makes on what is plugged into it.\<close>

datatype ('f, 'm, 't) call =
    CPayload 'f cell
  | CEnvelope 'f env
  | COnEvent 'f cell
  | CBefore 'm env
  | CAfter 'm env
  | COnError 'm env exn
  | CTransportError 'm string exn
  | CDispatch 't env
  | CFlush 't
  | CDetach 't

text \<open>Every callback relates the state it is given to the state it leaves.\<close>

definition host_respects ::
  "('f, 'm, 't, 'r, 'z) bus_host \<Rightarrow>
     (('f, 'm, 't, 'r, 'z) bus_scheme \<Rightarrow> ('f, 'm, 't, 'r, 'z) bus_scheme \<Rightarrow> bool) \<Rightarrow> bool" where
  "host_respects H R \<longleftrightarrow>
     (\<forall>f c s. R s (snd (call_payload H f c s))) \<and>
     (\<forall>f v s. R s (snd (call_envelope H f v s))) \<and>
     (\<forall>f c s. R s (snd (call_on_event H f c s))) \<and>
     (\<forall>m v s. R s (snd (snd (before_dispatch H m v s)))) \<and>
     (\<forall>m v s. R s (snd (snd (after_dispatch H m v s)))) \<and>
     (\<forall>m v e s. R s (snd (snd (on_error H m v e s)))) \<and>
     (\<forall>m n e s. R s (snd (on_transport_error H m n e s))) \<and>
     (\<forall>t v s. R s (snd (t_dispatch H t v s))) \<and>
     (\<forall>t s. R s (snd (t_flush H t s))) \<and>
     (\<forall>t s. R s (t_detach H t s))"

text \<open>
  An observer \<open>lg\<close> of the callbacks' own part of the state, to which each call \<open>c\<close> appends
  \<open>ev c\<close>: the whole trace for \<open>ev c = [c]\<close>, or the calls of one kind.
\<close>

definition tracing ::
  "('f, 'm, 't, 'r, 'z) bus_host \<Rightarrow> (('f, 'm, 't, 'r, 'z) bus_scheme \<Rightarrow> 'l list) \<Rightarrow>
     (('f, 'm, 't) call \<Rightarrow> 'l list) \<Rightarrow> bool" where
  "tracing H lg ev \<longleftrightarrow>
     (\<forall>s s'. bus.more s = bus.more s' \<longrightarrow> lg s = lg s') \<and>
     (\<forall>f c s. lg (snd (call_payload H f c s)) = lg s @ ev (CPayload f c)) \<and>
     (\<forall>f v s. lg (snd (call_envelope H f v s)) = lg s @ ev (CEnvelope f v)) \<and>
     (\<forall>f c s. lg (snd (call_on_event H f c s)) = lg s @ ev (COnEvent f c)) \<and>
     (\<forall>m v s. lg (snd (snd (before_dispatch H m v s))) = lg s @ ev (CBefore m v)) \<and>
     (\<forall>m v s. lg (snd (snd (after_dispatch H m v s))) = lg s @ ev (CAfter m v)) \<and>
     (\<forall>m v e s. lg (snd (snd (on_error H m v e s))) = lg s @ ev (COnError m v e)) \<and>
     (\<forall>m n e s. lg (snd (on_transport_error H m n e s)) = lg s @ ev (CTransportError m n e)) \<and>
     (\<forall>t v s. lg (snd (t_dispatch H t v s)) = lg s @ ev (CDispatch t v)) \<and>
     (\<forall>t s. lg (snd (t_flush H t s)) = lg s @ ev (CFlush t)) \<and>
     (\<forall>t s. lg (t_detach H t s) = lg s @ ev (CDetach t))"

text \<open>No middleware assigns another envelope to the variable it is given.\<close>

definition no_rebind :: "('f, 'm, 't, 'r, 'z) bus_host \<Rightarrow> bool" where
  "no_rebind H \<longleftrightarrow>
     (\<forall>m v s. fst (snd (before_dispatch H m v s)) = v) \<and>
     (\<forall>m v s. fst (snd (after_dispatch H m v s)) = v) \<and>
     (\<forall>m v e s. fst (snd (on_error H m v e s)) = v)"

text \<open>No error callback is part of the observation.\<close>

definition errors_silent :: "(('f, 'm, 't) call \<Rightarrow> 'l list) \<Rightarrow> bool" where
  "errors_silent ev \<longleftrightarrow> (\<forall>m v e. ev (COnError m v e) = [])"

text \<open>The payload of every existing envelope stays; the containers stay too.\<close>

definition keeps_payloads ::
  "('f, 'm, 't, 'r, 'z) bus_scheme \<Rightarrow> ('f, 'm, 't, 'r, 'z) bus_scheme \<Rightarrow> bool" where
  "keeps_payloads s s' \<longleftrightarrow>
     (\<forall>v c. cores s v = Some c \<longrightarrow> (\<exists>c'. cores s' v = Some c' \<and> payload_cell c' = payload_cell c))"

definition keeps_wiring ::
  "('f, 'm, 't, 'r, 'z) bus_scheme \<Rightarrow> ('f, 'm, 't, 'r, 'z) bus_scheme \<Rightarrow> bool" where
  "keeps_wiring s s' \<longleftrightarrow> keeps_payloads s s' \<and> transports s' = transports s \<and>
     middleware s' = middleware s \<and> listeners s' = listeners s"

definition keeps_cores ::
  "('f, 'm, 't, 'r, 'z) bus_scheme \<Rightarrow> ('f, 'm, 't, 'r, 'z) bus_scheme \<Rightarrow> bool" where
  "keeps_cores s s' \<longleftrightarrow> cores s' = cores s"

text \<open>
  The specification. The call a listener receives, the calls of a fan-out, the transports a
  flag combination selects, the middleware asked before the first veto, and the whole
  sequence of a publish.
\<close>

fun handler_call :: "(string \<Rightarrow> string \<Rightarrow> bool) \<Rightarrow> env \<Rightarrow> cell option \<Rightarrow> 'f wrapped \<Rightarrow> ('f, 'm, 't) call list" where
  "handler_call d v p (WrapEnvelope f) = [CEnvelope f v]"
| "handler_call d v p (WrapPayload T f) =
     (case p of Some c \<Rightarrow> if d (dyn_type c) (type_id T) then [CPayload f c] else [] | None \<Rightarrow> [])"
| "handler_call d v p (WrapListener T f) =
     (case p of Some c \<Rightarrow> if d (dyn_type c) (type_id T) then [COnEvent f c] else [] | None \<Rightarrow> [])"

definition interested :: "string \<Rightarrow> 'f ListenerEntry \<Rightarrow> bool" where
  "interested n e = (name_or_pattern e = n \<and> \<not> is_pattern e \<or> is_pattern e \<and> glob_match (name_or_pattern e) n)"

definition fanout_calls ::
  "(string \<Rightarrow> string \<Rightarrow> bool) \<Rightarrow> env \<Rightarrow> EnvelopeCore \<Rightarrow> 'f ListenerEntry list \<Rightarrow> ('f, 'm, 't) call list" where
  "fanout_calls d v core es =
     concat (map (\<lambda>e. handler_call d v (payload_cell core) (handler e))
       (filter (interested (env_name (Some core))) es))"

definition eligible :: "FlagSet \<Rightarrow> TransportScope \<Rightarrow> bool" where
  "eligible fs sc = ((contains_flag fs LocalOnly \<longrightarrow> sc = Local) \<and> (contains_flag fs RemoteOnly \<longrightarrow> sc = Remote))"

fun asked :: "('m \<Rightarrow> bool) \<Rightarrow> 'm list \<Rightarrow> 'm list" where
  "asked veto [] = []"
| "asked veto (m # ms) = (if veto m then [m] else m # asked veto ms)"

definition publish_calls ::
  "('t \<Rightarrow> TransportScope) \<Rightarrow> (string \<Rightarrow> string \<Rightarrow> bool) \<Rightarrow> ('m \<Rightarrow> bool) \<Rightarrow> env \<Rightarrow> EnvelopeCore \<Rightarrow>
     'm list \<Rightarrow> 't list \<Rightarrow> 'f ListenerEntry list \<Rightarrow> ('f, 'm, 't) call list" where
  "publish_calls scope d veto v core ms ts es =
     (let fs = core_flags core;
          mw = (if contains_flag fs NoMiddleware then [] else ms)
      in map (\<lambda>m. CBefore m v) (asked veto mw) @
         (if (\<exists>m \<in> set mw. veto m) \<or> contains_flag fs LocalOnly \<and> contains_flag fs RemoteOnly then []
          else if ts = [] then (if contains_flag fs RemoteOnly then [] else fanout_calls d v core es)
          else map (\<lambda>t. CDispatch t v) (filter (\<lambda>t. eligible fs (scope t)) ts)) @
         map (\<lambda>m. CAfter m v) (rev mw))"

text \<open>
  The observation of a publish over transports whose dispatch adds \<open>out t\<close> to it: the middleware
  asked, then what the eligible transports add, then the middleware told.
\<close>

definition publish_observed ::
  "(('f, 'm, 't) call \<Rightarrow> 'l list) \<Rightarrow> ('t \<Rightarrow> 'l list) \<Rightarrow> ('t \<Rightarrow> TransportScope) \<Rightarrow> (string \<Rightarrow> string \<Rightarrow> bool) \<Rightarrow> ('m \<Rightarrow> bool) \<Rightarrow>
     env \<Rightarrow> EnvelopeCore \<Rightarrow> 'm list \<Rightarrow> 't list \<Rightarrow> 'f ListenerEntry list \<Rightarrow> 'l list" where
  "publish_observed ev out scope d veto v core ms ts es =
     (let fs = core_flags core;
          mw = (if contains_flag fs NoMiddleware then [] else ms)
      in concat (map (\<lambda>m. ev (CBefore m v)) (asked veto mw)) @
         (if (\<exists>m \<in> set mw. veto m) \<or> contains_flag fs LocalOnly \<and> contains_flag fs RemoteOnly then []
          else if ts = [] then (if contains_flag fs RemoteOnly then [] else concat (map ev (fanout_calls d v core es)))
          else concat (map out (filter (\<lambda>t. eligible fs (scope t)) ts))) @
         concat (map (\<lambda>m. ev (CAfter m v)) (rev mw)))"

text \<open>A flag of the envelope now, and the middleware its publish runs.\<close>

definition has_flag :: "env \<Rightarrow> builtin_flag \<Rightarrow> ('f, 'm, 't, 'r, 'z) bus_scheme \<Rightarrow> bool" where
  "has_flag v f s = contains_flag (core_flags (core_at v s)) f"

definition pipeline :: "env \<Rightarrow> ('f, 'm, 't, 'r, 'z) bus_scheme \<Rightarrow> 'm list" where
  "pipeline v s = (if \<not> has_flag v NoMiddleware s then middleware s else [])"

text \<open>
  A concrete host whose state is the trace of all calls: handlers, middleware and transports
  are named by strings; a handler or transport called \<open>boom\<close> throws, a middleware called
  \<open>deny\<close> vetoes, and \<open>mqtt\<close> is a remote transport.
\<close>

type_synonym trace = "(string, string, string) call list"

definition push :: "(string, string, string) call \<Rightarrow> (string, string, string, 'r, trace) bus_scheme \<Rightarrow>
    (string, string, string, 'r, trace) bus_scheme" where
  "push c s = bus.more_update (\<lambda>tr. tr @ [c]) s"

definition boom :: "string \<Rightarrow> exn option" where
  "boom n = (if n = ''boom'' then Some (Exn ForeignStdException n) else None)"

definition trace_host :: "(string, string, string, descriptor list, trace) bus_host" where
  "trace_host =
     \<lparr>parcel = example_parcel, now = int, generate_ulid = (\<lambda>v. of_nat v),
      derives = (\<lambda>a b. a = b), default_priority = 0,
      insert_transport = (\<lambda>t ts. ts @ [t]), insert_middleware = (\<lambda>m ms. ms @ [m]),
      insert_listener = (\<lambda>p e es. takeWhile (\<lambda>x. listener_priority x \<le> p) es @ e #
         dropWhile (\<lambda>x. listener_priority x \<le> p) es),
      invocable_payload = (\<lambda>T f. f \<noteq> ''env''), invocable_envelope = (\<lambda>f. True),
      has_priority = (\<lambda>f. False), handler_null = (\<lambda>f. False), handler_priority = (\<lambda>f. 0),
      call_payload = (\<lambda>f c s. (boom f, push (CPayload f c) s)),
      call_envelope = (\<lambda>f v s. (boom f, push (CEnvelope f v) s)),
      call_on_event = (\<lambda>f c s. (boom f, push (COnEvent f c) s)),
      before_dispatch = (\<lambda>m v s. (Inr (m \<noteq> ''deny''), v, push (CBefore m v) s)),
      after_dispatch = (\<lambda>m v s. (None, v, push (CAfter m v) s)),
      on_error = (\<lambda>m v e s. (None, v, push (COnError m v e) s)),
      on_transport_error = (\<lambda>m n e s. (None, push (CTransportError m n e) s)),
      t_scope = (\<lambda>t. if t = ''mqtt'' then Remote else Local),
      t_attach = (\<lambda>t s. (boom t, s)),
      t_dispatch = (\<lambda>t v s. (boom t, push (CDispatch t v) s)),
      t_flush = (\<lambda>t s. (boom t, push (CFlush t) s)),
      t_detach = (\<lambda>t s. push (CDetach t) s)\<rparr>"

text \<open>Everything but the error callbacks.\<close>

fun quiet :: "(string, string, string) call \<Rightarrow> trace" where
  "quiet (COnError m v e) = []"
| "quiet c = [c]"

definition quiet_trace :: "(string, string, string, 'r, trace) bus_scheme \<Rightarrow> trace" where
  "quiet_trace s = concat (map quiet (bus.more s))"

text \<open>A bus with one envelope at address 0.\<close>

definition example_bus ::
  "FlagSet \<Rightarrow> string list \<Rightarrow> string list \<Rightarrow> string ListenerEntry list \<Rightarrow>
     (string, string, string, descriptor list, trace) bus_scheme" where
  "example_bus fs ms ts es =
     (Bus_new example_parcel None [])
       \<lparr>cores := [0 \<mapsto> example_core\<lparr>core_flags := fs\<rparr>], heap_next := 1, middleware := ms, transports := ts,
        listeners := es\<rparr>"

definition example_entry :: "SubscriptionId \<Rightarrow> string \<Rightarrow> string \<Rightarrow> string ListenerEntry" where
  "example_entry i f pat = \<lparr>entry_id = i, handler = WrapEnvelope f, name_or_pattern = pat,
     is_pattern = List.member pat (CHR ''*''), listener_priority = 0\<rparr>"

section \<open>The stretches of a publish\<close>

lemma interested_matches [simp]: "interested n e = entry_matches e n"
  by (auto simp: interested_def entry_matches_def)

lemma filter_interested [simp]: "filter (interested n) es = filter (\<lambda>e. entry_matches e n) es"
  by (induction es) simp_all

lemma publish_impl_phases:
  obtains t s1 p v2 s2 p' s3 s4 v5 s5 where
    "begin_publish H v s = (t, s1)"
    "run_before H (pipeline v s1) v s1 = (p, v2, s2)"
    "check_conflict H (has_flag v LocalOnly s) (has_flag v RemoteOnly s) p v2 s2 = (p', s3)"
    "s4 = (if p' then route H (has_flag v LocalOnly s) (has_flag v RemoteOnly s) (transports s2) v2 s3 else s3)"
    "run_after H (rev (pipeline v s1)) v2 s4 = (v5, s5)"
    "publish_impl H v s = record_elapsed H t v5 s5"
proof -
  obtain t s1 where 1: "begin_publish H v s = (t, s1)" by fastforce
  obtain p v2 s2 where 2: "run_before H (pipeline v s1) v s1 = (p, v2, s2)" by (metis prod_cases3)
  obtain p' s3 where 3: "check_conflict H (has_flag v LocalOnly s) (has_flag v RemoteOnly s) p v2 s2 = (p', s3)"
    by fastforce
  define s4 where 4: "s4 = (if p' then route H (has_flag v LocalOnly s) (has_flag v RemoteOnly s)
      (transports s2) v2 s3 else s3)"
  obtain v5 s5 where 5: "run_after H (rev (pipeline v s1)) v2 s4 = (v5, s5)" by fastforce
  have "publish_impl H v s = record_elapsed H t v5 s5"
    using 1 2 3 4 5 unfolding publish_impl_def pipeline_def has_flag_def Let_def
    by (simp split: if_splits)
  with 1 2 3 4 5 show ?thesis by (rule that)
qed

section \<open>Relations every operation respects\<close>

text \<open>
  A relation between states that holds across the bus's own bookkeeping. A callback that
  respects it may be called any number of times, in any order, from any operation. The
  extension adds the one write to the envelope, the \<open>published_at\<close> stamp.
\<close>

locale bus_step_relation =
  fixes R :: "('f, 'm, 't, 'r, 'z) bus_scheme \<Rightarrow> ('f, 'm, 't, 'r, 'z) bus_scheme \<Rightarrow> bool"
  assumes R_refl: "R s s"
    and R_trans: "R s s' \<Longrightarrow> R s' s'' \<Longrightarrow> R s s''"
    and R_meter: "(\<And>l. c \<noteq> Inc listeners_gauge l \<and> c \<noteq> Dec listeners_gauge l) \<Longrightarrow> R s (meter c s)"
    and R_clock: "R s (s\<lparr>clock := n\<rparr>)"
begin

lemma R_step: "R s s' \<Longrightarrow> (\<And>s'. R s' (g s')) \<Longrightarrow> R s (g s')"
  using R_trans by blast

lemma R_fold: "(\<And>x s. R s (g x s)) \<Longrightarrow> R s (fold g xs s)"
  by (rule fold_invariant_set) (auto intro: R_refl R_trans)

lemma call_handler_R: "host_respects H R \<Longrightarrow> R s (snd (call_handler H h v s))"
  by (cases h) (auto simp: host_respects_def R_refl split: option.splits)

lemma run_on_error_R: "host_respects H R \<Longrightarrow> R s (run_on_error H v e s)"
proof -
  assume H: "host_respects H R"
  have "R s (snd (fold (\<lambda>m (mv, s). snd (on_error H m mv e s)) ms (v, s)))" for ms
    by (rule fold_invariant_set [where P = "\<lambda>p. R s (snd p)"])
      (use H in \<open>auto simp: host_respects_def intro: R_refl R_trans split: prod.splits\<close>)
  then show ?thesis by (simp add: run_on_error_def)
qed

lemma deliver_one_R: "host_respects H R \<Longrightarrow> R s (deliver_one H v n e s)"
proof -
  assume H: "host_respects H R"
  let ?s = "meter (Inc listener_invocations (event_labels n)) s"
  have "R s (snd (call_handler H (handler e) v ?s))"
    using R_trans [OF R_meter call_handler_R [OF H]] by simp
  moreover have "R s' (run_on_error H v ep (meter (Inc listener_errors (event_labels n)) s'))" for ep s'
    using R_trans [OF R_meter run_on_error_R [OF H]] by simp
  ultimately show ?thesis
    by (auto simp: deliver_one_def Let_def R_refl split: prod.splits option.splits intro: R_trans)
qed

lemma deliver_R: "host_respects H R \<Longrightarrow> R s (deliver_to_listeners H v s)"
  by (simp add: deliver_to_listeners_def R_fold deliver_one_R)

lemma report_R: "host_respects H R \<Longrightarrow> R s (report_transport_error H n e s)"
  unfolding report_transport_error_def Let_def
  by (rule R_trans [OF R_meter R_fold]) (auto simp: host_respects_def)

lemma run_before_R: "host_respects H R \<Longrightarrow> R s (snd (snd (run_before H ms v s)))"
proof (induction H ms v s rule: run_before.induct)
  case (2 H m ms v s)
  obtain r v1 s1 where b: "before_dispatch H m v s = (r, v1, s1)" by (metis prod_cases3)
  then have 1: "R s s1" using "2.prems" by (metis host_respects_def snd_conv)
  show ?case
  proof (cases r)
    case (Inl ep)
    obtain x v2 s2 where o: "on_error H m v1 ep s1 = (x, v2, s2)" by (metis prod_cases3)
    then have "R s1 s2" using "2.prems" by (metis host_respects_def snd_conv)
    moreover have "R s2 (snd (snd (run_before H ms v2 s2)))"
      using "2.IH" b o Inl "2.prems" by metis
    ultimately show ?thesis using b o Inl 1 by (auto intro: R_trans)
  next
    case (Inr go)
    then show ?thesis using "2.IH" b 1 "2.prems"
      by (cases go) (auto intro: R_trans R_meter)
  qed
qed (simp add: R_refl)

lemma run_after_R: "host_respects H R \<Longrightarrow> R s (snd (run_after H ms v s))"
proof (induction H ms v s rule: run_after.induct)
  case (2 H m ms v s)
  obtain r v1 s1 where a: "after_dispatch H m v s = (r, v1, s1)" by (metis prod_cases3)
  then have 1: "R s s1" using "2.prems" by (metis host_respects_def snd_conv)
  show ?case
  proof (cases r)
    case None
    then show ?thesis using "2.IH" a 1 "2.prems" by (auto intro: R_trans)
  next
    case (Some ep)
    obtain x v2 s2 where o: "on_error H m v1 ep s1 = (x, v2, s2)" by (metis prod_cases3)
    then have "R s1 s2" using "2.prems" by (metis host_respects_def snd_conv)
    moreover have "R s2 (snd (run_after H ms v2 s2))" using "2.IH" a o Some "2.prems" by metis
    ultimately show ?thesis using a o Some 1 by (auto intro: R_trans)
  qed
qed (simp add: R_refl)

lemma dispatch_one_R: "host_respects H R \<Longrightarrow> R s (dispatch_one H lo ro v t s)"
proof -
  assume H: "host_respects H R"
  then have "R s (snd (t_dispatch H t v s))" by (simp add: host_respects_def)
  then show ?thesis
    by (auto simp: dispatch_one_def Let_def R_refl intro: R_trans run_on_error_R [OF H]
        split: prod.splits option.splits)
qed

lemma route_R: "host_respects H R \<Longrightarrow> R s (route H lo ro ts v s)"
  by (auto simp: route_def Let_def intro: R_fold dispatch_one_R deliver_R)

lemma check_conflict_R: "host_respects H R \<Longrightarrow> R s (snd (check_conflict H lo ro p v s))"
proof -
  assume H: "host_respects H R"
  have "R s (meter (Inc events_dropped l) (run_on_error H v e s))" for l e
    by (rule R_trans [OF run_on_error_R [OF H] R_meter]) auto
  then show ?thesis by (simp add: check_conflict_def Let_def R_refl)
qed

lemma record_elapsed_R: "R s (record_elapsed H t v s)"
proof -
  have "R s (meter (Observe k l x) (s\<lparr>clock := n\<rparr>))" for k l x n
    by (rule R_trans [OF R_clock R_meter]) auto
  then show ?thesis by (simp add: record_elapsed_def read_clock_def Let_def R_clock)
qed

lemma publish_after_begin_R:
  assumes H: "host_respects H R" and begun: "begin_publish H v s = (t, s1)"
  shows "R s1 (publish_impl H v s)"
proof -
  obtain t' s1' p v2 s2 p' s3 s4 v5 s5 where ph:
    "begin_publish H v s = (t', s1')"
    "run_before H (pipeline v s1') v s1' = (p, v2, s2)"
    "check_conflict H (has_flag v LocalOnly s) (has_flag v RemoteOnly s) p v2 s2 = (p', s3)"
    "s4 = (if p' then route H (has_flag v LocalOnly s) (has_flag v RemoteOnly s) (transports s2) v2 s3 else s3)"
    "run_after H (rev (pipeline v s1')) v2 s4 = (v5, s5)"
    "publish_impl H v s = record_elapsed H t' v5 s5"
    by (rule publish_impl_phases)
  have "R s1 s2" using run_before_R [OF H, of s1 "pipeline v s1" v] ph(1,2) begun by simp
  moreover have "R s2 s3" using check_conflict_R [OF H] ph(3) by (metis snd_conv)
  moreover have "R s3 s4" using route_R [OF H] ph(4) by (simp add: R_refl)
  moreover have "R s4 s5" using run_after_R [OF H, of s4 "rev (pipeline v s1')" v2] ph(5) by simp
  moreover have "R s5 (publish_impl H v s)" using record_elapsed_R ph(6) by simp
  ultimately show ?thesis by (blast intro: R_trans)
qed

end

locale bus_relation = bus_step_relation +
  assumes R_stamp: "R s (update_timestamps v f s)"
begin

lemma begin_publish_R: "R s (snd (begin_publish H v s))"
  unfolding begin_publish_def read_clock_def Let_def prod.case snd_conv
  by (rule R_trans [OF R_trans [OF R_clock R_stamp] R_meter]) auto

lemma publish_impl_R: "host_respects H R \<Longrightarrow> R s (publish_impl H v s)"
proof -
  assume H: "host_respects H R"
  obtain t s1 where b: "begin_publish H v s = (t, s1)" by fastforce
  have "R s s1" using begin_publish_R [of s H v] b by simp
  then show ?thesis using publish_after_begin_R [OF H b] by (rule R_trans)
qed

end

section \<open>The interpretations\<close>

lemma keeps_payloads_trans: "keeps_payloads s s' \<Longrightarrow> keeps_payloads s' s'' \<Longrightarrow> keeps_payloads s s''"
  by (fastforce simp: keeps_payloads_def)

lemma keeps_payloads_cores: "cores s' = cores s \<Longrightarrow> keeps_payloads s s'"
  by (simp add: keeps_payloads_def)

lemma keeps_payloads_stamp: "keeps_payloads s (update_timestamps v f s)"
  by (auto simp: keeps_payloads_def update_timestamps_def)

lemma bus_fields_meter [simp, bus_frame]:
  "transports (meter c s) = transports s" "middleware (meter c s) = middleware s"
  "listeners (meter c s) = listeners s" "next_id (meter c s) = next_id s"
  "registry (meter c s) = registry s" "shutdown_flag (meter c s) = shutdown_flag s"
  "bus.more (meter c s) = bus.more s"
  by (simp_all add: meter_def)

lemma bus_fields_core [simp, bus_frame]:
  "transports (update_core v f s) = transports s" "middleware (update_core v f s) = middleware s"
  "listeners (update_core v f s) = listeners s" "next_id (update_core v f s) = next_id s"
  "registry (update_core v f s) = registry s" "shutdown_flag (update_core v f s) = shutdown_flag s"
  "bus.more (update_core v f s) = bus.more s"
  by (simp_all add: update_core_def)

lemma bus_fields_stamp [simp, bus_frame]:
  "transports (update_timestamps v g s) = transports s" "middleware (update_timestamps v g s) = middleware s"
  "listeners (update_timestamps v g s) = listeners s" "next_id (update_timestamps v g s) = next_id s"
  "registry (update_timestamps v g s) = registry s" "shutdown_flag (update_timestamps v g s) = shutdown_flag s"
  "bus.more (update_timestamps v g s) = bus.more s"
  by (simp_all add: update_timestamps_def)

interpretation heap: bus_step_relation keeps_cores
  by unfold_locales (auto simp: keeps_cores_def)

interpretation payloads: bus_relation keeps_payloads
  by unfold_locales (auto intro: keeps_payloads_trans keeps_payloads_stamp simp: keeps_payloads_cores)

interpretation wiring: bus_relation keeps_wiring
  by unfold_locales (auto simp: keeps_wiring_def keeps_payloads_cores keeps_payloads_stamp
      intro: keeps_payloads_trans)

section \<open>Traces\<close>

lemma lg_frame:
  assumes "tracing H lg ev"
  shows "lg (meter c s) = lg s" and "lg (update_timestamps v f s) = lg s" and "lg (s\<lparr>clock := n\<rparr>) = lg s"
proof -
  have more: "bus.more a = bus.more b \<Longrightarrow> lg a = lg b" for a b
    by (rule assms [unfolded tracing_def, THEN conjunct1, rule_format])
  show "lg (meter c s) = lg s" "lg (update_timestamps v f s) = lg s" "lg (s\<lparr>clock := n\<rparr>) = lg s"
    by (rule more; simp)+
qed

lemma lg_call:
  assumes "tracing H lg ev"
  shows "lg (snd (call_payload H f c s)) = lg s @ ev (CPayload f c)"
    and "lg (snd (call_envelope H f v s)) = lg s @ ev (CEnvelope f v)"
    and "lg (snd (call_on_event H f c s)) = lg s @ ev (COnEvent f c)"
    and "lg (snd (snd (before_dispatch H m v s))) = lg s @ ev (CBefore m v)"
    and "lg (snd (snd (after_dispatch H m v s))) = lg s @ ev (CAfter m v)"
    and "lg (snd (snd (on_error H m v e s))) = lg s @ ev (COnError m v e)"
    and "lg (snd (on_transport_error H m n e s)) = lg s @ ev (CTransportError m n e)"
    and "lg (snd (t_dispatch H t v s)) = lg s @ ev (CDispatch t v)"
    and "lg (snd (t_flush H t s)) = lg s @ ev (CFlush t)"
    and "lg (t_detach H t s) = lg s @ ev (CDetach t)"
  using assms [unfolded tracing_def, THEN conjunct2] by simp_all

lemma run_on_error_trace:
  assumes "tracing H lg ev" and "no_rebind H"
  shows "lg (run_on_error H v e s) = lg s @ concat (map (\<lambda>m. ev (COnError m v e)) (middleware s))"
proof -
  have "fst (fold (\<lambda>m (mv, s). snd (on_error H m mv e s)) ms (v, s)) = v \<and>
    lg (snd (fold (\<lambda>m (mv, s). snd (on_error H m mv e s)) ms (v, s))) =
      lg s @ concat (map (\<lambda>m. ev (COnError m v e)) ms)" for ms
  proof (induction ms arbitrary: s)
    case (Cons m ms)
    have "snd (on_error H m v e s) = (v, snd (snd (on_error H m v e s)))"
      using assms(2) by (simp add: no_rebind_def prod_eq_iff)
    then show ?case
      using Cons.IH [of "snd (snd (on_error H m v e s))"] lg_call(6) [OF assms(1)] by (simp add: split_def)
  qed simp
  then show ?thesis by (simp add: run_on_error_def)
qed

lemma run_on_error_silent:
  assumes "tracing H lg ev" and "errors_silent ev"
  shows "lg (run_on_error H v e s) = lg s"
proof -
  have "lg (snd (fold (\<lambda>m (mv, s). snd (on_error H m mv e s)) ms q)) = lg (snd q)" for ms q
    by (induction ms arbitrary: q)
      (use assms(2) in \<open>auto simp: errors_silent_def lg_call(6) [OF assms(1)] split_def\<close>)
  then show ?thesis by (simp add: run_on_error_def)
qed

lemma call_handler_trace:
  assumes "tracing H lg ev" and "cores s v = Some c"
  shows "lg (snd (call_handler H h v s)) =
    lg s @ concat (map ev (handler_call (derives H) v (payload_cell c) h))"
  using assms(2)
  by (cases h) (auto simp: payload_as_def lg_call [OF assms(1)] split: option.splits)

lemma deliver_one_trace:
  assumes "tracing H lg ev" and "errors_silent ev" and "cores s v = Some c"
  shows "lg (deliver_one H v n e s) = lg s @
    (if entry_matches e n then concat (map ev (handler_call (derives H) v (payload_cell c) (handler e))) else [])"
proof (cases "entry_matches e n")
  case True
  let ?s = "meter (Inc listener_invocations (event_labels n)) s"
  have "lg (snd (call_handler H (handler e) v ?s)) =
      lg s @ concat (map ev (handler_call (derives H) v (payload_cell c) (handler e)))"
    using call_handler_trace [OF assms(1), of ?s v c] assms(3) lg_frame(1) [OF assms(1)] by simp
  then show ?thesis
    using True run_on_error_silent [OF assms(1,2)] lg_frame(1) [OF assms(1)]
    by (auto simp: deliver_one_def Let_def split: prod.splits option.splits)
qed (simp add: deliver_one_def)

lemma keeps_payloads_core:
  "keeps_payloads s s' \<Longrightarrow> cores s v = Some c \<Longrightarrow> \<exists>c'. cores s' v = Some c' \<and> payload_cell c' = payload_cell c"
  by (simp add: keeps_payloads_def)

lemma fanout_trace:
  assumes "tracing H lg ev" and "errors_silent ev" and "host_respects H keeps_payloads"
    and "cores s v = Some c"
  shows "lg (fold (deliver_one H v n) es s) = lg s @
    concat (map ev (concat (map (\<lambda>e. handler_call (derives H) v (payload_cell c) (handler e))
      (filter (\<lambda>e. entry_matches e n) es))))"
  using assms(4)
proof (induction es arbitrary: s c)
  case (Cons e es)
  obtain c' where c': "cores (deliver_one H v n e s) v = Some c'" "payload_cell c' = payload_cell c"
    using keeps_payloads_core [OF payloads.deliver_one_R [OF assms(3)] Cons.prems] by blast
  show ?case
    using Cons.IH [OF c'(1)] deliver_one_trace [OF assms(1,2) Cons.prems, of n e] c'(2) by simp
qed simp

lemma deliver_trace:
  assumes "tracing H lg ev" and "errors_silent ev" and "host_respects H keeps_payloads"
    and "cores s v = Some c"
  shows "lg (deliver_to_listeners H v s) =
    lg s @ concat (map ev (fanout_calls (derives H) v c (listeners s)))"
  using fanout_trace [OF assms, of "name_of v s" "listeners s"] assms(4)
  by (simp add: deliver_to_listeners_def fanout_calls_def name_of_def)

lemma run_before_trace:
  assumes "tracing H lg ev" and "errors_silent ev" and "no_rebind H"
    and "\<And>m s. fst (before_dispatch H m v s) = Inr False \<longleftrightarrow> veto m"
    and "run_before H ms v s = (p, v', s')"
  shows "v' = v \<and> p = (\<forall>m \<in> set ms. \<not> veto m) \<and> lg s' = lg s @ concat (map (\<lambda>m. ev (CBefore m v)) (asked veto ms))"
  using assms(5)
proof (induction ms arbitrary: s)
  case (Cons m ms)
  obtain r s1 where b: "before_dispatch H m v s = (r, v, s1)"
    using assms(3) unfolding no_rebind_def by (metis prod_cases3 fst_conv snd_conv)
  have l1: "lg s1 = lg s @ ev (CBefore m v)" using lg_call(4) [OF assms(1), of m v s] b by simp
  have veto: "veto m \<longleftrightarrow> r = Inr False" using assms(4) [of m s] b by simp
  show ?case
  proof (cases r)
    case (Inl ep)
    obtain x s2 where o: "on_error H m v ep s1 = (x, v, s2)"
      using assms(3) unfolding no_rebind_def by (metis prod_cases3 fst_conv snd_conv)
    have "lg s2 = lg s1" using lg_call(6) [OF assms(1), of m v ep s1] assms(2) o by (simp add: errors_silent_def)
    then show ?thesis using Cons b o Inl l1 veto by simp
  next
    case (Inr go)
    then show ?thesis using Cons b l1 veto lg_frame(1) [OF assms(1)] by (cases go) auto
  qed
qed simp

lemma run_after_trace:
  assumes "tracing H lg ev" and "errors_silent ev" and "no_rebind H"
    and "run_after H ms v s = (v', s')"
  shows "v' = v \<and> lg s' = lg s @ concat (map (\<lambda>m. ev (CAfter m v)) ms)"
  using assms(4)
proof (induction ms arbitrary: s)
  case (Cons m ms)
  obtain r s1 where a: "after_dispatch H m v s = (r, v, s1)"
    using assms(3) unfolding no_rebind_def by (metis prod_cases3 fst_conv snd_conv)
  have l1: "lg s1 = lg s @ ev (CAfter m v)" using lg_call(5) [OF assms(1), of m v s] a by simp
  show ?case
  proof (cases r)
    case None
    then show ?thesis using Cons a l1 by simp
  next
    case (Some ep)
    obtain x s2 where o: "on_error H m v ep s1 = (x, v, s2)"
      using assms(3) unfolding no_rebind_def by (metis prod_cases3 fst_conv snd_conv)
    have "lg s2 = lg s1" using lg_call(6) [OF assms(1), of m v ep s1] assms(2) o by (simp add: errors_silent_def)
    then show ?thesis using Cons a o Some l1 by simp
  qed
qed simp

lemma keeps_wiringD:
  assumes "keeps_wiring s s'"
  shows "keeps_payloads s s'" "transports s' = transports s" "middleware s' = middleware s" "listeners s' = listeners s"
  using assms by (simp_all add: keeps_wiring_def)

lemma begin_publish_frame:
  assumes "begin_publish H v s = (t, s1)"
  shows "middleware s1 = middleware s" "transports s1 = transports s" "listeners s1 = listeners s"
    "has_flag v f s1 = has_flag v f s" "bus.more s1 = bus.more s" "t = now H (clock s)"
    "cores s1 = (cores s)(v := map_option (\<lambda>c. c\<lparr>core_timestamps := (core_timestamps c)\<lparr>published_at := Some t\<rparr>\<rparr>) (cores s v))"
  using assms
  by (auto simp: begin_publish_def read_clock_def Let_def has_flag_def core_at_def update_timestamps_def
      split: option.splits)

text \<open>What \<^verbatim>\<open>publish\<close> does around the transports does not depend on how they dispatch.\<close>

lemma around_dispatch [simp]:
  "run_on_error (H\<lparr>t_dispatch := D\<rparr>) v e s = run_on_error H v e s"
  "call_handler (H\<lparr>t_dispatch := D\<rparr>) h v s = call_handler H h v s"
  "check_conflict (H\<lparr>t_dispatch := D\<rparr>) lo ro p v s = check_conflict H lo ro p v s"
  "begin_publish (H\<lparr>t_dispatch := D\<rparr>) v s = begin_publish H v s"
  "record_elapsed (H\<lparr>t_dispatch := D\<rparr>) n v s = record_elapsed H n v s"
  by (cases h; simp add: run_on_error_def check_conflict_def begin_publish_def record_elapsed_def read_clock_def
      cong: if_cong option.case_cong)+

lemma middleware_around_dispatch [simp]:
  "run_before (H\<lparr>t_dispatch := D\<rparr>) ms v s = run_before H ms v s"
  "run_after (H\<lparr>t_dispatch := D\<rparr>) ms v s = run_after H ms v s"
  by (induction ms arbitrary: v s) (simp_all split: prod.splits sum.splits option.splits bool.splits)

lemma deliver_around_dispatch [simp]:
  "deliver_to_listeners (H\<lparr>t_dispatch := D\<rparr>) v s = deliver_to_listeners H v s"
proof -
  have "deliver_one (H\<lparr>t_dispatch := D\<rparr>) v n = deliver_one H v n" for n
    by (intro ext) (simp add: deliver_one_def Let_def split: prod.splits option.splits)
  then show ?thesis by (simp add: deliver_to_listeners_def)
qed

lemma publish_observed_calls:
  "publish_observed ev (\<lambda>t. ev (CDispatch t v)) scope d veto v core ms ts es =
     concat (map ev (publish_calls scope d veto v core ms ts es))"
  by (simp add: publish_observed_def publish_calls_def Let_def comp_def)

context bus_relation
begin

lemma dispatch_all_via:
  assumes "tracing H lg ev" and "errors_silent ev" and "host_respects H R" and "R s0 s"
    and D: "\<And>t s'. t \<in> set ts \<Longrightarrow> R s0 s' \<Longrightarrow> R s0 (snd (D t v s')) \<and> lg (snd (D t v s')) = lg s' @ out t"
  shows "R s0 (fold (dispatch_one (H\<lparr>t_dispatch := D\<rparr>) lo ro v) ts s) \<and>
    lg (fold (dispatch_one (H\<lparr>t_dispatch := D\<rparr>) lo ro v) ts s) = lg s @ concat (map out
      (filter (\<lambda>t. (lo \<longrightarrow> t_scope H t = Local) \<and> (ro \<longrightarrow> t_scope H t = Remote)) ts))"
  using assms(4) D
proof (induction ts arbitrary: s)
  case (Cons t ts)
  let ?H = "H\<lparr>t_dispatch := D\<rparr>" and ?ok = "(lo \<longrightarrow> t_scope H t = Local) \<and> (ro \<longrightarrow> t_scope H t = Remote)"
  have "R s0 (dispatch_one ?H lo ro v t s) \<and> lg (dispatch_one ?H lo ro v t s) = lg s @ (if ?ok then out t else [])"
    using Cons.prems(1) Cons.prems(2) [of t s] run_on_error_silent [OF assms(1,2)] run_on_error_R [OF assms(3)]
    by (auto simp: dispatch_one_def Let_def intro: R_trans split: prod.splits option.splits)
  then show ?case using Cons.IH [of "dispatch_one ?H lo ro v t s"] Cons.prems(2) by simp
qed simp

lemma publish_via:
  assumes T: "tracing H lg ev" and E: "errors_silent ev" and N: "no_rebind H"
    and W: "host_respects H R" and K: "\<And>s s'. R s s' \<Longrightarrow> keeps_wiring s s'"
    and V: "\<And>m s. fst (before_dispatch H m v s) = Inr False \<longleftrightarrow> veto m"
    and C: "cores s v = Some core"
    and D: "\<And>t s'. t \<in> set (transports s) \<Longrightarrow> R s s' \<Longrightarrow> R s (snd (D t v s')) \<and> lg (snd (D t v s')) = lg s' @ out t"
  shows "R s (publish_impl (H\<lparr>t_dispatch := D\<rparr>) v s) \<and>
    lg (publish_impl (H\<lparr>t_dispatch := D\<rparr>) v s) = lg s @
      publish_observed ev out (t_scope H) (derives H) veto v core (middleware s) (transports s) (listeners s)"
proof -
  let ?lo = "has_flag v LocalOnly s" and ?ro = "has_flag v RemoteOnly s" and ?H = "H\<lparr>t_dispatch := D\<rparr>"
  obtain t s1 p v2 s2 p' s3 s4 v5 s5 where "begin_publish ?H v s = (t, s1)"
    "run_before ?H (pipeline v s1) v s1 = (p, v2, s2)" "check_conflict ?H ?lo ?ro p v2 s2 = (p', s3)"
    "s4 = (if p' then route ?H ?lo ?ro (transports s2) v2 s3 else s3)"
    "run_after ?H (rev (pipeline v s1)) v2 s4 = (v5, s5)" "publish_impl ?H v s = record_elapsed ?H t v5 s5"
    by (rule publish_impl_phases)
  then have ph: "begin_publish H v s = (t, s1)" "run_before H (pipeline v s1) v s1 = (p, v2, s2)"
    "check_conflict H ?lo ?ro p v2 s2 = (p', s3)" "s4 = (if p' then route ?H ?lo ?ro (transports s2) v2 s3 else s3)"
    "run_after H (rev (pipeline v s1)) v2 s4 = (v5, s5)" "publish_impl ?H v s = record_elapsed H t v5 s5"
    by simp_all
  have P: "host_respects H keeps_payloads"
    using W K by (auto simp: host_respects_def keeps_wiring_def)
  note f1 = begin_publish_frame [OF ph(1)]
  have mw: "pipeline v s1 = (if has_flag v NoMiddleware s then [] else middleware s)" by (simp add: pipeline_def f1)
  have r1: "R s s1" using begin_publish_R [of s H v] ph(1) by simp
  note tb = run_before_trace [OF T E N V ph(2)]
  have r2: "R s s2" using R_trans [OF r1 run_before_R [OF W, of s1 "pipeline v s1" v]] ph(2) by simp
  have r3: "R s s3" using R_trans [OF r2 check_conflict_R [OF W, of s2 ?lo ?ro p v2]] ph(3) by simp
  obtain c3 where c3: "cores s3 v = Some c3" "payload_cell c3 = payload_cell core"
    using keeps_payloads_core [OF keeps_wiringD(1) [OF K [OF r3]] C] by metis
  have l3: "lg s3 = lg s2" "p' = (p \<and> \<not> (?lo \<and> ?ro))"
    using ph(3) run_on_error_silent [OF T E] lg_frame(1) [OF T]
    by (auto simp: check_conflict_def Let_def split: if_splits)
  have "concat (map ev (fanout_calls (derives H) v c3 (listeners s3))) = concat (map ev (fanout_calls (derives H) v core (listeners s)))"
    using keeps_wiringD(4) [OF K [OF r3]] c3(2) by (simp add: fanout_calls_def env_name_def)
  then have l4: "R s s4 \<and> lg s4 = lg s3 @ (if \<not> p' then [] else
      if transports s = [] then (if ?ro then [] else concat (map ev (fanout_calls (derives H) v core (listeners s))))
      else concat (map out (filter (\<lambda>t. (?lo \<longrightarrow> t_scope H t = Local) \<and> (?ro \<longrightarrow> t_scope H t = Remote)) (transports s))))"
    using ph(4) l3(2) tb keeps_wiringD(2) [OF K [OF r2]] r3 deliver_trace [OF T E P c3(1)] R_trans [OF r3 deliver_R [OF W]]
      dispatch_all_via [where D = D and ts = "transports s" and v = v and out = out and lo = ?lo and ro = ?ro, OF T E W r3 D]
    by (auto simp: route_def)
  have r5: "R s (publish_impl ?H v s)"
    using R_trans [OF conjunct1 [OF l4] run_after_R [OF W, of s4 "rev (pipeline v s1)" v2]] ph(5,6) R_trans record_elapsed_R by auto
  have l5: "lg (publish_impl ?H v s) = lg s4 @ concat (map (\<lambda>m. ev (CAfter m v)) (rev (pipeline v s1)))"
    using run_after_trace [OF T E N ph(5) [unfolded conjunct1 [OF tb]]] lg_frame [OF T] ph(6)
    by (simp add: record_elapsed_def read_clock_def Let_def)
  have l1: "lg s1 = lg s" using T f1(5) unfolding tracing_def by (metis (no_types, lifting))
  have flags: "contains_flag (core_flags core) g = has_flag v g s" for g using C by (simp add: has_flag_def)
  show ?thesis
    using r5 tb l1 l4 unfolding publish_observed_def Let_def flags eligible_def l5 l3 by (auto simp: mw)
qed

end

lemma publish_trace_aux:
  fixes H :: "('f, 'm, 't, 'r, 'z) bus_host"
  assumes T: "tracing H lg ev" and E: "errors_silent ev" and N: "no_rebind H"
    and W: "host_respects H keeps_wiring"
    and V: "\<And>m s. fst (before_dispatch H m v s) = Inr False \<longleftrightarrow> veto m"
    and C: "cores s v = Some core"
  shows "lg (publish_impl H v s) = lg s @ concat (map ev
    (publish_calls (t_scope H) (derives H) veto v core (middleware s) (transports s) (listeners s)))"
proof -
  have "keeps_wiring s (snd (t_dispatch H t v s')) \<and> lg (snd (t_dispatch H t v s')) = lg s' @ ev (CDispatch t v)"
    if "keeps_wiring s s'" for t s'
    using W wiring.R_trans [OF that] lg_call(8) [OF T] by (auto simp: host_respects_def)
  then show ?thesis
    using wiring.publish_via [where D = "t_dispatch H" and out = "\<lambda>t. ev (CDispatch t v)", OF T E N W _ V C]
    by (simp add: publish_observed_calls)
qed

section \<open>The concrete host\<close>

lemma push_simps [simp]:
  "cores (push c s) = cores s" "transports (push c s) = transports s" "middleware (push c s) = middleware s"
  "listeners (push c s) = listeners s" "bus.more (push c s) = bus.more s @ [c]"
  "metrics (push c s) = metrics s" "next_id (push c s) = next_id s"
  by (simp_all add: push_def)

lemma trace_host_tracing: "tracing trace_host (\<lambda>s. bus.more s) (\<lambda>c. [c])"
  by (simp add: tracing_def trace_host_def)

lemma trace_host_quiet: "tracing trace_host quiet_trace quiet"
  by (simp add: tracing_def trace_host_def quiet_trace_def)

lemma quiet_errors_silent: "errors_silent quiet"
  by (simp add: errors_silent_def)

lemma trace_host_keeps:
  "no_rebind trace_host" "host_respects trace_host keeps_wiring" "host_respects trace_host keeps_cores"
  by (simp_all add: no_rebind_def host_respects_def trace_host_def keeps_wiring_def keeps_payloads_def keeps_cores_def)

lemma trace_host_veto: "fst (before_dispatch trace_host m v s) = Inr False \<longleftrightarrow> m = ''deny''"
  by (simp add: trace_host_def)

lemma example_bus_simps [simp]:
  "cores (example_bus fs ms ts es) 0 = Some (example_core\<lparr>core_flags := fs\<rparr>)"
  "middleware (example_bus fs ms ts es) = ms" "transports (example_bus fs ms ts es) = ts"
  "listeners (example_bus fs ms ts es) = es" "bus.more (example_bus fs ms ts es) = []"
  "clock (example_bus fs ms ts es) = 0" "metrics (example_bus fs ms ts es) = []"
  by (simp_all add: example_bus_def Bus_new_def)

section \<open>Properties\<close>

text \<open>
  C1: the dispatch pipeline. For every envelope, set of flags, middleware, transports and
  listeners, and whichever callbacks throw, the calls \<^verbatim>\<open>publish_impl\<close> makes (error
  callbacks apart) are exactly those of the specification: \<^verbatim>\<open>before_dispatch\<close> in order up to and
  including the first veto; unless vetoed or conflicting, one \<^verbatim>\<open>dispatch\<close> to each transport
  whose scope the flags allow, in order, or, with no transport at all, the inline fan-out
  (not for \<^verbatim>\<open>RemoteOnly\<close>); then \<^verbatim>\<open>after_dispatch\<close> of all middleware in reverse order, vetoed or
  not; and no middleware call under \<^verbatim>\<open>NoMiddleware\<close>.
\<close>

theorem publish_refines_calls:
  fixes H :: "('f, 'm, 't, 'r, 'z) bus_host"
  assumes "tracing H lg ev" and "errors_silent ev" and "no_rebind H" and "host_respects H keeps_wiring"
    and "\<And>m s. fst (before_dispatch H m v s) = Inr False \<longleftrightarrow> veto m"
    and "cores s v = Some core"
  shows "lg (publish_impl H v s) = lg s @ concat (map ev
    (publish_calls (t_scope H) (derives H) veto v core (middleware s) (transports s) (listeners s)))"
  using assms by (rule publish_trace_aux)

theorem publish_refines_calls_witness:
  "quiet_trace (publish_impl trace_host 0 (example_bus [''local_only''] [''log'', ''audit''] [''mqtt'', ''boom'', ''local''] [])) =
     [CBefore ''log'' 0, CBefore ''audit'' 0, CDispatch ''boom'' 0, CDispatch ''local'' 0,
      CAfter ''audit'' 0, CAfter ''log'' 0] \<and>
   quiet_trace (publish_impl trace_host 0 (example_bus [] [''log'', ''deny'', ''audit''] [''local''] [])) =
     [CBefore ''log'' 0, CBefore ''deny'' 0, CAfter ''audit'' 0, CAfter ''deny'' 0, CAfter ''log'' 0]"
proof -
  note r = publish_refines_calls [OF trace_host_quiet quiet_errors_silent trace_host_keeps(1,2) trace_host_veto
      example_bus_simps(1)]
  show ?thesis
    by (simp add: r) (simp add: publish_calls_def Let_def eligible_def quiet_trace_def trace_host_def)
qed

text \<open>
  C2: fan-out is over a snapshot. Each listener registered when delivery starts whose name
  or pattern matches is called exactly once, in container order, with the payload where the
  payload has its type, even when callbacks throw and even when they register or release
  listeners, transports or middleware meanwhile.
\<close>

theorem delivery_is_snapshot:
  fixes H :: "('f, 'm, 't, 'r, 'z) bus_host"
  assumes "tracing H lg ev" and "errors_silent ev" and "host_respects H keeps_payloads"
    and "cores s v = Some core"
  shows "lg (deliver_to_listeners H v s) =
    lg s @ concat (map ev (fanout_calls (derives H) v core (listeners s)))"
  using assms by (rule deliver_trace)

text \<open>A host whose handlers release the second listener when called.\<close>

theorem delivery_is_snapshot_witness:
  "quiet_trace (deliver_to_listeners
       (trace_host\<lparr>call_envelope := (\<lambda>f v s. (boom f, push (CEnvelope f v) (release 2 s)))\<rparr>) 0
       (example_bus [] [''log''] [] [example_entry 1 ''boom'' ''order.*'', example_entry 2 ''b'' ''order.created'',
          example_entry 3 ''c'' ''user.*'', example_entry 4 ''d'' ''**'']) ) =
     [CEnvelope ''boom'' 0, CEnvelope ''b'' 0, CEnvelope ''d'' 0]"
proof -
  let ?H = "trace_host\<lparr>call_envelope := (\<lambda>f v s. (boom f, push (CEnvelope f v) (release 2 s)))\<rparr>"
  have rel: "bus.more (release i s) = bus.more s" "cores (release i s) = cores s"
    for i and s :: "(string, string, string, descriptor list, trace) bus_scheme"
    by (simp_all add: release_def split: option.splits)
  have t: "tracing ?H quiet_trace quiet"
    using trace_host_quiet by (simp add: tracing_def quiet_trace_def rel)
  have k: "host_respects ?H keeps_payloads"
    using trace_host_keeps(2) by (simp add: host_respects_def keeps_wiring_def keeps_payloads_def rel)
  have n: "env_name (Some (example_core\<lparr>core_flags := []\<rparr>)) = ''order.created''"
    by (simp add: env_name_def example_core_def example_type_def event_cell_def kind_id_def)
  have m: "glob_match ''order.*'' ''order.created''" "\<not> glob_match ''user.*'' ''order.created''"
    "glob_match ''**'' ''order.created''"
    by code_simp+
  show ?thesis
    using delivery_is_snapshot [OF t quiet_errors_silent k example_bus_simps(1)]
    by (simp add: fanout_calls_def n m entry_matches_def example_entry_def quiet_trace_def)
qed

text \<open>
  An envelope flagged both \<^verbatim>\<open>LocalOnly\<close> and \<^verbatim>\<open>RemoteOnly\<close> is dropped with the conflict
  reported to \<^verbatim>\<open>on_error\<close> of every registered middleware, and these are the only calls made
  under \<^verbatim>\<open>NoMiddleware\<close>: that flag skips \<^verbatim>\<open>before_dispatch\<close> and \<^verbatim>\<open>after_dispatch\<close> but not the error
  hook.
\<close>

theorem conflict_reaches_every_middleware:
  fixes H :: "('f, 'm, 't, 'r, 'z) bus_host"
  assumes "tracing H lg ev" and "no_rebind H"
    and "has_flag v LocalOnly s" and "has_flag v RemoteOnly s" and "has_flag v NoMiddleware s"
  shows "lg (publish_impl H v s) = lg s @ concat (map (\<lambda>m. ev (COnError m v conflict_error)) (middleware s))"
proof -
  obtain t s1 where b: "begin_publish H v s = (t, s1)" by fastforce
  note f1 = begin_publish_frame [OF b]
  have l1: "lg s1 = lg s" using assms(1) f1(5) unfolding tracing_def by (metis (no_types, lifting))
  have "pipeline v s1 = []" using f1(4) assms(5) by (simp add: pipeline_def)
  then show ?thesis
    using assms(3,4) b l1 f1(1) run_on_error_trace [OF assms(1,2), of v conflict_error s1] lg_frame [OF assms(1)]
    by (simp add: publish_impl_def Let_def check_conflict_def record_elapsed_def read_clock_def
        pipeline_def has_flag_def split: if_splits)
qed

theorem conflict_reaches_every_middleware_witness:
  "bus.more (publish_impl trace_host 0
     (example_bus [''no_middleware'', ''remote_only'', ''local_only''] [''log'', ''audit''] [''local''] [])) =
   [COnError ''log'' 0 conflict_error, COnError ''audit'' 0 conflict_error]"
proof -
  let ?s = "example_bus [''no_middleware'', ''remote_only'', ''local_only''] [''log'', ''audit''] [''local''] []"
  have "has_flag 0 LocalOnly ?s" "has_flag 0 RemoteOnly ?s" "has_flag 0 NoMiddleware ?s"
    by (simp_all add: has_flag_def)
  from conflict_reaches_every_middleware [OF trace_host_tracing trace_host_keeps(1) this] show ?thesis by simp
qed

text \<open>
  Publishing stamps the core that all copies of the envelope share: afterwards the
  envelope's \<open>published_at\<close> is the clock reading taken at entry, and neither another field of it
  nor another envelope has changed, as long as the callbacks themselves write to none.
\<close>

theorem publish_stamps_shared_core:
  fixes H :: "('f, 'm, 't, 'r, 'z) bus_host"
  assumes "host_respects H keeps_cores" and "cores s v = Some core"
  shows "cores (publish_impl H v s) = (cores s)(v \<mapsto> core\<lparr>core_timestamps :=
    (core_timestamps core)\<lparr>published_at := Some (now H (clock s))\<rparr>\<rparr>)"
proof -
  obtain t s1 where b: "begin_publish H v s = (t, s1)" by fastforce
  have "cores (publish_impl H v s) = cores s1"
    using heap.publish_after_begin_R [OF assms(1) b] by (simp add: keeps_cores_def)
  then show ?thesis using begin_publish_frame(6,7) [OF b] assms(2) by simp
qed

theorem publish_stamps_shared_core_witness:
  "published_at (core_timestamps (core_at 0 (publish_impl trace_host 0 (example_bus [] [''deny''] [] [])))) = Some 0"
  using publish_stamps_shared_core [OF trace_host_keeps(3) example_bus_simps(1)]
  by (simp add: core_at_def trace_host_def)

end
