(* ===== verification/Identity.thy ===== *)
theory Identity
  imports Prelude "HOL-Library.Word" "HOL-Library.Multiset"
begin

text \<open>
  The interface of a container that numbers its entries with a 64-bit counter: the bus's
  listeners and the relay's routes. The counter wraps around after \<open>2\<^sup>6\<^sup>4\<close> registrations; up to
  there ids are fresh and never issued twice.
\<close>

definition ids_ok :: "64 word list \<Rightarrow> 64 word \<Rightarrow> bool" where
  "ids_ok is c \<longleftrightarrow> distinct is \<and> (\<forall>i \<in> set is. 0 < i \<and> i \<le> c)"

lemma word_less_succ: "c < (- 1 :: 64 word) \<Longrightarrow> c < c + 1"
proof -
  assume "c < - 1"
  then have "1 + c \<noteq> 0" using max_word_wrap [of c] by (auto simp: add.commute)
  then have "unat (c + 1) = Suc (unat c)" by (simp add: unatSuc add.commute)
  then show ?thesis by (simp add: word_less_nat_alt)
qed

lemma word_less_of_unat:
  assumes "unat c + Suc n < 2 ^ 64"
  shows "c < (- 1 :: 64 word)" and "unat (c + 1) + n < 2 ^ 64"
proof -
  have "c \<noteq> - 1" using assms by (auto simp: unsigned_minus_1_eq_mask mask_eq_exp_minus_1)
  then show "c < - 1" by (simp add: word_order.not_eq_extremum [symmetric])
  have "unat (c + 1) = unat c + 1" using assms by (simp add: unat_word_ariths)
  then show "unat (c + 1) + n < 2 ^ 64" using assms by simp
qed

locale id_registry =
  fixes ids :: "'s \<Rightarrow> 64 word list"
    and counter :: "'s \<Rightarrow> 64 word"
    and add :: "'x \<Rightarrow> 's \<Rightarrow> 64 word \<times> 's"
    and del :: "64 word \<Rightarrow> 's \<Rightarrow> 's"
    and lawful :: "'s \<Rightarrow> bool"
  assumes add_counter: "add x s = (i, s') \<Longrightarrow> i = counter s + 1 \<and> counter s' = counter s + 1"
    and add_ids: "lawful s \<Longrightarrow> add x s = (i, s') \<Longrightarrow> i \<notin> set (ids s) \<Longrightarrow>
          mset (ids s') = add_mset i (mset (ids s)) \<and> lawful s'"
    and del_ids: "ids (del i s) = remove1 i (ids s)"
    and del_counter: "counter (del i s) = counter s"
    and del_lawful: "lawful s \<Longrightarrow> lawful (del i s)"
begin

lemma add_fresh:
  assumes "ids_ok (ids s) (counter s)" and "counter s < - 1" and "add x s = (i, s')"
  shows "counter s < i" and "i \<notin> set (ids s)"
proof -
  show lt: "counter s < i" using add_counter [OF assms(3)] word_less_succ [OF assms(2)] by simp
  show "i \<notin> set (ids s)" using assms(1) lt by (auto simp: ids_ok_def)
qed

lemma add_ok:
  assumes "lawful s" and "ids_ok (ids s) (counter s)" and "counter s < - 1" and "add x s = (i, s')"
  shows "set (ids s') = insert i (set (ids s)) \<and> ids_ok (ids s') (counter s') \<and> lawful s'"
proof -
  note f = add_fresh [OF assms(2-4)]
  have m: "mset (ids s') = mset (i # ids s)" and l: "lawful s'" using add_ids [OF assms(1,4) f(2)] by auto
  have s: "set (ids s') = insert i (set (ids s))" using mset_eq_setD [OF m] by simp
  have "distinct (ids s')" using mset_eq_imp_distinct_iff [OF m] assms(2) f(2) by (simp add: ids_ok_def)
  moreover have "counter s' = i" using add_counter [OF assms(4)] by simp
  moreover have "0 < i" using f(1) word_gt_0 by fastforce
  ultimately show ?thesis using s l assms(2) f(1) by (auto simp: ids_ok_def)
qed

lemma del_ok:
  assumes "ids_ok (ids s) (counter s)"
  shows "set (ids (del i s)) = set (ids s) - {i} \<and> ids_ok (ids (del i s)) (counter (del i s))"
  using assms by (auto simp: ids_ok_def del_ids del_counter)

lemma never_reissued:
  assumes "i \<le> counter s" and "counter s < - 1" and "add x s = (j, s')"
  shows "j \<noteq> i \<and> i \<le> counter s'"
  using add_counter [OF assms(3)] word_less_succ [OF assms(2)] assms(1) by auto

end

end
