(* ===== verification/BusRegistration.thy ===== *)
theory BusRegistration
  imports BusDispatch Identity
begin

text \<open>
  The listener table of the bus: fresh ids, order of delivery, the \<^verbatim>\<open>conduit_listeners\<close> gauge,
  the RAII handles, registration of event types, and the bus's lifecycle. The table
  interprets \<open>id_registry\<close> and provides the \<open>subscription_backref\<close> of the handles.
\<close>

section \<open>Definitions\<close>

text \<open>
  \<^verbatim>\<open>PrioritizedSet::insert\<close> of an element that is not in the set: behind every element of
  smaller or equal priority, as the priority tests document (lower first, insertion order
  among equals).
\<close>

definition prioritized_law :: "('f, 'm, 't, 'r, 'z) bus_host \<Rightarrow> bool" where
  "prioritized_law H \<longleftrightarrow>
     (\<forall>p e es. entry_id e \<notin> entry_id ` set es \<longrightarrow> sorted (map listener_priority es) \<longrightarrow>
        insert_listener H p e es =
          takeWhile (\<lambda>x. listener_priority x \<le> p) es @ e # dropWhile (\<lambda>x. listener_priority x \<le> p) es)"

text \<open>Delivery order: by priority, then by registration.\<close>

definition delivered_before :: "'f ListenerEntry \<Rightarrow> 'f ListenerEntry \<Rightarrow> bool" where
  "delivered_before a b \<longleftrightarrow> listener_priority a < listener_priority b \<or>
     listener_priority a = listener_priority b \<and> entry_id a < entry_id b"

text \<open>Listeners registered under a name or pattern, and what the gauge shows for it.\<close>

definition registered_under :: "string \<Rightarrow> 'f ListenerEntry list \<Rightarrow> nat" where
  "registered_under n es = length (filter (\<lambda>e. name_or_pattern e = n) es)"

definition gauge :: "string \<Rightarrow> ('f, 'm, 't, 'r, 'z) bus_scheme \<Rightarrow> int" where
  "gauge n s = series_value listeners_gauge (event_labels n) (metrics s)"

text \<open>
  The invariant of the table, with \<open>g0\<close> the gauge's share of the other buses of the process.
\<close>

definition listeners_ok :: "(string \<Rightarrow> int) \<Rightarrow> ('f, 'm, 't, 'r, 'z) bus_scheme \<Rightarrow> bool" where
  "listeners_ok g0 s \<longleftrightarrow>
     ids_ok (map entry_id (listeners s)) (next_id s) \<and>
     sorted_wrt delivered_before (listeners s) \<and>
     (\<forall>n. gauge n s = g0 n + int (registered_under n (listeners s)))"

definition keeps_listeners_ok ::
  "('f, 'm, 't, 'r, 'z) bus_scheme \<Rightarrow> ('f, 'm, 't, 'r, 'z) bus_scheme \<Rightarrow> bool" where
  "keeps_listeners_ok s s' \<longleftrightarrow> (\<forall>g0. listeners_ok g0 s \<longrightarrow> listeners_ok g0 s')"

text \<open>The public operations of the bus as steps, in any order and number.\<close>

inductive bus_step ::
  "('f, 'm, 't, 'r, 'z) bus_host \<Rightarrow> ('f, 'm, 't, 'r, 'z) bus_scheme \<Rightarrow>
     ('f, 'm, 't, 'r, 'z) bus_scheme \<Rightarrow> bool" for H where
  step_listen: "next_id s < - 1 \<Longrightarrow> bus_step H s (snd (listen_typed H T f p s))"
| step_listen_listener: "next_id s < - 1 \<Longrightarrow> bus_step H s (snd (listen_listener H T f s))"
| step_listen_pattern: "next_id s < - 1 \<Longrightarrow> bus_step H s (snd (listen_pattern H pat f p s))"
| step_release: "bus_step H s (release i s)"
| step_publish: "bus_step H s (publish_impl H v s)"
| step_publish_builder: "bus_step H s (publish_builder H b s)"
| step_deliver: "bus_step H s (deliver_to_listeners H v s)"
| step_report: "bus_step H s (report_transport_error H n ep s)"
| step_register: "bus_step H s (register_event H T s)"
| step_use_middleware: "bus_step H s (use_middleware H m s)"
| step_use_transport: "bus_step H s (snd (use_transport H t s))"
| step_drain: "bus_step H s (snd (drain H s))"
| step_shutdown: "bus_step H s (shutdown H s)"

inductive_cases bus_stepE: "bus_step H s s'"

text \<open>The insertion the law describes, and the table seen through \<open>id_registry\<close>.\<close>

definition stable_insert :: "'f ListenerEntry \<Rightarrow> 'f ListenerEntry list \<Rightarrow> 'f ListenerEntry list" where
  "stable_insert e es = takeWhile (\<lambda>x. listener_priority x \<le> listener_priority e) es @
     e # dropWhile (\<lambda>x. listener_priority x \<le> listener_priority e) es"

type_synonym ('f, 'm, 't, 'r, 'z) table = "('f, 'm, 't, 'r, 'z) bus_host \<times> ('f, 'm, 't, 'r, 'z) bus_scheme"

fun table_ids :: "('f, 'm, 't, 'r, 'z) table \<Rightarrow> SubscriptionId list" where
  "table_ids (H, s) = map entry_id (listeners s)"

fun table_counter :: "('f, 'm, 't, 'r, 'z) table \<Rightarrow> SubscriptionId" where
  "table_counter (H, s) = next_id s"

fun table_add :: "string \<times> 'f wrapped \<times> bool \<times> int \<Rightarrow> ('f, 'm, 't, 'r, 'z) table \<Rightarrow>
    SubscriptionId \<times> ('f, 'm, 't, 'r, 'z) table" where
  "table_add (n, h, pat, p) (H, s) =
     (case register_listener_for_name H n h pat p s of (sub, s') \<Rightarrow> (sub_id sub, (H, s')))"

fun table_del :: "SubscriptionId \<Rightarrow> ('f, 'm, 't, 'r, 'z) table \<Rightarrow> ('f, 'm, 't, 'r, 'z) table" where
  "table_del i (H, s) = (H, release i s)"

fun table_lawful :: "('f, 'm, 't, 'r, 'z) table \<Rightarrow> bool" where
  "table_lawful (H, s) = (prioritized_law H \<and> sorted (map listener_priority (listeners s)))"

definition live :: "('f, 'm, 't, 'r, 'z) bus_scheme \<Rightarrow> SubscriptionId set" where
  "live s = entry_id ` set (listeners s)"

definition ids_distinct :: "('f, 'm, 't, 'r, 'z) bus_scheme \<Rightarrow> bool" where
  "ids_distinct s \<longleftrightarrow> distinct (map entry_id (listeners s))"

section \<open>The table as a numbered container\<close>

lemma erase_first_remove1: "map entry_id (erase_first i es) = remove1 i (map entry_id es)"
  by (induction es) auto

lemma release_listeners: "listeners (release i s) = erase_first i (listeners s)"
proof -
  have "find (\<lambda>e. entry_id e = i) es = None \<Longrightarrow> erase_first i es = es" for es :: "'f ListenerEntry list"
    by (induction es) (auto split: if_splits)
  from this [of "listeners s"] show ?thesis by (auto simp: release_def split: option.splits)
qed

lemma release_next_id [simp]: "next_id (release i s) = next_id s"
  by (simp add: release_def split: option.splits)

lemma subseq_erase_first: "subseq (erase_first i es) es"
  by (induction es) auto

lemma sorted_wrt_subseq: "subseq xs ys \<Longrightarrow> sorted_wrt P ys \<Longrightarrow> sorted_wrt P xs"
  by (induction rule: list_emb.induct) (auto dest: list_emb_set)

lemma sorted_priorities:
  "sorted_wrt delivered_before es \<Longrightarrow> sorted (map listener_priority es)"
  by (induction es) (auto simp: delivered_before_def)

lemma register_effect:
  assumes "register_listener_for_name H n h pat p s = (sub, s')"
  shows "sub = subscription_new (next_id s + 1)" "next_id s' = next_id s + 1"
    "listeners s' = insert_listener H p \<lparr>entry_id = next_id s + 1, handler = h, name_or_pattern = n,
       is_pattern = pat, listener_priority = p\<rparr> (listeners s)"
    "metrics s' = metrics s @ [Inc listeners_gauge (event_labels n)]"
    "registry s' = registry s" "cores s' = cores s" "bus.more s' = bus.more s"
  using assms
  by (auto simp: register_listener_for_name_def Let_def shared_from_this_safe_def split: if_splits)

lemma register_lawful:
  assumes "register_listener_for_name H n h pat p s = (sub, s')"
    and "prioritized_law H" and "sorted (map listener_priority (listeners s))"
    and "next_id s + 1 \<notin> set (map entry_id (listeners s))"
  shows "listeners s' = stable_insert \<lparr>entry_id = next_id s + 1, handler = h, name_or_pattern = n,
       is_pattern = pat, listener_priority = p\<rparr> (listeners s)"
  using assms(2-4) unfolding prioritized_law_def
  by (simp add: register_effect(3) [OF assms(1)] stable_insert_def)

lemma mset_stable_insert: "mset (stable_insert e es) = add_mset e (mset es)"
proof -
  let ?P = "\<lambda>x. listener_priority x \<le> listener_priority e"
  have "mset es = mset (takeWhile ?P es) + mset (dropWhile ?P es)"
    by (metis mset_append takeWhile_dropWhile_id)
  then show ?thesis by (simp add: stable_insert_def)
qed

lemma set_stable_insert: "set (stable_insert e es) = insert e (set es)"
  using arg_cong [OF mset_stable_insert [of e es], of set_mset] by simp

lemma dropWhile_above:
  "sorted (map listener_priority es) \<Longrightarrow> x \<in> set (dropWhile (\<lambda>x. listener_priority x \<le> p) es) \<Longrightarrow> p < listener_priority x"
  by (induction es) (auto split: if_splits)

lemma sorted_stable_insert:
  assumes "sorted (map listener_priority es)"
  shows "sorted (map listener_priority (stable_insert e es))"
proof -
  let ?a = "takeWhile (\<lambda>x. listener_priority x \<le> listener_priority e) es"
  let ?b = "dropWhile (\<lambda>x. listener_priority x \<le> listener_priority e) es"
  have "sorted (map listener_priority ?a @ map listener_priority ?b)"
    using assms by (simp flip: map_append)
  then show ?thesis
    using dropWhile_above [OF assms] set_takeWhileD [of _ _ es]
    by (fastforce simp: stable_insert_def sorted_append)
qed

lemma order_stable_insert:
  assumes "sorted_wrt delivered_before es" and "\<And>x. x \<in> set es \<Longrightarrow> entry_id x < entry_id e"
  shows "sorted_wrt delivered_before (stable_insert e es)"
proof -
  let ?a = "takeWhile (\<lambda>x. listener_priority x \<le> listener_priority e) es"
  let ?b = "dropWhile (\<lambda>x. listener_priority x \<le> listener_priority e) es"
  have "sorted_wrt delivered_before (?a @ ?b)" using assms(1) by simp
  then have ab: "sorted_wrt delivered_before ?a" "sorted_wrt delivered_before ?b"
    "\<forall>x \<in> set ?a. \<forall>y \<in> set ?b. delivered_before x y"
    unfolding sorted_wrt_append by blast+
  have "delivered_before x e" if "x \<in> set ?a" for x
    using set_takeWhileD [OF that] assms(2) by (auto simp: delivered_before_def)
  moreover have "delivered_before e x" if "x \<in> set ?b" for x
    using dropWhile_above [OF sorted_priorities [OF assms(1)] that] by (simp add: delivered_before_def)
  ultimately show ?thesis using ab by (simp add: stable_insert_def sorted_wrt_append)
qed

interpretation bus_ids: id_registry table_ids table_counter table_add table_del table_lawful
proof (unfold_locales, goal_cases)
  case (1 x s i s')
  obtain n h pat p H t where xs: "x = (n, h, pat, p)" "s = (H, t)" by (metis prod_cases4 surj_pair)
  obtain sub t' where r: "register_listener_for_name H n h pat p t = (sub, t')" by fastforce
  show ?case using 1 xs r register_effect(1,2) [OF r] by (auto simp: subscription_new_def)
next
  case (2 s x i s')
  obtain n h pat p H t where xs: "x = (n, h, pat, p)" "s = (H, t)" by (metis prod_cases4 surj_pair)
  obtain sub t' where r: "register_listener_for_name H n h pat p t = (sub, t')" by fastforce
  have i: "i = next_id t + 1" "s' = (H, t')"
    using 2 xs r register_effect(1) [OF r] by (simp_all add: subscription_new_def)
  have l: "listeners t' = stable_insert \<lparr>entry_id = i, handler = h, name_or_pattern = n,
       is_pattern = pat, listener_priority = p\<rparr> (listeners t)"
    using register_lawful [OF r] 2 xs i by simp
  have "mset (map entry_id (listeners t')) = image_mset entry_id (mset (listeners t'))" by simp
  also have "\<dots> = add_mset i (mset (map entry_id (listeners t)))" by (simp add: l mset_stable_insert)
  finally show ?case using 2 xs i l by (simp add: sorted_stable_insert)
next
  case (3 i s)
  then show ?case by (cases s) (simp add: release_listeners erase_first_remove1)
next
  case (4 i s)
  then show ?case by (cases s) simp
next
  case (5 s i)
  obtain H t where "s = (H, t)" by fastforce
  then show ?case
    using 5 by (auto simp: release_listeners intro: sorted_wrt_subseq [OF subseq_map [OF subseq_erase_first]])
qed

section \<open>The invariant of the table\<close>

lemma registered_under_simps [simp]:
  "registered_under n [] = 0"
  "registered_under n (e # es) = (if name_or_pattern e = n then 1 else 0) + registered_under n es"
  "registered_under n (es @ fs) = registered_under n es + registered_under n fs"
  by (simp_all add: registered_under_def)

lemma registered_under_stable_insert:
  "registered_under n (stable_insert e es) = (if name_or_pattern e = n then 1 else 0) + registered_under n es"
  for es :: "'f ListenerEntry list"
proof -
  have "registered_under n es = size (filter_mset (\<lambda>e. name_or_pattern e = n) (mset es))" for es :: "'f ListenerEntry list"
    by (metis mset_filter registered_under_def size_mset)
  then show ?thesis by (simp add: mset_stable_insert)
qed

lemma registered_under_erase:
  "find (\<lambda>e. entry_id e = i) es = Some e \<Longrightarrow>
   registered_under n es = (if name_or_pattern e = n then 1 else 0) + registered_under n (erase_first i es)"
  by (induction es) (auto split: if_splits)

lemma event_labels_inj [simp]: "event_labels a = event_labels b \<longleftrightarrow> a = b"
  by (simp add: event_labels_def)

lemma listeners_ok_cong:
  "listeners s' = listeners s \<Longrightarrow> next_id s' = next_id s \<Longrightarrow> (\<And>n. gauge n s' = gauge n s) \<Longrightarrow>
   listeners_ok g0 s \<Longrightarrow> listeners_ok g0 s'"
  by (simp add: listeners_ok_def)

lemma keeps_listeners_okI:
  "listeners s' = listeners s \<Longrightarrow> next_id s' = next_id s \<Longrightarrow> metrics s' = metrics s \<Longrightarrow> keeps_listeners_ok s s'"
  unfolding keeps_listeners_ok_def by (auto intro: listeners_ok_cong simp: gauge_def)

lemma keeps_listeners_ok_refl: "keeps_listeners_ok s s"
  and keeps_listeners_ok_trans: "keeps_listeners_ok s s' \<Longrightarrow> keeps_listeners_ok s' s'' \<Longrightarrow> keeps_listeners_ok s s''"
  by (simp_all add: keeps_listeners_ok_def)

interpretation table_frame: bus_relation keeps_listeners_ok
proof (unfold_locales, goal_cases)
  case (3 c s)
  then have "gauge n (meter c s) = gauge n s" for n
    by (cases c) (auto simp: gauge_def)
  then show ?case unfolding keeps_listeners_ok_def by (auto intro: listeners_ok_cong)
next
  case (2 s s' s'')
  then show ?case by (rule keeps_listeners_ok_trans)
qed (auto intro: keeps_listeners_ok_refl keeps_listeners_okI simp: update_timestamps_def)

lemma register_keeps:
  assumes "prioritized_law H" and "next_id s < - 1"
    and "register_listener_for_name H n h pat p s = (sub, s')"
  shows "keeps_listeners_ok s s'"
  unfolding keeps_listeners_ok_def
proof (intro allI impI)
  fix g0 assume ok: "listeners_ok g0 s"
  let ?e = "\<lparr>entry_id = next_id s + 1, handler = h, name_or_pattern = n, is_pattern = pat, listener_priority = p\<rparr>"
  have ids: "ids_ok (map entry_id (listeners s)) (next_id s)" and ord: "sorted_wrt delivered_before (listeners s)"
    using ok by (auto simp: listeners_ok_def)
  have add: "table_add (n, h, pat, p) (H, s) = (next_id s + 1, (H, s'))"
    using assms(3) register_effect(1) [OF assms(3)] by (simp add: subscription_new_def)
  have law: "table_lawful (H, s)" using assms(1) sorted_priorities [OF ord] by simp
  have fresh: "next_id s + 1 \<notin> set (map entry_id (listeners s))"
    using bus_ids.add_fresh(2) [OF _ _ add] ids assms(2) by simp
  have ids': "ids_ok (map entry_id (listeners s')) (next_id s')"
    using bus_ids.add_ok [OF law _ _ add] ids assms(2) by simp
  have l: "listeners s' = stable_insert ?e (listeners s)"
    using register_lawful [OF assms(3,1) sorted_priorities [OF ord] fresh] .
  have "sorted_wrt delivered_before (listeners s')"
    unfolding l using ids word_less_succ [OF assms(2)]
    by (intro order_stable_insert [OF ord]) (auto simp: ids_ok_def)
  moreover have "gauge k s' = g0 k + int (registered_under k (listeners s'))" for k
    using ok by (simp add: l registered_under_stable_insert gauge_def register_effect(4) [OF assms(3)] listeners_ok_def)
  ultimately show "listeners_ok g0 s'" using ids' by (simp add: listeners_ok_def)
qed

lemma release_keeps: "keeps_listeners_ok s (release i s)"
  unfolding keeps_listeners_ok_def
proof (intro allI impI)
  fix g0 assume ok: "listeners_ok g0 s"
  have "ids_ok (map entry_id (listeners (release i s))) (next_id (release i s))"
    using ok by (auto simp: listeners_ok_def ids_ok_def release_listeners erase_first_remove1 dest: notin_set_remove1)
  moreover have "sorted_wrt delivered_before (listeners (release i s))"
    using ok sorted_wrt_subseq [OF subseq_erase_first] by (auto simp: listeners_ok_def release_listeners)
  moreover have "gauge n (release i s) = g0 n + int (registered_under n (listeners (release i s)))" for n
    using ok registered_under_erase [of i "listeners s" _ n]
    by (auto simp: listeners_ok_def gauge_def release_def split: option.splits)
  ultimately show "listeners_ok g0 (release i s)" by (simp add: listeners_ok_def)
qed

text \<open>
  A relation between tables that every change of the table keeps: registering a handler the relation
  \<open>admits\<close> under a name, and releasing one. Then every public operation of the bus keeps it, and so does
  every sequence of them.
\<close>

locale bus_table_relation = bus_relation R
  for R :: "('f, 'm, 't, 'r, 'z) bus_scheme \<Rightarrow> ('f, 'm, 't, 'r, 'z) bus_scheme \<Rightarrow> bool" +
  fixes admits :: "string \<Rightarrow> 'f wrapped \<Rightarrow> bool \<Rightarrow> bool"
  assumes R_same: "listeners s' = listeners s \<Longrightarrow> next_id s' = next_id s \<Longrightarrow> metrics s' = metrics s \<Longrightarrow> R s s'"
    and R_register: "prioritized_law H \<Longrightarrow> next_id s < - 1 \<Longrightarrow> admits n h q \<Longrightarrow>
          register_listener_for_name H n h q p s = (sub, s') \<Longrightarrow> R s s'"
    and R_release: "R s (release i s)"
    and admits_typed: "admits (event_name_v T) (WrapPayload T f) False"
          "admits (event_name_v T) (WrapListener T f) False" "admits (event_name_v T) (WrapEnvelope f) False"
    and admits_pattern: "admits pat (WrapEnvelope f) (List.member pat (CHR ''*''))"
begin

lemma flush_R: "host_respects H R \<Longrightarrow> R s (snd (t_flush H t s))"
  and detach_R: "host_respects H R \<Longrightarrow> R s (t_detach H t s)"
  by (simp_all add: host_respects_def)

lemma drain_R: "host_respects H R \<Longrightarrow> R s (snd (drain_loop H ts s))"
proof (induction ts arbitrary: s)
  case (Cons t ts)
  then show ?case
    using flush_R [OF Cons.prems, of s t] by (auto split: prod.splits option.splits intro: R_trans)
qed (simp add: R_refl)

lemma shutdown_R:
  assumes "host_respects H R"
  shows "R s (shutdown H s)"
proof -
  have f: "R t (fold (\<lambda>x s. t_detach H x (snd (t_flush H x s))) ts t)" for ts t
    by (rule R_fold) (rule R_trans [OF flush_R [OF assms] detach_R [OF assms]])
  have "R s (s\<lparr>shutdown_flag := True, transports := []\<rparr>)" by (rule R_same) simp_all
  then show ?thesis by (auto simp: shutdown_def Let_def R_refl intro: R_trans [OF _ f])
qed

lemma register_event_R: "R s (register_event H T s)"
  by (rule R_same) (simp_all add: register_event_def)

lemma build_R: "build g now' b s = (v, s') \<Longrightarrow> R s s'"
  by (rule R_same) (auto simp: build_def alloc_core_def read_clock_def Let_def split: if_splits)

lemma publish_builder_R:
  assumes "host_respects H R"
  shows "R s (publish_builder H b s)"
proof -
  let ?s = "register_event H (builder_type b) s"
  obtain v s1 where 1: "build (generate_ulid H (heap_next ?s)) (now H) b ?s = (v, s1)" by fastforce
  have "R s s1" by (rule R_trans [OF register_event_R build_R [OF 1]])
  then show ?thesis
    using 1 by (auto simp: publish_builder_def Let_def intro: R_trans publish_impl_R [OF assms])
qed

lemma admits_wrap: "admits (event_name_v T) (wrap_typed_handler H T f) False"
  by (simp add: wrap_typed_handler_def admits_typed)

lemma listen_R:
  assumes "prioritized_law H" and "next_id s < - 1"
  shows "R s (snd (listen_typed H T f p s))" and "R s (snd (listen_listener H T f s))"
    and "R s (snd (listen_pattern H pat f p s))"
proof -
  have n: "next_id (register_event H T s) = next_id s" by (simp add: register_event_def)
  have r: "R t (snd (register_listener_for_name H n h q p t))" if "next_id t < - 1" "admits n h q" for n h q p t
    using R_register [OF assms(1) that] by (metis prod.collapse)
  have e: "R s (snd (register_listener_for_name H n h q p (register_event H T s)))" if "admits n h q" for n h q p
    by (rule R_trans [OF register_event_R r [OF _ that]]) (simp add: n assms(2))
  show "R s (snd (listen_typed H T f p s))" "R s (snd (listen_listener H T f s))"
    by (simp_all add: listen_typed_def listen_listener_def Let_def e admits_wrap admits_typed)
  show "R s (snd (listen_pattern H pat f p s))"
    unfolding listen_pattern_def by (rule r [OF assms(2) admits_pattern])
qed

lemma use_transport_R:
  assumes "R s (snd (t_attach H t s))"
  shows "R s (snd (use_transport H t s))"
  using assms by (auto simp: use_transport_def split: prod.splits option.splits intro: R_trans [OF _ R_same])

lemma bus_step_R:
  assumes "host_respects H R" and "\<And>t s. R s (snd (t_attach H t s))" and "prioritized_law H" and "bus_step H s s'"
  shows "R s s'"
  using assms(4)
proof (cases rule: bus_step.cases)
  case (step_use_middleware m)
  then show ?thesis by (simp add: R_same use_middleware_def)
next
  case (step_drain)
  then show ?thesis using drain_R [OF assms(1)] by (simp add: drain_def)
qed (simp_all add: register_event_R R_release listen_R [OF assms(3)] publish_impl_R [OF assms(1)]
    publish_builder_R [OF assms(1)] deliver_R [OF assms(1)] report_R [OF assms(1)]
    use_transport_R [OF assms(2)] shutdown_R [OF assms(1)])

lemma bus_steps_R:
  assumes "host_respects H R" and "\<And>t s. R s (snd (t_attach H t s))" and "prioritized_law H" and "(bus_step H)\<^sup>*\<^sup>* s s'"
  shows "R s s'"
  using assms(4)
  by (induction rule: rtranclp_induct) (auto intro: R_refl R_trans bus_step_R [OF assms(1-3)])

end

interpretation table: bus_table_relation keeps_listeners_ok "\<lambda>n h pat. True"
  by unfold_locales (auto intro: keeps_listeners_okI register_keeps release_keeps)

lemma Bus_new_ok: "listeners_ok (\<lambda>n. 0) (Bus_new P reg z)"
  by (simp add: listeners_ok_def Bus_new_def ids_ok_def gauge_def)

lemma fold_gauge_dec:
  "gauge n (fold (\<lambda>e. meter (Dec listeners_gauge (event_labels (name_or_pattern e)))) es s) =
     gauge n s - int (registered_under n es)"
  by (induction es arbitrary: s) (auto simp: gauge_def)

section \<open>Handles\<close>

lemma release_ids: "map entry_id (listeners (release i s)) = remove1 i (map entry_id (listeners s))"
  by (simp add: release_listeners erase_first_remove1)

interpretation handles: subscription_backref release live ids_distinct
proof (unfold_locales, goal_cases)
  case (1 s i)
  have "set (remove1 i (map entry_id (listeners s))) = set (map entry_id (listeners s)) - {i}"
    using 1 by (simp add: ids_distinct_def)
  then show ?case using arg_cong [OF release_ids [of i s], of set] by (simp add: live_def)
next
  case (2 s i)
  then show ?case by (simp add: ids_distinct_def release_ids)
qed

lemma small_ids: "(0 :: 64 word) < - 1" "(1 :: 64 word) < - 1"
  by (simp_all flip: word_order.not_eq_extremum)

lemma listen_pattern_effect:
  "next_id (snd (listen_pattern H pat f p s)) = next_id s + 1"
  "listeners (snd (listen_pattern H pat f p s)) = insert_listener H p
     \<lparr>entry_id = next_id s + 1, handler = WrapEnvelope f, name_or_pattern = pat,
      is_pattern = List.member pat (CHR ''*''), listener_priority = p\<rparr> (listeners s)"
proof -
  obtain h s' where "register_listener_for_name H pat (WrapEnvelope f) (List.member pat (CHR ''*'')) p s = (h, s')"
    by fastforce
  note r = register_effect [OF this] this
  show "next_id (snd (listen_pattern H pat f p s)) = next_id s + 1"
    "listeners (snd (listen_pattern H pat f p s)) = insert_listener H p
       \<lparr>entry_id = next_id s + 1, handler = WrapEnvelope f, name_or_pattern = pat,
        is_pattern = List.member pat (CHR ''*''), listener_priority = p\<rparr> (listeners s)"
    using r by (simp_all add: listen_pattern_def)
qed

lemma Bus_new_simps [simp]:
  "next_id (Bus_new P reg z) = 0" "listeners (Bus_new P reg z) = []" "transports (Bus_new P reg z) = []"
  "middleware (Bus_new P reg z) = []" "bus.more (Bus_new P reg z) = z" "\<not> shutdown_flag (Bus_new P reg z)"
  by (simp_all add: Bus_new_def)

lemma trace_host_table:
  "host_respects trace_host keeps_listeners_ok" "keeps_listeners_ok s (snd (t_attach trace_host t s))"
  "prioritized_law trace_host"
  by (auto simp: host_respects_def prioritized_law_def trace_host_def intro!: keeps_listeners_okI)

section \<open>Properties\<close>

text \<open>
  C3: after any sequence of public operations on a new bus (fewer than \<open>2\<^sup>6\<^sup>4 - 1\<close> registrations),
  listener ids are distinct and nonzero, the table is ordered by priority and, among equal
  priorities, by registration, which is the order of delivery, and the \<^verbatim>\<open>conduit_listeners\<close>
  gauge of every name shows exactly the number of listeners registered under it.
\<close>

theorem listener_table_invariant:
  fixes H :: "('f, 'm, 't, 'r, 'z) bus_host"
  assumes "host_respects H keeps_listeners_ok" and "\<And>t s. keeps_listeners_ok s (snd (t_attach H t s))"
    and "prioritized_law H" and "(bus_step H)\<^sup>*\<^sup>* (Bus_new P reg z) s"
  shows "distinct (map entry_id (listeners s)) \<and> 0 \<notin> set (map entry_id (listeners s)) \<and>
    sorted_wrt delivered_before (listeners s) \<and>
    (\<forall>n. gauge n s = int (registered_under n (listeners s)))"
proof -
  have "listeners_ok (\<lambda>n. 0) s"
    using table.bus_steps_R [OF assms] Bus_new_ok [of P reg z] unfolding keeps_listeners_ok_def by blast
  then show ?thesis by (force simp: listeners_ok_def ids_ok_def)
qed

theorem listener_table_invariant_witness:
  "\<exists>s. (bus_step trace_host)\<^sup>*\<^sup>* (Bus_new example_parcel None []) s \<and>
     map name_or_pattern (listeners s) = [''b'', ''a''] \<and> gauge ''a'' s = 1"
proof -
  define s0 :: "(string, string, string, descriptor list, trace) bus_scheme" where "s0 = Bus_new example_parcel None []"
  define s1 where "s1 = snd (listen_pattern trace_host ''a'' ''env'' 5 s0)"
  define s2 where "s2 = snd (listen_pattern trace_host ''b'' ''env'' (- 1) s1)"
  have n: "next_id s0 < - 1" "next_id s1 < - 1"
    by (simp_all add: s0_def s1_def listen_pattern_effect small_ids)
  have "bus_step trace_host s0 s1" "bus_step trace_host s1 s2"
    unfolding s1_def s2_def by (rule step_listen_pattern [OF n(1)], rule step_listen_pattern [OF n(2) [unfolded s1_def]])
  then have r: "(bus_step trace_host)\<^sup>*\<^sup>* s0 s2"
    by (rule rtranclp.rtrancl_into_rtrancl [OF r_into_rtranclp])
  have l: "map name_or_pattern (listeners s2) = [''b'', ''a'']"
    by (simp add: s2_def s1_def s0_def listen_pattern_effect) (simp add: trace_host_def)
  have reg: "registered_under ''a'' es = length (filter (\<lambda>k. k = ''a'') (map name_or_pattern es))" for es :: "string ListenerEntry list"
    by (simp add: registered_under_def filter_map comp_def)
  have "gauge ''a'' s2 = int (registered_under ''a'' (listeners s2))"
    by (rule listener_table_invariant [OF trace_host_table r [unfolded s0_def], THEN conjunct2, THEN conjunct2,
          THEN conjunct2, THEN spec])
  then have "gauge ''a'' s2 = 1" unfolding reg l by simp
  with r l show ?thesis unfolding s0_def by (intro exI [of _ s2] conjI)
qed

text \<open>
  Destroying a bus takes back its whole share of the gauge: for every name the series
  is what it was before the bus had any listener, whatever is still registered.
\<close>

theorem destroy_balances_gauge:
  fixes H :: "('f, 'm, 't, 'r, 'z) bus_host"
  assumes "host_respects H keeps_listeners_ok" and "listeners_ok g0 s"
  shows "gauge n (Bus_destroy H s) = g0 n"
proof -
  have "listeners_ok g0 (shutdown H s)"
    using table.shutdown_R [OF assms(1), of s] assms(2) by (simp add: keeps_listeners_ok_def)
  then show ?thesis by (simp add: Bus_destroy_def Let_def fold_gauge_dec listeners_ok_def)
qed

theorem destroy_balances_gauge_witness:
  "gauge ''a'' (Bus_destroy trace_host (snd (listen_pattern trace_host ''a'' ''env'' 0
     (Bus_new example_parcel None [] :: (string, string, string, descriptor list, trace) bus_scheme)))) = 0"
proof -
  let ?s0 = "Bus_new example_parcel None [] :: (string, string, string, descriptor list, trace) bus_scheme"
  have n: "next_id ?s0 < - 1" by (simp add: small_ids)
  have "listeners_ok (\<lambda>n. 0) (snd (listen_pattern trace_host ''a'' ''env'' 0 ?s0))"
    using table.listen_R(3) [OF trace_host_table(3) n, of "''a''" "''env''" 0] Bus_new_ok [of example_parcel None "[]"]
    unfolding keeps_listeners_ok_def by blast
  then show ?thesis by (rule destroy_balances_gauge [OF trace_host_table(1)])
qed



text \<open>
  The \<^verbatim>\<open>on\<close> helpers register with the default priority, or the handler's own, whatever the
  priority of the subscriber is; the subscription joins the subscriber's vector.
\<close>

theorem subscriber_priority_not_forwarded:
  "snd (subscriber_on H T f (sb\<lparr>subscriber_priority := q\<rparr>) s) = snd (subscriber_on H T f sb s) \<and>
   snd (subscriber_on_pattern H pat f (sb\<lparr>subscriber_priority := q\<rparr>) s) = snd (subscriber_on_pattern H pat f sb s) \<and>
   listeners (snd (subscriber_on_pattern H pat f sb s)) = insert_listener H (default_priority H)
     \<lparr>entry_id = next_id s + 1, handler = WrapEnvelope f, name_or_pattern = pat,
      is_pattern = List.member pat (CHR ''*''), listener_priority = default_priority H\<rparr> (listeners s) \<and>
   subscriptions (fst (subscriber_on_pattern H pat f sb s)) = subscriptions sb @ [subscription_new (next_id s + 1)]"
proof -
  obtain h s' where r: "register_listener_for_name H pat (WrapEnvelope f) (List.member pat (CHR ''*''))
      (default_priority H) s = (h, s')" by fastforce
  show ?thesis
    using register_effect(1,3) [OF r] r
    by (simp add: subscriber_on_def subscriber_on_pattern_def listen_pattern_def split: prod.splits)
qed

text \<open>
  Shutdown flushes and then detaches every transport once, in order, even when a flush
  throws, and leaves no transport; a second shutdown, and the one in the destructor, does
  nothing, so a transport attached after the first one is not flushed or detached by the bus.
\<close>

theorem shutdown_once:
  fixes H :: "('f, 'm, 't, 'r, 'z) bus_host"
  assumes "tracing H lg ev"
    and "host_respects H (\<lambda>s s'. shutdown_flag s' = shutdown_flag s \<and> transports s' = transports s)"
    and "\<not> shutdown_flag s"
  shows "lg (shutdown H s) = lg s @ concat (map (\<lambda>t. ev (CFlush t) @ ev (CDetach t)) (transports s)) \<and>
    transports (shutdown H s) = [] \<and> shutdown H (shutdown H s) = shutdown H s \<and>
    lg (Bus_destroy H ((shutdown H s)\<lparr>transports := ts\<rparr>)) = lg (shutdown H s)"
proof -
  let ?f = "\<lambda>t s. t_detach H t (snd (t_flush H t s))"
  let ?s = "s\<lparr>shutdown_flag := True, transports := []\<rparr>"
  have tr: "lg (fold ?f xs t) = lg t @ concat (map (\<lambda>t. ev (CFlush t) @ ev (CDetach t)) xs)" for xs t
    by (induction xs arbitrary: t) (simp_all add: lg_call(9,10) [OF assms(1)])
  have keep: "shutdown_flag (fold ?f xs t) = shutdown_flag t \<and> transports (fold ?f xs t) = transports t" for xs t
    by (rule fold_invariant_set [where P = "\<lambda>u. shutdown_flag u = shutdown_flag t \<and> transports u = transports t"])
      (use assms(2) in \<open>auto simp: host_respects_def\<close>)
  have more: "bus.more a = bus.more b \<Longrightarrow> lg a = lg b" for a b
    by (rule assms(1) [unfolded tracing_def, THEN conjunct1, rule_format])
  have s0: "lg ?s = lg s" by (rule more) simp
  have ms: "lg (fold (\<lambda>e. meter (g e)) es t) = lg t" for es :: "'f ListenerEntry list" and g t
    by (rule fold_keeps_field) (rule lg_frame(1) [OF assms(1)])
  have ts: "lg (t\<lparr>transports := ts\<rparr>) = lg t" for t by (rule more) simp
  show ?thesis
    using assms(3) by (simp add: shutdown_def Bus_destroy_def Let_def tr keep s0 ms ts)
qed

theorem shutdown_once_witness:
  "bus.more (shutdown trace_host (example_bus [] [] [''boom'', ''local''] [])) =
     [CFlush ''boom'', CDetach ''boom'', CFlush ''local'', CDetach ''local'']"
proof -
  let ?s = "example_bus [] [] [''boom'', ''local''] []"
  have r: "host_respects trace_host (\<lambda>s s'. shutdown_flag s' = shutdown_flag s \<and> transports s' = transports s)"
    by (simp add: host_respects_def trace_host_def push_def)
  have "\<not> shutdown_flag ?s" by (simp add: example_bus_def)
  from shutdown_once [OF trace_host_tracing r this] show ?thesis by simp
qed

end
