(* ===== verification/BusMetrics.thy ===== *)
theory BusMetrics
  imports BusDispatch
begin

text \<open>
  What the always-on metrics of \<^verbatim>\<open>include/conduit/metrics.hpp\<close> say about a publish: the increments
  \<^verbatim>\<open>publish_impl\<close> and the fan-out make on each series, provided no callback makes any itself.
\<close>

definition keeps_metrics ::
  "('f, 'm, 't, 'r, 'z) bus_scheme \<Rightarrow> ('f, 'm, 't, 'r, 'z) bus_scheme \<Rightarrow> bool" where
  "keeps_metrics s s' \<longleftrightarrow> metrics s' = metrics s \<and> keeps_wiring s s'"

text \<open>What a series shows now, and whether a middleware run by the publish vetoes it.\<close>

definition series :: "metric \<Rightarrow> string \<Rightarrow> 'a world_scheme \<Rightarrow> int" where
  "series m n s = series_value m (event_labels n) (metrics s)"

definition vetoed :: "('m \<Rightarrow> bool) \<Rightarrow> env \<Rightarrow> ('f, 'm, 't, 'r, 'z) bus_scheme \<Rightarrow> bool" where
  "vetoed veto v s = list_ex veto (pipeline v s)"

definition conflicting :: "env \<Rightarrow> ('f, 'm, 't, 'r, 'z) bus_scheme \<Rightarrow> bool" where
  "conflicting v s = (has_flag v LocalOnly s \<and> has_flag v RemoteOnly s)"

section \<open>Lemmas\<close>

lemma series_frame [simp]:
  "series m n (meter (Inc m' (event_labels n')) s) = series m n s + (if m = m' \<and> n = n' then 1 else 0)"
  "series m n (meter (Observe m' l x) s) = series m n s" "series m n (s\<lparr>clock := k\<rparr>) = series m n s"
  "series m n (update_timestamps v f s) = series m n s"
  by (auto simp: series_def event_labels_def update_timestamps_def)

lemma keeps_metrics_series: "keeps_metrics s s' \<Longrightarrow> series m n s' = series m n s"
  by (simp add: keeps_metrics_def series_def)

lemma keeps_metrics_wiring: "host_respects H keeps_metrics \<Longrightarrow> host_respects H keeps_wiring"
  by (simp add: host_respects_def keeps_metrics_def)

lemma run_on_error_series:
  assumes "host_respects H keeps_metrics"
  shows "series m n (run_on_error H v e s) = series m n s"
proof -
  have "series m n (snd (fold (\<lambda>m (mv, s). snd (on_error H m mv e s)) ms p)) = series m n (snd p)" for ms p
    using assms
    by (induction ms arbitrary: p) (auto simp: host_respects_def keeps_metrics_series split: prod.splits)
  then show ?thesis by (simp add: run_on_error_def)
qed

lemma call_handler_series:
  "host_respects H keeps_metrics \<Longrightarrow> series m n (snd (call_handler H h v s)) = series m n s"
  by (cases h) (auto simp: host_respects_def keeps_metrics_series split: option.splits)

lemma deliver_one_series:
  assumes "host_respects H keeps_metrics" and "m \<noteq> listener_errors"
  shows "series m n (deliver_one H v n' e s) =
    series m n s + (if entry_matches e n' \<and> m = listener_invocations \<and> n = n' then 1 else 0)"
proof (cases "entry_matches e n'")
  case True
  let ?s = "meter (Inc listener_invocations (event_labels n')) s"
  obtain r s1 where c: "call_handler H (handler e) v ?s = (r, s1)" by fastforce
  then have "series m n s1 = series m n ?s" using call_handler_series [OF assms(1), of m n "handler e" v ?s] by simp
  then show ?thesis
    using True c assms(2) by (cases r) (simp_all add: deliver_one_def Let_def run_on_error_series [OF assms(1)])
qed (simp add: deliver_one_def)

lemma deliver_series:
  assumes "host_respects H keeps_metrics" and "m \<noteq> listener_errors"
  shows "series m (name_of v s) (deliver_to_listeners H v s) = series m (name_of v s) s +
    (if m = listener_invocations then int (length (filter (\<lambda>e. entry_matches e (name_of v s)) (listeners s))) else 0)"
proof -
  have "series m n (fold (deliver_one H v n) es t) = series m n t +
      (if m = listener_invocations then int (length (filter (\<lambda>e. entry_matches e n) es)) else 0)" for n es t
    by (induction es arbitrary: t) (auto simp: deliver_one_series [OF assms])
  then show ?thesis by (simp add: deliver_to_listeners_def)
qed

lemma dispatch_all_series:
  assumes "host_respects H keeps_metrics"
  shows "series m n (fold (dispatch_one H lo ro v) ts s) = series m n s"
proof (induction ts arbitrary: s)
  case (Cons t ts)
  have "series m n (snd (t_dispatch H t v s)) = series m n s"
    using assms by (simp add: host_respects_def keeps_metrics_series)
  then have "series m n (dispatch_one H lo ro v t s) = series m n s"
    by (auto simp: dispatch_one_def Let_def run_on_error_series [OF assms] split: prod.splits option.splits)
  then show ?case using Cons by simp
qed simp

lemma name_kept: "keeps_payloads s s' \<Longrightarrow> cores s v = Some c \<Longrightarrow> name_of v s' = name_of v s"
  by (fastforce simp: keeps_payloads_def name_of_def env_name_def)

lemma run_before_series:
  assumes H: "host_respects H keeps_metrics" and N: "no_rebind H"
    and V: "\<And>m s. fst (before_dispatch H m v s) = Inr False \<longleftrightarrow> veto m"
    and C: "cores s v = Some c" and "run_before H ms v s = (p, v', s')"
  shows "v' = v \<and> p = (\<not> list_ex veto ms) \<and>
    series m (name_of v s) s' = series m (name_of v s) s + (if m = events_dropped \<and> list_ex veto ms then 1 else 0)"
  using assms(5) C
proof (induction ms arbitrary: s c)
  case (Cons x ms)
  obtain r s1 where b: "before_dispatch H x v s = (r, v, s1)"
    using N unfolding no_rebind_def by (metis prod_cases3 fst_conv snd_conv)
  have k1: "keeps_metrics s s1" using H b by (auto simp: host_respects_def) (metis snd_conv)
  have n1: "name_of v s1 = name_of v s" and c1: "\<exists>c1. cores s1 v = Some c1"
    using k1 Cons.prems(2) name_kept by (fastforce simp: keeps_metrics_def keeps_wiring_def keeps_payloads_def)+
  have veto: "veto x \<longleftrightarrow> r = Inr False" using V [of x s] b by simp
  show ?case
  proof (cases r)
    case (Inl ep)
    obtain y s2 where o: "on_error H x v ep s1 = (y, v, s2)"
      using N unfolding no_rebind_def by (metis prod_cases3 fst_conv snd_conv)
    have k2: "keeps_metrics s1 s2" using H o by (auto simp: host_respects_def) (metis snd_conv)
    obtain c1 where "cores s1 v = Some c1" using c1 by blast
    then have n2: "name_of v s2 = name_of v s" and c2: "\<exists>c2. cores s2 v = Some c2"
      using k2 n1 name_kept by (fastforce simp: keeps_metrics_def keeps_wiring_def keeps_payloads_def)+
    then show ?thesis
      using Cons.IH [of s2] Cons.prems(1) b o Inl veto keeps_metrics_series [OF k1] keeps_metrics_series [OF k2] by auto
  next
    case (Inr go)
    then show ?thesis
      using Cons.IH [of s1] Cons.prems(1) b veto n1 c1 keeps_metrics_series [OF k1] by (cases go) auto
  qed
qed simp

lemma run_after_series:
  assumes H: "host_respects H keeps_metrics"
  shows "series m n (snd (run_after H ms v s)) = series m n s"
proof (induction ms arbitrary: v s)
  case (Cons x ms)
  obtain r v1 s1 where a: "after_dispatch H x v s = (r, v1, s1)" by (metis prod_cases3)
  have k1: "series m n s1 = series m n s"
    using H a by (auto simp: host_respects_def intro!: keeps_metrics_series) (metis snd_conv)
  show ?case
  proof (cases r)
    case (Some ep)
    obtain y v2 s2 where o: "on_error H x v1 ep s1 = (y, v2, s2)" by (metis prod_cases3)
    have "series m n s2 = series m n s1"
      using H o by (auto simp: host_respects_def intro!: keeps_metrics_series) (metis snd_conv)
    then show ?thesis using Cons a o Some k1 by simp
  qed (use Cons a k1 in simp)
qed simp

section \<open>Properties\<close>



end
