(* ===== verification/BusTypes.thy ===== *)
theory BusTypes
  imports BusRegistration
begin

text \<open>
  Type safety of typed listeners. The bus keeps all handlers in one table under strings; a handler
  registered for an event class has a wrapper that casts the payload. Shown here: over every sequence of
  operations a wrapper for a class stands under that class's event name, and a handler is only called with a payload the cast
  accepts.
\<close>

section \<open>Typing of the table\<close>

fun typed_under :: "string \<Rightarrow> 'f wrapped \<Rightarrow> bool \<Rightarrow> bool" where
  "typed_under n (WrapPayload T f) pat = (\<not> pat \<and> n = event_name_v T)"
| "typed_under n (WrapListener T f) pat = (\<not> pat \<and> n = event_name_v T)"
| "typed_under n (WrapEnvelope f) pat = True"

definition table_typed :: "('f, 'm, 't, 'r, 'z) bus_scheme \<Rightarrow> bool" where
  "table_typed s \<longleftrightarrow> (\<forall>e \<in> set (listeners s). typed_under (name_or_pattern e) (handler e) (is_pattern e))"

definition keeps_typing ::
  "('f, 'm, 't, 'r, 'z) bus_scheme \<Rightarrow> ('f, 'm, 't, 'r, 'z) bus_scheme \<Rightarrow> bool" where
  "keeps_typing s s' \<longleftrightarrow> keeps_listeners_ok s s' \<and> (\<forall>g0. listeners_ok g0 s \<longrightarrow> table_typed s \<longrightarrow> table_typed s')"

text \<open>The calls of handlers, without those of middleware and transports.\<close>

fun handler_calls :: "('f, 'm, 't) call \<Rightarrow> ('f, 'm, 't) call list" where
  "handler_calls (CPayload f c) = [CPayload f c]"
| "handler_calls (COnEvent f c) = [COnEvent f c]"
| "handler_calls (CEnvelope f v) = [CEnvelope f v]"
| "handler_calls x = []"

text \<open>A call is typed when a table entry for the handler casts to a class the payload's class derives from.\<close>

fun call_typed :: "(string \<Rightarrow> string \<Rightarrow> bool) \<Rightarrow> string \<Rightarrow> 'f ListenerEntry set \<Rightarrow> ('f, 'm, 't) call \<Rightarrow> bool" where
  "call_typed d n es (CPayload f c) = (\<exists>e \<in> es. \<exists>T. handler e = WrapPayload T f \<and> n = event_name_v T \<and> d (dyn_type c) (type_id T))"
| "call_typed d n es (COnEvent f c) = (\<exists>e \<in> es. \<exists>T. handler e = WrapListener T f \<and> n = event_name_v T \<and> d (dyn_type c) (type_id T))"
| "call_typed d n es (CEnvelope f v) = (\<exists>e \<in> es. handler e = WrapEnvelope f)"
| "call_typed d n es x = True"

section \<open>Lemmas\<close>

lemma keeps_typingI:
  "listeners s' = listeners s \<Longrightarrow> next_id s' = next_id s \<Longrightarrow> metrics s' = metrics s \<Longrightarrow> keeps_typing s s'"
  by (simp add: keeps_typing_def keeps_listeners_okI table_typed_def)

lemma release_keeps_typing: "keeps_typing s (release i s)"
proof -
  have "set (listeners (release i s)) \<subseteq> set (listeners s)"
    using subseq_erase_first [of i "listeners s"] by (auto simp: release_listeners dest: list_emb_set)
  then show ?thesis by (auto simp: keeps_typing_def release_keeps table_typed_def)
qed

lemma register_keeps_typing:
  assumes "prioritized_law H" and "next_id s < - 1" and "typed_under n h q"
    and "register_listener_for_name H n h q p s = (sub, s')"
  shows "keeps_typing s s'"
proof -
  have "table_typed s'" if "listeners_ok g0 s" "table_typed s" for g0
  proof -
    have ids: "ids_ok (map entry_id (listeners s)) (next_id s)" and srt: "sorted (map listener_priority (listeners s))"
      using that(1) by (auto simp: listeners_ok_def sorted_priorities)
    have add: "table_add (n, h, q, p) (H, s) = (next_id s + 1, (H, s'))"
      using assms(4) register_effect(1) [OF assms(4)] by (simp add: subscription_new_def)
    have "next_id s + 1 \<notin> set (map entry_id (listeners s))"
      using bus_ids.add_fresh(2) [OF _ _ add] ids assms(2) by simp
    from register_lawful [OF assms(4,1) srt this] that(2) assms(3) show ?thesis
      by (simp add: table_typed_def set_stable_insert)
  qed
  then show ?thesis using register_keeps [OF assms(1,2,4)] by (auto simp: keeps_typing_def)
qed

interpretation typing: bus_table_relation keeps_typing typed_under
proof (unfold_locales, goal_cases)
  case (2 s s' s'')
  then show ?case unfolding keeps_typing_def keeps_listeners_ok_def by blast
next
  case (3 c s)
  have "keeps_listeners_ok s (meter c s)" by (rule table_frame.R_meter [OF 3])
  then show ?case by (simp add: keeps_typing_def table_typed_def)
qed (auto intro: keeps_typingI register_keeps_typing release_keeps_typing simp: update_timestamps_def)

lemma fanout_typed:
  assumes "\<And>e. e \<in> set es \<Longrightarrow> typed_under (name_or_pattern e) (handler e) (is_pattern e)"
    and "x \<in> set (fanout_calls d v core es)"
  shows "call_typed d (env_name (Some core)) (set es) x"
proof -
  obtain e where e: "e \<in> set es" "entry_matches e (env_name (Some core))"
    and x: "x \<in> set (handler_call d v (payload_cell core) (handler e))"
    using assms(2) by (auto simp: fanout_calls_def)
  have "typed_under (name_or_pattern e) (handler e) (is_pattern e)" by (rule assms(1) [OF e(1)])
  then show ?thesis
    using e x
    by (cases "handler e") (auto simp: entry_matches_def split: option.splits if_splits intro!: bexI [OF _ e(1)])
qed

lemma handler_calls_fanout: "concat (map handler_calls (fanout_calls d v core es)) = fanout_calls d v core es"
proof -
  have h: "concat (map handler_calls (handler_call d v p h)) = handler_call d v p h" for p h
    by (cases h) (auto split: option.splits)
  have c: "concat (map handler_calls (concat xss)) = concat xss" if "\<And>xs. xs \<in> set xss \<Longrightarrow> concat (map handler_calls xs) = xs" for xss
    using that by (induction xss) simp_all
  show ?thesis unfolding fanout_calls_def by (rule c) (auto simp: h)
qed

definition typed_trace :: "(string, string, string, 'r, trace) bus_scheme \<Rightarrow> trace" where
  "typed_trace s = concat (map handler_calls (bus.more s))"

lemma trace_host_typed: "tracing trace_host typed_trace handler_calls"
  by (simp add: tracing_def trace_host_def typed_trace_def)

lemma trace_host_respects:
  "host_respects trace_host keeps_typing" "host_respects trace_host keeps_payloads"
  "keeps_typing s (snd (t_attach trace_host t s))"
  using trace_host_keeps(2)
  by (auto simp: host_respects_def trace_host_def keeps_wiring_def intro!: keeps_typingI)

section \<open>Properties\<close>

text \<open>
  C7: type safety. Whatever sequence of operations a new bus has gone through, a wrapper for an event
  class stands in the table under that class's event name and never under a pattern; and of the calls a
  delivery makes, each call of a typed handler or listener is by such a wrapper, for an envelope of that name, with a
  payload whose class derives from the handler's.
\<close>

theorem handlers_called_at_their_type:
  fixes H :: "('f, 'm, 't, 'r, 'z) bus_host"
  assumes "host_respects H keeps_typing" and "\<And>t s. keeps_typing s (snd (t_attach H t s))"
    and "prioritized_law H" and "(bus_step H)\<^sup>*\<^sup>* (Bus_new P reg z) s"
    and "tracing H lg handler_calls" and "host_respects H keeps_payloads" and "cores s v = Some core"
  shows "(\<forall>e \<in> set (listeners s). typed_under (name_or_pattern e) (handler e) (is_pattern e)) \<and>
    (\<exists>new. lg (deliver_to_listeners H v s) = lg s @ new \<and>
       (\<forall>x \<in> set new. call_typed (derives H) (env_name (Some core)) (set (listeners s)) x))"
proof -
  have "keeps_typing (Bus_new P reg z) s" by (rule typing.bus_steps_R [OF assms(1-4)])
  then have t: "table_typed s"
    using Bus_new_ok [of P reg z] by (auto simp: keeps_typing_def table_typed_def)
  have "errors_silent (handler_calls :: ('f, 'm, 't) call \<Rightarrow> _)" by (simp add: errors_silent_def)
  from deliver_trace [OF assms(5) this assms(6,7)] t show ?thesis
    by (auto simp: handler_calls_fanout table_typed_def intro: fanout_typed)
qed

theorem handlers_called_at_their_type_witness:
  "\<exists>s c. (bus_step trace_host)\<^sup>*\<^sup>* (Bus_new example_parcel None []) s \<and> cores s 0 = Some c \<and>
     (\<exists>new. typed_trace (deliver_to_listeners trace_host 0 s) = typed_trace s @ new \<and>
       (\<forall>x \<in> set new. call_typed (derives trace_host) (env_name (Some c)) (set (listeners s)) x))"
proof -
  define s0 :: "(string, string, string, descriptor list, trace) bus_scheme" where "s0 = Bus_new example_parcel None []"
  define s1 where "s1 = snd (listen_typed trace_host example_type ''h'' 0 s0)"
  define b where "b = builder_new (flag_insert (wire (parcel trace_host))) example_type JNull"
  define s2 where "s2 = publish_builder trace_host b s1"
  have "next_id s0 < - 1" by (simp add: s0_def small_ids)
  then have "bus_step trace_host s0 s1" unfolding s1_def by (rule step_listen)
  moreover have "bus_step trace_host s1 s2" unfolding s2_def by (rule step_publish_builder)
  ultimately have r: "(bus_step trace_host)\<^sup>*\<^sup>* s0 s2" by (rule rtranclp.rtrancl_into_rtrancl [OF r_into_rtranclp])
  have "heap_next s1 = 0"
    by (simp add: s1_def s0_def listen_typed_def register_listener_for_name_def register_event_def shared_from_this_safe_def
        Bus_new_def Let_def)
  then obtain t c where t: "s2 = publish_impl trace_host 0 t" "cores t 0 = Some c"
    unfolding s2_def publish_builder_def Let_def
    using build_effect [of "generate_ulid trace_host 0" "now trace_host" b]
    by (fastforce simp: register_event_def split: prod.splits)
  then obtain c' where c': "cores s2 0 = Some c'"
    using payloads.publish_impl_R [OF trace_host_respects(2), of t 0] by (auto simp: keeps_payloads_def)
  show ?thesis
    using handlers_called_at_their_type [OF trace_host_respects(1) trace_host_respects(3) trace_host_table(3) r [unfolded s0_def]
        trace_host_typed trace_host_respects(2) c'] r c'
    unfolding s0_def by blast
qed

end
