(* ===== verification/BusThreads.thy ===== *)
theory BusThreads
  imports BusRegistration
begin

text \<open>
  Deliveries on several threads at once. \<^verbatim>\<open>deliver_to_listeners\<close> copies the listeners under the lock and calls the
  handlers without it, so other threads register, release and publish between any two calls. The
  theory interleaves any number of deliveries with each other and with all operations of the bus, and shows which
  listeners a delivery still calls. A handler's body is one step.
\<close>

section \<open>Threads\<close>

datatype 'f delivery = Idle | Delivering env string "'f ListenerEntry list"

datatype ('w, 'f) act =
    Begins 'w env
  | Calls 'w "'f ListenerEntry"
  | Skips 'w
  | Ends 'w
  | Operates

text \<open>
  The steps: taking the snapshot, one round of the loop, leaving it, and any other operation of the
  bus by any thread.
\<close>

inductive thread_step ::
  "('f, 'm, 't, 'r, 'z) bus_host \<Rightarrow> ('f, 'm, 't, 'r, 'z) bus_scheme \<times> ('w \<Rightarrow> 'f delivery) \<Rightarrow> ('w, 'f) act \<Rightarrow>
     ('f, 'm, 't, 'r, 'z) bus_scheme \<times> ('w \<Rightarrow> 'f delivery) \<Rightarrow> bool" for H where
  begins: "loc w = Idle \<Longrightarrow>
    thread_step H (s, loc) (Begins w v) (s, loc(w := Delivering v (name_of v s) (listeners s)))"
| calls: "loc w = Delivering v n (e # es) \<Longrightarrow> entry_matches e n \<Longrightarrow>
    thread_step H (s, loc) (Calls w e) (deliver_one H v n e s, loc(w := Delivering v n es))"
| skips: "loc w = Delivering v n (e # es) \<Longrightarrow> \<not> entry_matches e n \<Longrightarrow>
    thread_step H (s, loc) (Skips w) (deliver_one H v n e s, loc(w := Delivering v n es))"
| ends: "loc w = Delivering v n [] \<Longrightarrow> thread_step H (s, loc) (Ends w) (s, loc(w := Idle))"
| operates: "bus_step H s s' \<Longrightarrow> thread_step H (s, loc) Operates (s', loc)"

inductive_cases thread_stepE: "thread_step H p a q"

inductive thread_run ::
  "('f, 'm, 't, 'r, 'z) bus_host \<Rightarrow> ('f, 'm, 't, 'r, 'z) bus_scheme \<times> ('w \<Rightarrow> 'f delivery) \<Rightarrow> ('w, 'f) act list \<Rightarrow>
     ('f, 'm, 't, 'r, 'z) bus_scheme \<times> ('w \<Rightarrow> 'f delivery) \<Rightarrow> bool" for H where
  run_nil: "thread_run H p [] p"
| run_step: "thread_step H p a q \<Longrightarrow> thread_run H q as r \<Longrightarrow> thread_run H p (a # as) r"

fun pending_ids :: "'f delivery \<Rightarrow> SubscriptionId set" where
  "pending_ids Idle = {}"
| "pending_ids (Delivering v n es) = entry_id ` set es"

text \<open>The listeners a thread called, in order.\<close>

fun calls_of :: "'w \<Rightarrow> ('w, 'f) act list \<Rightarrow> 'f ListenerEntry list" where
  "calls_of w [] = []"
| "calls_of w (Calls w' e # as) = (if w' = w then e # calls_of w as else calls_of w as)"
| "calls_of w (a # as) = calls_of w as"

text \<open>An id that was given out and is no longer in the table.\<close>

definition retired :: "SubscriptionId \<Rightarrow> ('f, 'm, 't, 'r, 'z) bus_scheme \<Rightarrow> bool" where
  "retired i s \<longleftrightarrow> i \<le> next_id s \<and> i \<notin> live s"

definition keeps_retired ::
  "('f, 'm, 't, 'r, 'z) bus_scheme \<Rightarrow> ('f, 'm, 't, 'r, 'z) bus_scheme \<Rightarrow> bool" where
  "keeps_retired s s' \<longleftrightarrow> keeps_listeners_ok s s' \<and> (\<forall>g0 i. listeners_ok g0 s \<longrightarrow> retired i s \<longrightarrow> retired i s')"

section \<open>Lemmas\<close>

lemma keeps_retiredI:
  "listeners s' = listeners s \<Longrightarrow> next_id s' = next_id s \<Longrightarrow> metrics s' = metrics s \<Longrightarrow> keeps_retired s s'"
  by (simp add: keeps_retired_def keeps_listeners_okI retired_def live_def)

lemma release_keeps_retired: "keeps_retired s (release i s)"
proof -
  have "live (release i s) \<subseteq> live s"
    using subseq_erase_first [of i "listeners s"] by (auto simp: live_def release_listeners dest: list_emb_set)
  then show ?thesis by (auto simp: keeps_retired_def release_keeps retired_def)
qed

lemma register_keeps_retired:
  assumes "prioritized_law H" and "next_id s < - 1" and "register_listener_for_name H n h q p s = (sub, s')"
  shows "keeps_retired s s'"
proof -
  have "retired i s'" if ok: "listeners_ok g0 s" and r: "retired i s" for g0 i
  proof -
    have add: "table_add (n, h, q, p) (H, s) = (next_id s + 1, (H, s'))"
      using assms(3) register_effect(1) [OF assms(3)] by (simp add: subscription_new_def)
    have "live s' = insert (next_id s + 1) (live s)"
      using bus_ids.add_ok [OF _ _ _ add] ok assms(1,2) by (simp add: live_def listeners_ok_def sorted_priorities)
    moreover have "next_id s + 1 \<noteq> i \<and> i \<le> next_id s'"
      using bus_ids.never_reissued [OF _ _ add, of i] r assms(2) by (simp add: retired_def)
    ultimately show ?thesis using r by (auto simp: retired_def)
  qed
  then show ?thesis using register_keeps [OF assms] by (auto simp: keeps_retired_def)
qed

interpretation retirement: bus_table_relation keeps_retired "\<lambda>n h pat. True"
proof (unfold_locales, goal_cases)
  case (2 s s' s'')
  then show ?case unfolding keeps_retired_def keeps_listeners_ok_def by blast
next
  case (3 c s)
  have "keeps_listeners_ok s (meter c s)" by (rule table_frame.R_meter [OF 3])
  then show ?case by (simp add: keeps_retired_def retired_def live_def)
qed (auto intro: keeps_retiredI register_keeps_retired release_keeps_retired simp: update_timestamps_def)

lemma thread_step_R:
  assumes "host_respects H keeps_retired" and "\<And>t s. keeps_retired s (snd (t_attach H t s))"
    and "prioritized_law H" and "thread_step H p a q"
  shows "keeps_retired (fst p) (fst q)"
  using assms(4)
  by cases (auto intro: retirement.R_refl retirement.deliver_one_R [OF assms(1)] retirement.bus_step_R [OF assms(1-3)])

lemma retired_not_called:
  assumes "host_respects H keeps_retired" and "\<And>t s. keeps_retired s (snd (t_attach H t s))"
    and "prioritized_law H" and "thread_run H p as q" and "listeners_ok g0 (fst p)" and "retired i (fst p)"
    and "i \<notin> pending_ids (snd p w)"
  shows "i \<notin> entry_id ` set (calls_of w as) \<and> retired i (fst q)"
  using assms(4-7)
proof (induction rule: thread_run.induct)
  case (run_step p a q as r)
  have k: "keeps_retired (fst p) (fst q)" by (rule thread_step_R [OF assms(1-3) run_step.hyps(1)])
  have ok: "listeners_ok g0 (fst q)" "retired i (fst q)"
    using k run_step.prems by (auto simp: keeps_retired_def keeps_listeners_ok_def)
  have "i \<notin> pending_ids (snd q w) \<and> i \<notin> entry_id ` set (calls_of w [a])"
    using run_step.hyps(1) run_step.prems by cases (auto simp: retired_def live_def)
  then show ?case using run_step.IH ok by (cases a) auto
qed simp

lemma delivery_progress:
  assumes "thread_run H p as q" and "snd p w = Delivering v n es" and "Ends w \<notin> set as"
  shows "\<exists>rest. snd q w = Delivering v n rest \<and>
    filter (\<lambda>e. entry_matches e n) es = calls_of w as @ filter (\<lambda>e. entry_matches e n) rest"
  using assms
proof (induction arbitrary: es rule: thread_run.induct)
  case (run_step p a q as r)
  from run_step.hyps(1) run_step.prems
  have "\<exists>es1. snd q w = Delivering v n es1 \<and>
      filter (\<lambda>e. entry_matches e n) es = calls_of w [a] @ filter (\<lambda>e. entry_matches e n) es1"
    by cases auto
  then obtain es1 where "snd q w = Delivering v n es1"
    "filter (\<lambda>e. entry_matches e n) es = calls_of w [a] @ filter (\<lambda>e. entry_matches e n) es1" by blast
  then show ?case using run_step.IH [of es1] run_step.prems by (cases a) auto
qed simp

section \<open>Properties\<close>


text \<open>A bus on which one listener was registered and released and another one registered since.\<close>

definition reused_bus :: "(string, string, string, descriptor list, trace) bus_scheme" where
  "reused_bus = snd (listen_pattern trace_host ''**'' ''b'' 0
     (release 1 (snd (listen_pattern trace_host ''**'' ''a'' 0 (Bus_new example_parcel None [])))))"

lemma reused_bus_simps:
  "listeners reused_bus = [example_entry 2 ''b'' ''**'']" "next_id reused_bus = 2"
  by (simp_all add: reused_bus_def listen_pattern_effect release_listeners)
    (simp add: trace_host_def example_entry_def)

lemma reused_bus_ok: "listeners_ok (\<lambda>n. 0) reused_bus"
proof -
  let ?s0 = "Bus_new example_parcel None [] :: (string, string, string, descriptor list, trace) bus_scheme"
  let ?s1 = "snd (listen_pattern trace_host ''**'' ''a'' 0 ?s0)"
  have n: "next_id ?s0 < - 1" "next_id (release 1 ?s1) < - 1"
    by (simp_all add: small_ids listen_pattern_effect)
  have "keeps_listeners_ok ?s0 ?s1" by (rule table.listen_R(3) [OF trace_host_table(3) n(1)])
  moreover have "keeps_listeners_ok ?s1 (release 1 ?s1)" by (rule release_keeps)
  moreover have "keeps_listeners_ok (release 1 ?s1) reused_bus"
    unfolding reused_bus_def by (rule table.listen_R(3) [OF trace_host_table(3) n(2)])
  ultimately show ?thesis
    using Bus_new_ok [of example_parcel None "[]"] unfolding keeps_listeners_ok_def by blast
qed


text \<open>
  Releasing a listener does not wait for deliveries that have it in their snapshot: a thread may call
  a handler after another thread's release of it has returned.
\<close>

theorem released_listener_may_be_called:
  "\<exists>s loc. thread_run trace_host (example_bus [] [] [] [example_entry 1 ''a'' ''**'', example_entry 2 ''b'' ''**''], \<lambda>w :: nat. Idle)
      [Begins 0 0, Calls 0 (example_entry 1 ''a'' ''**''), Operates, Calls 0 (example_entry 2 ''b'' ''**'')] (s, loc) \<and>
    live s = {1} \<and> bus.more s = [CEnvelope ''a'' 0, CEnvelope ''b'' 0]"
proof -
  let ?a = "example_entry 1 ''a'' ''**''" and ?b = "example_entry 2 ''b'' ''**''"
  let ?s = "example_bus [] [] [] [?a, ?b]" and ?n = "name_of 0 (example_bus [] [] [] [?a, ?b])"
  define s1 where "s1 = deliver_one trace_host 0 ?n ?a ?s"
  define s2 where "s2 = release 2 s1"
  define s3 where "s3 = deliver_one trace_host 0 ?n ?b s2"
  let ?l = "\<lambda>es. (\<lambda>w :: nat. Idle)(0 := Delivering 0 ?n es)"
  have m: "entry_matches ?a ?n" "entry_matches ?b ?n"
    using glob_match_all by (simp_all add: entry_matches_def example_entry_def)
  have "thread_step trace_host (?s, \<lambda>w. Idle) (Begins 0 0) (?s, ?l [?a, ?b])"
    using thread_step.begins [of "\<lambda>w. Idle" 0 trace_host ?s 0] by simp
  moreover have "thread_step trace_host (?s, ?l [?a, ?b]) (Calls 0 ?a) (s1, ?l [?b])"
    using thread_step.calls [of "?l [?a, ?b]" 0 0 ?n ?a "[?b]" trace_host ?s] m by (simp add: s1_def)
  moreover have "thread_step trace_host (s1, ?l [?b]) Operates (s2, ?l [?b])"
    unfolding s2_def by (rule thread_step.operates) (rule step_release)
  moreover have "thread_step trace_host (s2, ?l [?b]) (Calls 0 ?b) (s3, ?l [])"
    using thread_step.calls [of "?l [?b]" 0 0 ?n ?b "[]" trace_host s2] m by (simp add: s3_def)
  ultimately have "thread_run trace_host (?s, \<lambda>w. Idle) [Begins 0 0, Calls 0 ?a, Operates, Calls 0 ?b] (s3, ?l [])"
    by (blast intro: thread_run.intros)
  moreover have "live s3 = {1} \<and> bus.more s3 = [CEnvelope ''a'' 0, CEnvelope ''b'' 0]"
    using m by (simp add: s3_def s2_def s1_def deliver_one_def release_def live_def trace_host_def example_entry_def
        boom_def push_def Let_def split: option.splits)
  ultimately show ?thesis by blast
qed

end
