(* ===== verification/Subscribers.thy ===== *)
theory Subscribers
  imports BusRegistration
begin

text \<open>
  \<^verbatim>\<open>EventSubscriber\<close> over its lifetime: a \<^verbatim>\<open>register_to\<close> made of any number of \<^verbatim>\<open>on\<close> calls, and the destruction that
  unregisters what they registered.
\<close>

section \<open>Model\<close>

datatype 'f on_call = OnType event_type 'f | OnPattern string 'f

fun on_step ::
  "('f, 'm, 't, 'r, 'z) bus_host \<Rightarrow> 'f on_call \<Rightarrow> EventSubscriber \<times> ('f, 'm, 't, 'r, 'z) bus_scheme \<Rightarrow>
     EventSubscriber \<times> ('f, 'm, 't, 'r, 'z) bus_scheme" where
  "on_step H (OnType T f) (sb, s) = subscriber_on H T f sb s"
| "on_step H (OnPattern pat f) (sb, s) = subscriber_on_pattern H pat f sb s"

definition register_to ::
  "('f, 'm, 't, 'r, 'z) bus_host \<Rightarrow> 'f on_call list \<Rightarrow> EventSubscriber \<Rightarrow> ('f, 'm, 't, 'r, 'z) bus_scheme \<Rightarrow>
     EventSubscriber \<times> ('f, 'm, 't, 'r, 'z) bus_scheme" where
  "register_to H cs sb s = fold (on_step H) cs (sb, s)"

text \<open>What one call registers under.\<close>

fun on_name :: "'f on_call \<Rightarrow> string" where
  "on_name (OnType T f) = event_name_v T"
| "on_name (OnPattern pat f) = pat"

definition handle_ids :: "EventSubscriber \<Rightarrow> SubscriptionId set" where
  "handle_ids sb = (\<Union>h \<in> set (subscriptions sb). owned h)"

section \<open>Lemmas\<close>

lemma on_step_register:
  obtains h q p where "fst (on_step H c (sb, s)) = sb\<lparr>subscriptions := subscriptions sb @ [subscription_new (next_id s + 1)]\<rparr>"
    "\<exists>s1 sub. register_listener_for_name H (on_name c) h q p s1 = (sub, snd (on_step H c (sb, s))) \<and>
       listeners s1 = listeners s \<and> next_id s1 = next_id s \<and> metrics s1 = metrics s"
proof (cases c)
  case (OnType T f)
  let ?s = "register_event H T s"
  obtain sub s' where r: "register_listener_for_name H (event_name_v T) (wrap_typed_handler H T f) False
      (derive_listener_priority H f (default_priority H)) ?s = (sub, s')" by fastforce
  have "listeners ?s = listeners s" "next_id ?s = next_id s" "metrics ?s = metrics s" by (simp_all add: register_event_def)
  with r register_effect(1) [OF r] OnType show thesis
    by (intro that [of "wrap_typed_handler H T f" False "derive_listener_priority H f (default_priority H)"])
      (auto simp: subscriber_on_def listen_typed_def Let_def)
next
  case (OnPattern pat f)
  obtain sub s' where r: "register_listener_for_name H pat (WrapEnvelope f) (List.member pat (CHR ''*''))
      (default_priority H) s = (sub, s')" by fastforce
  with register_effect(1) [OF r] OnPattern show thesis
    by (intro that [of "WrapEnvelope f" "List.member pat (CHR ''*'')" "default_priority H"])
      (auto simp: subscriber_on_pattern_def listen_pattern_def)
qed

lemma listeners_ok_frame:
  "listeners s1 = listeners s \<Longrightarrow> next_id s1 = next_id s \<Longrightarrow> metrics s1 = metrics s \<Longrightarrow> listeners_ok g0 s1 = listeners_ok g0 s"
  by (simp add: listeners_ok_def gauge_def)

lemma filter_other_id: "i \<notin> entry_id ` set es \<Longrightarrow> filter (\<lambda>e. entry_id e \<noteq> i) es = es"
  by (auto simp: filter_id_conv image_iff)

lemma filter_stable_insert:
  assumes "entry_id e \<notin> entry_id ` set es"
  shows "filter (\<lambda>x. entry_id x \<noteq> entry_id e) (stable_insert e es) = es"
proof -
  let ?P = "\<lambda>x. listener_priority x \<le> listener_priority e" and ?Q = "\<lambda>x. entry_id x \<noteq> entry_id e"
  have "filter ?Q (takeWhile ?P es) = takeWhile ?P es" "filter ?Q (dropWhile ?P es) = dropWhile ?P es"
    using assms by (auto intro!: filter_other_id dest!: set_takeWhileD set_dropWhileD)
  then show ?thesis by (simp add: stable_insert_def)
qed

lemma on_step_effect:
  assumes "prioritized_law H" and "listeners_ok g0 s" and "next_id s < - 1" and "on_step H c (sb, s) = (sb', s')"
  shows "listeners_ok g0 s'" "next_id s' = next_id s + 1"
    "subscriptions sb' = subscriptions sb @ [subscription_new (next_id s + 1)]"
    "filter (\<lambda>e. entry_id e \<noteq> next_id s + 1) (listeners s') = listeners s"
    "\<exists>e. mset (listeners s') = add_mset e (mset (listeners s)) \<and> entry_id e = next_id s + 1 \<and> name_or_pattern e = on_name c"
proof -
  obtain h q p s1 sub where r: "register_listener_for_name H (on_name c) h q p s1 = (sub, s')"
    and f: "listeners s1 = listeners s" "next_id s1 = next_id s" "metrics s1 = metrics s"
    and sb: "sb' = sb\<lparr>subscriptions := subscriptions sb @ [subscription_new (next_id s + 1)]\<rparr>"
    by (rule on_step_register [of H c sb s]) (use assms(4) in auto)
  have ok: "listeners_ok g0 s1" using assms(2) listeners_ok_frame [OF f] by simp
  have n: "next_id s1 < - 1" using assms(3) f by simp
  show "listeners_ok g0 s'" using register_keeps [OF assms(1) n r] ok by (simp add: keeps_listeners_ok_def)
  show "next_id s' = next_id s + 1" using register_effect(2) [OF r] f by simp
  show "subscriptions sb' = subscriptions sb @ [subscription_new (next_id s + 1)]" by (simp add: sb)
  have i: "\<forall>e \<in> set (listeners s). entry_id e \<le> next_id s" "sorted (map listener_priority (listeners s))"
    using assms(2) sorted_priorities by (auto simp: listeners_ok_def ids_ok_def)
  have fresh: "next_id s1 + 1 \<notin> set (map entry_id (listeners s1))"
    using i(1) word_less_succ [OF assms(3)] f by (auto simp: not_less [symmetric])
  have l: "listeners s' = stable_insert \<lparr>entry_id = next_id s + 1, handler = h, name_or_pattern = on_name c,
      is_pattern = q, listener_priority = p\<rparr> (listeners s)"
    using register_lawful [OF r assms(1) _ fresh] i(2) f by simp
  show "filter (\<lambda>e. entry_id e \<noteq> next_id s + 1) (listeners s') = listeners s"
    using filter_stable_insert [of "\<lparr>entry_id = next_id s + 1, handler = h, name_or_pattern = on_name c, is_pattern = q, listener_priority = p\<rparr>" "listeners s"]
      fresh f by (simp add: l)
  show "\<exists>e. mset (listeners s') = add_mset e (mset (listeners s)) \<and> entry_id e = next_id s + 1 \<and> name_or_pattern e = on_name c"
    unfolding l mset_stable_insert by (intro exI conjI, rule refl) simp_all
qed

lemma release_filter:
  assumes "ids_distinct s"
  shows "listeners (release i s) = filter (\<lambda>e. entry_id e \<noteq> i) (listeners s)"
proof -
  have "distinct (map entry_id es) \<Longrightarrow> erase_first i es = filter (\<lambda>e. entry_id e \<noteq> i) es" for es :: "'a ListenerEntry list"
    by (induction es) (auto simp: filter_other_id)
  then show ?thesis using assms by (simp add: release_listeners ids_distinct_def)
qed

lemma destroy_filter:
  assumes "ids_distinct s"
  shows "listeners (subscriber_destroy release sb s) = filter (\<lambda>e. entry_id e \<notin> handle_ids sb) (listeners s)"
proof -
  have "ids_distinct s \<Longrightarrow> listeners (fold (subscription_destroy release) hs s) =
      filter (\<lambda>e. entry_id e \<notin> (\<Union>h \<in> set hs. owned h)) (listeners s)" for hs
  proof (induction hs arbitrary: s)
    case (Cons h hs)
    have "ids_distinct (subscription_destroy release h s)" by (rule handles.invar_destroy [OF Cons.prems])
    moreover have "listeners (subscription_destroy release h s) = filter (\<lambda>e. entry_id e \<notin> owned h) (listeners s)"
      using release_filter [OF Cons.prems] by (simp add: subscription_destroy_def subscription_release_def owned_def)
    ultimately show ?case using Cons.IH by (simp add: conj_commute)
  qed simp
  then show ?thesis using assms by (simp add: subscriber_destroy_def handle_ids_def)
qed

lemma register_to_effect:
  assumes "prioritized_law H" and "listeners_ok g0 s" and "unat (next_id s) + length cs < 2 ^ 64"
    and "subscriptions sb = []" and "register_to H cs sb s = (sb', s')"
  shows "listeners_ok g0 s' \<and> unat (next_id s') = unat (next_id s) + length cs \<and>
    filter (\<lambda>e. entry_id e \<notin> handle_ids sb') (listeners s') = listeners s \<and> (\<forall>i \<in> handle_ids sb'. i \<le> next_id s') \<and>
    image_mset name_or_pattern (filter_mset (\<lambda>e. entry_id e \<in> handle_ids sb') (mset (listeners s'))) = mset (map on_name cs)"
  using assms(3,5)
proof (induction cs arbitrary: sb' s' rule: rev_induct)
  case Nil
  then show ?case using assms(2,4) by (auto simp: register_to_def handle_ids_def)
next
  case (snoc c cs)
  obtain sb1 s1 where r: "register_to H cs sb s = (sb1, s1)" by fastforce
  then have c: "on_step H c (sb1, s1) = (sb', s')" using snoc.prems(2) by (simp add: register_to_def)
  have len: "unat (next_id s) + length cs < 2 ^ 64" using snoc.prems(1) by simp
  note ih = snoc.IH [OF len r]
  have n: "next_id s1 < - 1" "unat (next_id s1 + 1) = unat (next_id s1) + 1"
    using ih snoc.prems(1) word_less_of_unat(1) [of "next_id s1" 0] by (auto simp: unat_word_ariths)
  note o = on_step_effect [OF assms(1) conjunct1 [OF ih] n(1) c]
  let ?i = "next_id s1 + 1"
  have h: "handle_ids sb' = insert ?i (handle_ids sb1)" by (simp add: handle_ids_def o(3))
  have lt: "next_id s1 < ?i" by (rule word_less_succ [OF n(1)])
  have "filter (\<lambda>e. entry_id e \<notin> handle_ids sb') (listeners s') =
      filter (\<lambda>e. entry_id e \<notin> handle_ids sb1) (filter (\<lambda>e. entry_id e \<noteq> ?i) (listeners s'))"
    by (simp add: h conj_commute)
  then have f: "filter (\<lambda>e. entry_id e \<notin> handle_ids sb') (listeners s') = listeners s" using ih o(4) by simp
  obtain e where e: "mset (listeners s') = add_mset e (mset (listeners s1))" "entry_id e = ?i" "name_or_pattern e = on_name c"
    using o(5) by blast
  have "\<forall>x \<in> set (listeners s1). entry_id x \<noteq> ?i"
    using conjunct1 [OF ih] lt by (auto simp: listeners_ok_def ids_ok_def)
  then have "filter_mset (\<lambda>e. entry_id e \<in> handle_ids sb') (mset (listeners s1)) =
      filter_mset (\<lambda>e. entry_id e \<in> handle_ids sb1) (mset (listeners s1))"
    by (intro filter_mset_cong) (auto simp: h)
  then have "image_mset name_or_pattern (filter_mset (\<lambda>e. entry_id e \<in> handle_ids sb') (mset (listeners s'))) =
      mset (map on_name (cs @ [c]))"
    using ih e h by simp
  then show ?case using o(1,2) f ih n h lt by auto
qed

section \<open>Property\<close>

text \<open>
  C18: a subscriber owns what it registered. Registering a subscriber whose \<^verbatim>\<open>register_to\<close> makes any number of \<^verbatim>\<open>on\<close>
  calls adds one listener per call, under the name or pattern of the call, and its handles own exactly
  those. Destroying it, however the table has changed meanwhile, removes exactly the listeners it still has; when
  nothing else happened, the table and every gauge are what they were before it was registered.
\<close>

theorem subscriber_roundtrip:
  fixes H :: "('f, 'm, 't, 'r, 'z) bus_host"
  assumes "prioritized_law H" and "listeners_ok g0 s" and "unat (next_id s) + length cs < 2 ^ 64"
    and "subscriptions sb = []" and "register_subscriber (register_to H cs) sb s = (sb', s')" and "ids_distinct t"
  shows "mset (map name_or_pattern (filter (\<lambda>e. entry_id e \<in> handle_ids sb') (listeners s'))) = mset (map on_name cs) \<and>
    listeners (subscriber_destroy release sb' t) = filter (\<lambda>e. entry_id e \<notin> handle_ids sb') (listeners t) \<and>
    listeners (subscriber_destroy release sb' s') = listeners s \<and>
    gauge n (subscriber_destroy release sb' s') = gauge n s"
proof -
  note r = register_to_effect [OF assms(1-4) assms(5) [unfolded register_subscriber_def]]
  have d: "ids_distinct s'" using conjunct1 [OF r] by (simp add: ids_distinct_def listeners_ok_def ids_ok_def)
  have l: "listeners (subscriber_destroy release sb' s') = listeners s" using destroy_filter [OF d, of sb'] r by simp
  have "listeners_ok g0 (subscriber_destroy release sb' s')"
    unfolding subscriber_destroy_def
    by (rule fold_invariant_set [where P = "listeners_ok g0"])
      (use r release_keeps in \<open>auto simp: keeps_listeners_ok_def subscription_destroy_def subscription_release_def\<close>)
  then show ?thesis
    using l r assms(2) destroy_filter [OF assms(6), of sb'] by (simp add: listeners_ok_def)
qed

theorem subscriber_roundtrip_witness:
  "\<exists>sb' s'. register_subscriber (register_to trace_host [OnType example_type ''created'', OnPattern ''order.*'' ''env''])
       \<lparr>subscriber_priority = 0, subscriptions = []\<rparr> (Bus_new example_parcel None []) = (sb', s') \<and>
     map name_or_pattern (listeners s') = [''order.created'', ''order.*''] \<and>
     listeners (subscriber_destroy release sb' s') = []"
proof -
  let ?s = "Bus_new example_parcel None [] :: (string, string, string, descriptor list, trace) bus_scheme"
    and ?cs = "[OnType example_type ''created'', OnPattern ''order.*'' ''env'']"
  obtain sb' s' where r: "register_subscriber (register_to trace_host ?cs) \<lparr>subscriber_priority = 0, subscriptions = []\<rparr> ?s = (sb', s')"
    by fastforce
  have m: "map name_or_pattern (listeners (snd (register_subscriber (register_to trace_host ?cs)
      \<lparr>subscriber_priority = 0, subscriptions = []\<rparr> ?s))) = [''order.created'', ''order.*'']"
    by code_simp
  have d: "ids_distinct ?s" by (simp add: ids_distinct_def)
  show ?thesis
    using subscriber_roundtrip [OF trace_host_table(3) Bus_new_ok _ _ r d] r m by auto
qed

end
