(* ===== verification/Relay.thy ===== *)
theory Relay
  imports World Glob Identity
begin

text \<open>
  \<^verbatim>\<open>include/conduit/relay/transport.hpp\<close>: the transport that hands matching envelopes to
  caller-supplied callbacks. Its routes interpret \<open>id_registry\<close>; the callbacks are a
  parameter over the whole state, so they may add and remove routes.
\<close>

section \<open>Model\<close>

record 'c Route =
  route_id :: "64 word"
  route_pattern :: string
  route_cb :: 'c

record 'c relay = world +
  routes :: "'c Route list"
  route_next_id :: "64 word"

type_synonym ('c, 'z) callback = "'c \<Rightarrow> env \<Rightarrow> ('c, 'z) relay_scheme \<Rightarrow> exn option \<times> ('c, 'z) relay_scheme"

definition add_route_impl :: "string \<Rightarrow> 'c \<Rightarrow> ('c, 'z) relay_scheme \<Rightarrow> 64 word \<times> ('c, 'z) relay_scheme" where
  "add_route_impl pattern cb s =
     (let i = route_next_id s + 1;
          s = s\<lparr>route_next_id := i\<rparr>
      in (i, s\<lparr>routes := routes s @ [\<lparr>route_id = i, route_pattern = pattern, route_cb = cb\<rparr>]\<rparr>))"

definition relay_new :: "'c \<Rightarrow> ('c, 'z) relay_scheme \<Rightarrow> ('c, 'z) relay_scheme" where
  "relay_new cb s = snd (add_route_impl ''**'' cb (s\<lparr>routes := [], route_next_id := 0\<rparr>))"

definition relay_new_pattern :: "string \<Rightarrow> 'c \<Rightarrow> ('c, 'z) relay_scheme \<Rightarrow> ('c, 'z) relay_scheme" where
  "relay_new_pattern pattern cb s = snd (add_route_impl pattern cb (s\<lparr>routes := [], route_next_id := 0\<rparr>))"

definition add_route :: "string \<Rightarrow> 'c \<Rightarrow> ('c, 'z) relay_scheme \<Rightarrow> 64 word \<times> ('c, 'z) relay_scheme" where
  "add_route pattern cb s = add_route_impl pattern cb s"

fun erase_route :: "64 word \<Rightarrow> 'c Route list \<Rightarrow> 'c Route list" where
  "erase_route i [] = []"
| "erase_route i (r # rs) = (if route_id r = i then rs else r # erase_route i rs)"

definition remove_route :: "64 word \<Rightarrow> ('c, 'z) relay_scheme \<Rightarrow> ('c, 'z) relay_scheme" where
  "remove_route i s = s\<lparr>routes := erase_route i (routes s)\<rparr>"

definition route_count :: "('c, 'z) relay_scheme \<Rightarrow> nat" where
  "route_count s = length (routes s)"

text \<open>\<^verbatim>\<open>dispatch\<close>: over a copy of the routes; what a callback throws is swallowed.\<close>

definition relay_one ::
  "('c, 'z) callback \<Rightarrow> env \<Rightarrow> string \<Rightarrow> 'c Route \<Rightarrow> ('c, 'z) relay_scheme \<Rightarrow> ('c, 'z) relay_scheme" where
  "relay_one C v name r s = (if glob_match (route_pattern r) name then snd (C (route_cb r) v s) else s)"

definition relay_dispatch ::
  "('c, 'z) callback \<Rightarrow> env \<Rightarrow> ('c, 'z) relay_scheme \<Rightarrow> ('c, 'z) relay_scheme" where
  "relay_dispatch C v s = fold (relay_one C v (name_of v s)) (routes s) s"

text \<open>The operations on routes as one sequence: additions and removals by id.\<close>

datatype 'c route_op = AddRoute string 'c | RemoveRoute "64 word"

fun route_step :: "'c route_op \<Rightarrow> ('c, 'z) relay_scheme \<Rightarrow> ('c, 'z) relay_scheme" where
  "route_step (AddRoute p cb) s = snd (add_route p cb s)"
| "route_step (RemoveRoute i) s = remove_route i s"

fun is_add :: "'c route_op \<Rightarrow> bool" where
  "is_add (AddRoute p cb) = True"
| "is_add (RemoveRoute i) = False"

text \<open>An observer to which each callback appends its own call.\<close>

definition relay_tracing :: "('c, 'z) callback \<Rightarrow> (('c, 'z) relay_scheme \<Rightarrow> 'l list) \<Rightarrow> ('c \<Rightarrow> env \<Rightarrow> 'l list) \<Rightarrow> bool" where
  "relay_tracing C lg ev \<longleftrightarrow> (\<forall>cb v s. lg (snd (C cb v s)) = lg s @ ev cb v)"

definition example_relay :: "(string, (string \<times> env) list) relay_scheme" where
  "example_relay = \<lparr>cores = [0 \<mapsto> example_core], heap_next = 1, metrics = [], clock = 0,
     routes = [], route_next_id = 0, \<dots> = []\<rparr>"

definition example_callback :: "(string, (string \<times> env) list) callback" where
  "example_callback cb v s =
     (if cb = ''boom'' then Some (Exn ForeignException cb) else None,
      remove_route 2 (relay.more_update (\<lambda>l. l @ [(cb, v)]) s))"

section \<open>Routes as a numbered container\<close>

lemma erase_route_ids: "map route_id (erase_route i rs) = remove1 i (map route_id rs)"
  by (induction rs) auto

interpretation route_ids: id_registry
  "\<lambda>s. map route_id (routes s)" route_next_id "\<lambda>(p, cb). add_route p cb" remove_route "\<lambda>s. True"
  by unfold_locales
    (auto simp: add_route_def add_route_impl_def remove_route_def erase_route_ids Let_def)

lemma route_step_ids:
  assumes "ids_ok (map route_id (routes s)) (route_next_id s)"
    and "is_add x \<Longrightarrow> route_next_id s < - 1"
  shows "ids_ok (map route_id (routes (route_step x s))) (route_next_id (route_step x s))"
proof (cases x)
  case (AddRoute p cb)
  obtain i s' where a: "add_route p cb s = (i, s')" by fastforce
  then show ?thesis
    using route_ids.add_ok [OF TrueI assms(1) _ , of "(p, cb)" i s'] assms(2) AddRoute by simp
next
  case (RemoveRoute i)
  then show ?thesis using route_ids.del_ok [OF assms(1)] by simp
qed

lemma erase_route_append:
  "i \<notin> route_id ` set rs \<Longrightarrow> erase_route i (rs @ [r]) = (if route_id r = i then rs else rs @ [r])"
  by (induction rs) auto

lemma route_step_counter:
  "route_next_id (route_step x s) = (if is_add x then route_next_id s + 1 else route_next_id s)"
  by (cases x) (simp_all add: add_route_def add_route_impl_def remove_route_def Let_def)

lemma set_erase_route: "set (erase_route i rs) \<subseteq> set rs"
  by (induction rs) auto

lemma route_step_no_old_id:
  assumes "i \<le> route_next_id s" and "is_add x \<Longrightarrow> route_next_id s < - 1" and "i \<notin> set (map route_id (routes s))"
  shows "i \<le> route_next_id (route_step x s) \<and> i \<notin> set (map route_id (routes (route_step x s)))"
proof (cases x)
  case (AddRoute p cb)
  obtain j s' where a: "add_route p cb s = (j, s')" by fastforce
  have "routes s' = routes s @ [\<lparr>route_id = j, route_pattern = p, route_cb = cb\<rparr>]"
    using a by (auto simp: add_route_def add_route_impl_def Let_def)
  then show ?thesis
    using route_ids.never_reissued [OF assms(1) _, of "(p, cb)" j s'] a assms(2,3) AddRoute by auto
next
  case (RemoveRoute j)
  then show ?thesis using assms set_erase_route [of j "routes s"] by (auto simp: remove_route_def)
qed

lemma route_ops_ids:
  assumes "ids_ok (map route_id (routes s)) (route_next_id s)"
    and "unat (route_next_id s) + length ops < 2 ^ 64"
  shows "ids_ok (map route_id (routes (fold route_step ops s))) (route_next_id (fold route_step ops s)) \<and>
    (\<forall>i \<le> route_next_id s. i \<notin> set (map route_id (routes s)) \<longrightarrow>
       i \<notin> set (map route_id (routes (fold route_step ops s))))"
  using assms
proof (induction ops arbitrary: s)
  case (Cons x ops)
  let ?s = "route_step x s"
  have bound: "unat (route_next_id s) + Suc (length ops) < 2 ^ 64" using Cons.prems(2) by simp
  note lt = word_less_of_unat [OF bound]
  have "ids_ok (map route_id (routes ?s)) (route_next_id ?s)"
    by (rule route_step_ids [OF Cons.prems(1) lt(1)])
  moreover have "unat (route_next_id ?s) + length ops < 2 ^ 64"
    using lt(2) bound by (simp add: route_step_counter)
  ultimately show ?case
    using Cons.IH [of ?s] route_step_no_old_id [OF _ lt(1), of _ x] by auto
qed simp

lemma relay_fold_trace:
  assumes "relay_tracing C lg ev"
  shows "lg (fold (relay_one C v n) rs s) =
    lg s @ concat (map (\<lambda>r. ev (route_cb r) v) (filter (\<lambda>r. glob_match (route_pattern r) n) rs))"
  using assms by (induction rs arbitrary: s) (auto simp: relay_one_def relay_tracing_def)

section \<open>Properties\<close>

text \<open>
  C23: relaying. Dispatch calls the callback of every route whose pattern matches the
  envelope's name once, in the order the routes were added, over the routes present at the start:
  a callback that throws, or adds or removes routes, does not change who is called. A relay
  made from a callback alone receives every envelope.
\<close>

theorem relay_dispatch_fanout:
  assumes "relay_tracing C lg ev"
  shows "lg (relay_dispatch C v s) = lg s @ concat (map (\<lambda>r. ev (route_cb r) v)
      (filter (\<lambda>r. glob_match (route_pattern r) (name_of v s)) (routes s))) \<and>
    lg (relay_dispatch C v (relay_new cb s)) = lg (relay_new cb s) @ ev cb v"
  using relay_fold_trace [OF assms] assms
  by (simp add: relay_dispatch_def relay_new_def add_route_impl_def Let_def glob_match_all relay_one_def
      relay_tracing_def)

theorem relay_dispatch_fanout_witness:
  "relay.more (relay_dispatch example_callback 0
     (fold route_step [AddRoute ''order.*'' ''boom'', AddRoute ''**'' ''b'', AddRoute ''user.*'' ''c''] example_relay)) =
   [(''boom'', 0), (''b'', 0)]"
proof -
  let ?s = "fold route_step [AddRoute ''order.*'' ''boom'', AddRoute ''**'' ''b'', AddRoute ''user.*'' ''c''] example_relay"
  have t: "relay_tracing example_callback relay.more (\<lambda>cb v. [(cb, v)])"
    by (simp add: relay_tracing_def example_callback_def remove_route_def)
  have s: "routes ?s = [\<lparr>route_id = 1, route_pattern = ''order.*'', route_cb = ''boom''\<rparr>,
      \<lparr>route_id = 2, route_pattern = ''**'', route_cb = ''b''\<rparr>, \<lparr>route_id = 3, route_pattern = ''user.*'', route_cb = ''c''\<rparr>]"
    "relay.more ?s = []" "cores ?s = [0 \<mapsto> example_core]"
    by (simp_all add: add_route_def add_route_impl_def example_relay_def Let_def)
  have n: "name_of 0 ?s = ''order.created''"
    unfolding name_of_def s by (simp add: env_name_def example_core_def example_type_def event_cell_def kind_id_def)
  have m: "glob_match ''order.*'' ''order.created''" "\<not> glob_match ''user.*'' ''order.created''"
    by code_simp+
  show ?thesis
    using relay_dispatch_fanout [OF t, of 0 ?s, THEN conjunct1] unfolding n s by (simp add: m glob_match_all)
qed

text \<open>
  Route ids. Below \<open>2\<^sup>6\<^sup>4\<close> additions every id is fresh, removing the id just returned gives
  back the routes as they were, removing an unknown id changes nothing, and an id that was
  removed is not handed out again by any later sequence of additions and removals.
\<close>

theorem relay_route_ids:
  assumes "ids_ok (map route_id (routes s)) (route_next_id s)" and "add_route p cb s = (i, s')"
    and "unat (route_next_id s) + Suc (length ops) < 2 ^ 64"
  shows "i \<notin> set (map route_id (routes s)) \<and> route_count s' = Suc (route_count s) \<and>
    routes (remove_route i s') = routes s \<and> routes (remove_route i s) = routes s \<and>
    i \<notin> set (map route_id (routes (fold route_step ops (remove_route i s')))) \<and>
    distinct (map route_id (routes (fold route_step ops s')))"
proof -
  note lt = word_less_of_unat [OF assms(3)]
  have fresh: "i \<notin> set (map route_id (routes s))"
    using route_ids.add_fresh(2) [OF assms(1) lt(1), of "(p, cb)" i s'] assms(2) by simp
  have s': "routes s' = routes s @ [\<lparr>route_id = i, route_pattern = p, route_cb = cb\<rparr>]" "route_next_id s' = i"
    "i = route_next_id s + 1"
    using assms(2) by (auto simp: add_route_def add_route_impl_def Let_def)
  have ok': "ids_ok (map route_id (routes s')) (route_next_id s')"
    using route_ids.add_ok [OF TrueI assms(1) lt(1), of "(p, cb)" i s'] assms(2) by simp
  have restored: "routes (remove_route i s') = routes s"
    using fresh s'(1) by (simp add: remove_route_def erase_route_append)
  have none: "j \<notin> route_id ` set rs \<Longrightarrow> erase_route j rs = rs" for j and rs :: "'a Route list"
    by (induction rs) auto
  have b: "unat (route_next_id s') + length ops < 2 ^ 64" using lt(2) s'(2,3) by simp
  have "i \<notin> set (map route_id (routes (fold route_step ops (remove_route i s'))))"
    using route_ops_ids [of "remove_route i s'" ops] route_ids.del_ok [OF ok', of i] restored fresh b s'(2)
    by (simp add: remove_route_def)
  moreover have "distinct (map route_id (routes (fold route_step ops s')))"
    using route_ops_ids [OF ok' b] by (simp add: ids_ok_def)
  ultimately show ?thesis
    using fresh restored none [of i "routes s"] s'(1) by (simp add: route_count_def remove_route_def)
qed

theorem relay_route_ids_witness:
  "\<exists>i s'. add_route ''a.*'' ''cb'' example_relay = (i, s') \<and> route_count s' = 1 \<and>
     routes (remove_route i s') = [] \<and>
     i \<notin> set (map route_id (routes (fold route_step [AddRoute ''b'' ''x''] (remove_route i s'))))"
proof -
  obtain i s' where a: "add_route ''a.*'' ''cb'' example_relay = (i, s')" by fastforce
  have ok: "ids_ok (map route_id (routes example_relay)) (route_next_id example_relay)"
    by (simp add: ids_ok_def example_relay_def)
  have b: "unat (route_next_id example_relay) + Suc (length [AddRoute ''b'' ''x'']) < 2 ^ 64"
    by (simp add: example_relay_def)
  from relay_route_ids [OF ok a b] have
    "route_count s' = 1 \<and> routes (remove_route i s') = [] \<and>
     i \<notin> set (map route_id (routes (fold route_step [AddRoute ''b'' ''x''] (remove_route i s'))))"
    by (simp add: example_relay_def route_count_def)
  with a show ?thesis by blast
qed

end
