(* ===== verification/Local.thy ===== *)
theory Local
  imports Prelude Events "HOL-Library.Multiset"
begin

text \<open>
  \<^verbatim>\<open>include/conduit/local/transport.hpp\<close>: the in-process transport. The constructor's
  treatment of the pool options is a function; dispatching, the pool's workers, completion and
  flush are a transition system in which each step is one critical section or one action of a
  worker, interleaved in any order. The thread pool itself is threadman's: what is assumed
  of it is in the steps (tasks start in submission order, at most \<^verbatim>\<open>max_workers\<close> at a time, and a
  submission may be refused).
\<close>

section \<open>Configuration\<close>

datatype Execution = DirectExec | QueueExec | ThreadPoolExec

text \<open>\<^verbatim>\<open>threadman::ThreadPoolOptions\<close>; its other members are the extension.\<close>

record ThreadPoolOptions =
  min_workers :: nat
  max_workers :: nat
  max_queue_size :: nat
  pool_name :: string

text \<open>The members the constructor sets; \<open>pool\<close> holds the options the pool was made with.\<close>

record 'o local_transport =
  mode :: Execution
  pool :: "'o option"
  capacity :: nat

definition local_new :: "string \<Rightarrow> Execution \<Rightarrow> 'z ThreadPoolOptions_scheme \<Rightarrow> 'z ThreadPoolOptions_scheme local_transport" where
  "local_new default_name m cfg =
     (if m = DirectExec then \<lparr>mode = m, pool = None, capacity = 0\<rparr>
      else let name_is_default = (pool_name cfg = [] \<or> pool_name cfg = default_name);
               cfg = (if m = QueueExec
                      then (let cfg = cfg\<lparr>min_workers := 1, max_workers := 1\<rparr>
                            in if name_is_default then cfg\<lparr>pool_name := ''conduit:local-queue''\<rparr> else cfg)
                      else if name_is_default then cfg\<lparr>pool_name := ''conduit:local''\<rparr> else cfg);
               cap = max_queue_size cfg
           in \<lparr>mode = m, pool = Some (cfg\<lparr>max_queue_size := 0\<rparr>), capacity = cap\<rparr>)"

definition thread_pool :: "string \<Rightarrow> 'z ThreadPoolOptions_scheme \<Rightarrow> 'z ThreadPoolOptions_scheme local_transport" where
  "thread_pool default_name cfg = local_new default_name ThreadPoolExec cfg"

definition queued :: "string \<Rightarrow> 'z ThreadPoolOptions_scheme \<Rightarrow> nat \<Rightarrow> 'z ThreadPoolOptions_scheme local_transport" where
  "queued default_name defaults queue_capacity =
     local_new default_name QueueExec (defaults\<lparr>max_queue_size := queue_capacity\<rparr>)"

text \<open>Whether \<^verbatim>\<open>dispatch\<close> delivers on the calling thread.\<close>

definition goes_direct :: "'o local_transport \<Rightarrow> FlagSet \<Rightarrow> bool" where
  "goes_direct t fs = (mode t = DirectExec \<or> contains_flag fs Direct \<or> pool t = None)"

section \<open>Dispatch, workers and flush\<close>

text \<open>
  The state of a running transport. A dispatch is a pair of the task whose handler makes it,
  if any, and the envelope: \<open>waiting\<close> before the reservation, \<open>reserved\<close> between the
  reservation and the return of \<^verbatim>\<open>execute\<close>. A task is in \<open>queue\<close>, \<open>running\<close> its delivery, or
  \<open>finishing\<close> between delivery and \<^verbatim>\<open>complete_one\<close>. \<open>submitted\<close>, \<open>delivered\<close> and \<open>refused\<close> record
  history.
\<close>

record 'e local_run =
  outstanding :: nat
  waiting :: "('e option \<times> 'e) multiset"
  reserved :: "('e option \<times> 'e) multiset"
  queue :: "'e list"
  running :: "'e multiset"
  finishing :: "'e multiset"
  submitted :: "'e list"
  delivered :: "'e list"
  refused :: "'e list"
  delivered_direct :: "'e list"

definition run_start :: "'e local_run" where
  "run_start = \<lparr>outstanding = 0, waiting = {#}, reserved = {#}, queue = [], running = {#}, finishing = {#},
     submitted = [], delivered = [], refused = [], delivered_direct = []\<rparr>"

definition complete_one :: "'e local_run \<Rightarrow> 'e local_run" where
  "complete_one s = s\<lparr>outstanding := outstanding s - 1\<rparr>"

text \<open>The wait condition on \<^verbatim>\<open>space_cv_\<close>.\<close>

definition has_space :: "nat \<Rightarrow> 'e local_run \<Rightarrow> bool" where
  "has_space cap s = (cap = 0 \<or> outstanding s < cap)"

definition reserve :: "'e option \<times> 'e \<Rightarrow> 'e local_run \<Rightarrow> 'e local_run" where
  "reserve d s = s\<lparr>waiting := waiting s - {#d#}, outstanding := outstanding s + 1, reserved := add_mset d (reserved s)\<rparr>"

text \<open>Returning from a dispatch: the handler that made it goes on.\<close>

definition resume :: "'e option \<Rightarrow> 'e local_run \<Rightarrow> 'e local_run" where
  "resume caller s = (case caller of None \<Rightarrow> s | Some e \<Rightarrow> s\<lparr>running := add_mset e (running s)\<rparr>)"

definition submit :: "'e option \<times> 'e \<Rightarrow> 'e local_run \<Rightarrow> 'e local_run" where
  "submit d s = resume (fst d) (s\<lparr>reserved := reserved s - {#d#}, queue := queue s @ [snd d],
     submitted := submitted s @ [snd d]\<rparr>)"

definition refuse :: "'e option \<times> 'e \<Rightarrow> 'e local_run \<Rightarrow> 'e local_run" where
  "refuse d s = resume (fst d) (complete_one (s\<lparr>reserved := reserved s - {#d#}, refused := refused s @ [snd d]\<rparr>))"

text \<open>The tasks whose handler is inside a dispatch.\<close>

definition callers :: "('e option \<times> 'e) multiset \<Rightarrow> 'e multiset" where
  "callers ds = image_mset (the \<circ> fst) (filter_mset (\<lambda>d. fst d \<noteq> None) ds)"

definition busy :: "'e local_run \<Rightarrow> nat" where
  "busy s = size (running s) + size (finishing s) + size (callers (waiting s)) + size (callers (reserved s))"

inductive local_internal :: "nat \<Rightarrow> nat \<Rightarrow> 'e local_run \<Rightarrow> 'e local_run \<Rightarrow> bool" for cap workers where
  reserve: "d \<in># waiting s \<Longrightarrow> has_space cap s \<Longrightarrow> local_internal cap workers s (reserve d s)"
| submit: "d \<in># reserved s \<Longrightarrow> local_internal cap workers s (submit d s)"
| refuse: "d \<in># reserved s \<Longrightarrow> local_internal cap workers s (refuse d s)"
| start: "queue s = e # q \<Longrightarrow> busy s < workers \<Longrightarrow>
    local_internal cap workers s (s\<lparr>queue := q, running := add_mset e (running s)\<rparr>)"
| deliver: "e \<in># running s \<Longrightarrow>
    local_internal cap workers s (s\<lparr>running := running s - {#e#}, finishing := add_mset e (finishing s),
      delivered := delivered s @ [e]\<rparr>)"
| complete: "e \<in># finishing s \<Longrightarrow>
    local_internal cap workers s (complete_one (s\<lparr>finishing := finishing s - {#e#}\<rparr>))"

inductive local_call :: "('e \<Rightarrow> bool) \<Rightarrow> 'e local_run \<Rightarrow> 'e local_run \<Rightarrow> bool" for direct where
  call: "\<not> direct e \<Longrightarrow> local_call direct s (s\<lparr>waiting := add_mset (None, e) (waiting s)\<rparr>)"
| nested: "e \<in># running s \<Longrightarrow> \<not> direct e' \<Longrightarrow>
    local_call direct s (s\<lparr>running := running s - {#e#}, waiting := add_mset (Some e, e') (waiting s)\<rparr>)"
| direct: "direct e \<Longrightarrow> local_call direct s (s\<lparr>delivered_direct := delivered_direct s @ [e]\<rparr>)"

definition local_step :: "nat \<Rightarrow> nat \<Rightarrow> ('e \<Rightarrow> bool) \<Rightarrow> 'e local_run \<Rightarrow> 'e local_run \<Rightarrow> bool" where
  "local_step cap workers direct s s' \<longleftrightarrow> local_internal cap workers s s' \<or> local_call direct s s'"

text \<open>The wait condition of \<^verbatim>\<open>flush\<close>.\<close>

definition drained :: "'e local_run \<Rightarrow> bool" where
  "drained s = (outstanding s = 0)"

text \<open>All units in flight, and what is left to do for them.\<close>

definition in_flight :: "'e local_run \<Rightarrow> nat" where
  "in_flight s = size (reserved s) + length (queue s) + busy s"

definition work_left :: "'e local_run \<Rightarrow> nat" where
  "work_left s = 5 * size (waiting s) + 4 * size (reserved s) + 3 * length (queue s) + 2 * size (running s) +
     size (finishing s) + 2 * size (callers (waiting s)) + 2 * size (callers (reserved s))"

definition run_ok :: "nat \<Rightarrow> nat \<Rightarrow> 'e local_run \<Rightarrow> bool" where
  "run_ok cap workers s \<longleftrightarrow>
     outstanding s = in_flight s \<and> (cap \<noteq> 0 \<longrightarrow> outstanding s \<le> cap) \<and> busy s \<le> workers \<and>
     (\<exists>started. submitted s = started @ queue s \<and>
        mset started = mset (delivered s) + running s + callers (waiting s) + callers (reserved s))"

text \<open>First in, first out: what was delivered is what was submitted first.\<close>

definition fifo_ok :: "'e local_run \<Rightarrow> bool" where
  "fifo_ok s \<longleftrightarrow> (\<exists>xs. submitted s = delivered s @ xs @ queue s \<and>
     mset xs = running s + callers (waiting s) + callers (reserved s))"

section \<open>Lemmas\<close>

lemma callers_simps [simp]:
  "callers {#} = {#}"
  "callers (add_mset (None, e) ds) = callers ds"
  "callers (add_mset (Some c, e) ds) = add_mset c (callers ds)"
  by (simp_all add: callers_def)

lemma run_ok_internal:
  assumes "run_ok cap workers s" and "local_internal cap workers s s'"
  shows "run_ok cap workers s'"
  using assms(2,1)
proof (induction rule: local_internal.induct)
  case (reserve d s)
  obtain c e where d: "d = (c, e)" by fastforce
  obtain w where "waiting s = add_mset d w" using multi_member_split [OF reserve(1)] by blast
  then show ?case using reserve d
    by (cases c) (auto simp: run_ok_def reserve_def has_space_def in_flight_def busy_def)
next
  case (submit d s)
  obtain c e where d: "d = (c, e)" by fastforce
  obtain w where "reserved s = add_mset d w" using multi_member_split [OF submit(1)] by blast
  then show ?case using submit d
    by (cases c) (auto simp: run_ok_def submit_def resume_def in_flight_def busy_def)
next
  case (refuse d s)
  obtain c e where d: "d = (c, e)" by fastforce
  obtain w where "reserved s = add_mset d w" using multi_member_split [OF refuse(1)] by blast
  then show ?case using refuse d
    by (cases c) (auto simp: run_ok_def refuse_def resume_def complete_one_def in_flight_def busy_def)
next
  case (start s e q)
  then obtain st where "submitted s = st @ e # q"
    "mset st = mset (delivered s) + running s + callers (waiting s) + callers (reserved s)"
    by (auto simp: run_ok_def)
  then have "submitted s = (st @ [e]) @ q" "mset (st @ [e]) = mset (delivered s) + add_mset e (running s) +
      callers (waiting s) + callers (reserved s)" by simp_all
  then show ?case using start by (auto simp: run_ok_def in_flight_def busy_def)
next
  case (deliver e s)
  obtain w where "running s = add_mset e w" using multi_member_split [OF deliver(1)] by blast
  then show ?case using deliver by (auto simp: run_ok_def in_flight_def busy_def)
next
  case (complete e s)
  obtain w where "finishing s = add_mset e w" using multi_member_split [OF complete(1)] by blast
  then show ?case using complete by (auto simp: run_ok_def complete_one_def in_flight_def busy_def)
qed

lemma run_ok_call:
  assumes "run_ok cap workers s" and "local_call direct s s'"
  shows "run_ok cap workers s'"
  using assms(2,1)
proof (induction rule: local_call.induct)
  case (nested e s e')
  obtain w where "running s = add_mset e w" using multi_member_split [OF nested(1)] by blast
  then show ?case using nested by (auto simp: run_ok_def in_flight_def busy_def)
qed (auto simp: run_ok_def in_flight_def busy_def)

lemma run_ok_start: "run_ok cap workers run_start"
  by (simp add: run_ok_def run_start_def in_flight_def busy_def)

lemma run_ok_reach:
  assumes "(local_step cap workers direct)\<^sup>*\<^sup>* run_start s"
  shows "run_ok cap workers s"
  using assms
  by (induction rule: rtranclp_induct) (auto simp: local_step_def run_ok_start intro: run_ok_internal run_ok_call)

lemma local_internal_work:
  assumes "local_internal cap workers s s'"
  shows "work_left s' < work_left s"
  using assms
proof (induction rule: local_internal.induct)
  case (reserve d s)
  obtain c e where d: "d = (c, e)" by fastforce
  obtain w where "waiting s = add_mset d w" using multi_member_split [OF reserve(1)] by blast
  then show ?case using d by (cases c) (auto simp: reserve_def work_left_def)
next
  case (submit d s)
  obtain c e where d: "d = (c, e)" by fastforce
  obtain w where "reserved s = add_mset d w" using multi_member_split [OF submit(1)] by blast
  then show ?case using d by (cases c) (auto simp: submit_def resume_def work_left_def)
next
  case (refuse d s)
  obtain c e where d: "d = (c, e)" by fastforce
  obtain w where "reserved s = add_mset d w" using multi_member_split [OF refuse(1)] by blast
  then show ?case using d by (cases c) (auto simp: refuse_def resume_def complete_one_def work_left_def)
next
  case (deliver e s)
  obtain w where "running s = add_mset e w" using multi_member_split [OF deliver(1)] by blast
  then show ?case by (simp add: work_left_def)
next
  case (complete e s)
  obtain w where "finishing s = add_mset e w" using multi_member_split [OF complete(1)] by blast
  then show ?case by (simp add: complete_one_def work_left_def)
qed (simp add: work_left_def)

lemma internal_progress:
  assumes "run_ok cap workers s" and "0 < workers" and "cap = 0 \<or> callers (waiting s) = {#}"
    and "waiting s \<noteq> {#} \<or> \<not> drained s"
  shows "\<exists>s'. local_internal cap workers s s'"
proof (rule ccontr)
  assume no: "\<not> ?thesis"
  have "reserved s = {#}" using no local_internal.submit by (metis multiset_nonemptyE)
  moreover have "running s = {#}" using no local_internal.deliver by (metis multiset_nonemptyE)
  moreover have "finishing s = {#}" using no local_internal.complete by (metis multiset_nonemptyE)
  ultimately have idle: "busy s = size (callers (waiting s))" "outstanding s = length (queue s) + size (callers (waiting s))"
    using assms(1) by (auto simp: run_ok_def in_flight_def busy_def)
  have "waiting s = {#} \<or> \<not> has_space cap s" using no local_internal.reserve by (metis multiset_nonemptyE)
  then have "waiting s = {#} \<or> cap \<noteq> 0 \<and> cap \<le> outstanding s" by (auto simp: has_space_def)
  then have none: "callers (waiting s) = {#}" using assms(3) by auto
  then have "queue s = []"
    using no local_internal.start idle(1) assms(2) by (metis list.exhaust size_empty)
  then have "outstanding s = 0" using idle(2) none by simp
  then show False
    using assms(4) \<open>waiting s = {#} \<or> cap \<noteq> 0 \<and> cap \<le> outstanding s\<close> by (auto simp: drained_def)
qed

lemma fifo_internal:
  assumes "run_ok cap 1 s" and "fifo_ok s" and "local_internal cap 1 s s'"
  shows "fifo_ok s'"
  using assms(3,1,2)
proof (induction rule: local_internal.induct)
  case (reserve d s)
  obtain c e where d: "d = (c, e)" by fastforce
  obtain w where "waiting s = add_mset d w" using multi_member_split [OF reserve(1)] by blast
  then show ?case using reserve d by (cases c) (auto simp: fifo_ok_def reserve_def)
next
  case (submit d s)
  obtain c e where d: "d = (c, e)" by fastforce
  obtain w where "reserved s = add_mset d w" using multi_member_split [OF submit(1)] by blast
  then show ?case using submit d by (cases c) (auto simp: fifo_ok_def submit_def resume_def)
next
  case (refuse d s)
  obtain c e where d: "d = (c, e)" by fastforce
  obtain w where "reserved s = add_mset d w" using multi_member_split [OF refuse(1)] by blast
  then show ?case using refuse d by (cases c) (auto simp: fifo_ok_def refuse_def resume_def complete_one_def)
next
  case (start s e q)
  then show ?case by (auto simp: fifo_ok_def busy_def intro: exI [of _ "[e]"])
next
  case (deliver e s)
  obtain w where w: "running s = add_mset e w" using multi_member_split [OF deliver(1)] by blast
  have "w = {#}" "callers (waiting s) = {#}" "callers (reserved s) = {#}"
    using deliver(2) w by (auto simp: run_ok_def busy_def)
  moreover obtain xs where xs: "submitted s = delivered s @ xs @ queue s"
      "mset xs = running s + callers (waiting s) + callers (reserved s)"
    using deliver(3) by (auto simp: fifo_ok_def)
  ultimately have "xs = [e]" using w by simp
  then show ?case using xs w \<open>w = {#}\<close> by (auto simp: fifo_ok_def intro: exI [of _ "[]"])
next
  case (complete e s)
  then show ?case by (auto simp: fifo_ok_def complete_one_def)
qed

lemma fifo_call:
  assumes "fifo_ok s" and "local_call direct s s'"
  shows "fifo_ok s'"
  using assms(2,1)
proof (induction rule: local_call.induct)
  case (nested e s e')
  obtain w where "running s = add_mset e w" using multi_member_split [OF nested(1)] by blast
  then show ?case using nested by (auto simp: fifo_ok_def)
qed (auto simp: fifo_ok_def)

lemma fifo_reach:
  assumes "(local_step cap 1 direct)\<^sup>*\<^sup>* run_start s"
  shows "fifo_ok s"
  using assms
proof (induction rule: rtranclp_induct)
  case base
  then show ?case by (simp add: fifo_ok_def run_start_def)
next
  case (step s s')
  then show ?case
    using fifo_internal [OF run_ok_reach [OF step(1)]] fifo_call by (auto simp: local_step_def)
qed

lemma internal_callers:
  "local_internal cap workers s s' \<Longrightarrow> callers (waiting s) = {#} \<Longrightarrow> callers (waiting s') = {#}"
proof (induction rule: local_internal.induct)
  case (reserve d s)
  obtain w where "waiting s = add_mset d w" using multi_member_split [OF reserve(1)] by blast
  then show ?case using reserve(3) by (cases d; cases "fst d") (auto simp: reserve_def)
qed (auto simp: submit_def refuse_def resume_def complete_one_def split: option.splits)

lemma internal_reach_keeps:
  assumes "(local_internal cap workers)\<^sup>*\<^sup>* s s'" and "run_ok cap workers s" and "cap = 0 \<or> callers (waiting s) = {#}"
  shows "run_ok cap workers s' \<and> (cap = 0 \<or> callers (waiting s') = {#})"
  using assms by (induction rule: rtranclp_induct) (auto intro: run_ok_internal internal_callers)

lemma internal_reaches_end:
  assumes "run_ok cap workers s" and "0 < workers" and "cap = 0 \<or> callers (waiting s) = {#}"
  shows "\<exists>s'. (local_internal cap workers)\<^sup>*\<^sup>* s s' \<and> drained s' \<and> waiting s' = {#}"
  using assms
proof (induction "work_left s" arbitrary: s rule: less_induct)
  case less
  show ?case
  proof (cases "waiting s \<noteq> {#} \<or> \<not> drained s")
    case True
    then obtain s1 where s1: "local_internal cap workers s s1" using internal_progress [OF less.prems] by blast
    have "run_ok cap workers s1" "cap = 0 \<or> callers (waiting s1) = {#}"
      using run_ok_internal [OF less.prems(1) s1] internal_callers [OF s1] less.prems(3) by auto
    then show ?thesis
      using less.hyps [OF local_internal_work [OF s1]] less.prems(2) s1 converse_rtranclp_into_rtranclp by metis
  qed auto
qed

text \<open>A run used by the witnesses: one envelope called and reserved, then submitted.\<close>

lemma demo_run:
  defines "s1 \<equiv> (run_start :: nat local_run)\<lparr>waiting := {#(None, 7)#}\<rparr>"
  defines "s2 \<equiv> (run_start :: nat local_run)\<lparr>reserved := {#(None, 7)#}, outstanding := 1\<rparr>"
  defines "s3 \<equiv> (run_start :: nat local_run)\<lparr>queue := [7], submitted := [7], outstanding := 1\<rparr>"
  defines "s4 \<equiv> (run_start :: nat local_run)\<lparr>running := {#7#}, submitted := [7], outstanding := 1\<rparr>"
  defines "s5 \<equiv> (run_start :: nat local_run)\<lparr>running := {#}, waiting := {#(Some 7, 8)#}, submitted := [7], outstanding := 1\<rparr>"
  shows "(local_step 1 1 (\<lambda>e. False))\<^sup>*\<^sup>* run_start s3" and "(local_step 1 1 (\<lambda>e. False))\<^sup>*\<^sup>* run_start s5"
proof -
  have 1: "local_step 1 1 (\<lambda>e. False) run_start s1"
    using call [of "\<lambda>e. False" "7 :: nat" run_start] by (simp add: local_step_def s1_def run_start_def)
  have 2: "local_step 1 1 (\<lambda>e. False) s1 s2"
    using local_internal.reserve [of "(None, 7 :: nat)" s1 1 1]
    by (simp add: local_step_def s1_def s2_def run_start_def reserve_def has_space_def)
  have 3: "local_step 1 1 (\<lambda>e. False) s2 s3"
    using local_internal.submit [of "(None, 7 :: nat)" s2 1 1]
    by (simp add: local_step_def s2_def s3_def run_start_def submit_def resume_def)
  have 4: "local_step 1 1 (\<lambda>e. False) s3 s4"
    using local_internal.start [of s3 7 "[]" 1 1]
    by (simp add: local_step_def s3_def s4_def run_start_def busy_def)
  have 5: "local_step 1 1 (\<lambda>e. False) s4 s5"
    using nested [of "7 :: nat" s4 "\<lambda>e. False" 8]
    by (simp add: local_step_def s4_def s5_def run_start_def)
  show r3: "(local_step 1 1 (\<lambda>e. False))\<^sup>*\<^sup>* run_start s3"
    using 1 2 3 by (auto intro: converse_rtranclp_into_rtranclp)
  show "(local_step 1 1 (\<lambda>e. False))\<^sup>*\<^sup>* run_start s5"
    using r3 4 5 by (auto intro: rtranclp.rtrancl_into_rtrancl)
qed

section \<open>Properties\<close>

text \<open>
  The constructor. Direct mode makes no pool; a queue gets exactly one worker whatever the
  options say; the requested bound becomes the transport's own capacity while the pool's queue
  is made unbounded, so that the pool never rejects for lack of room; the pool keeps a name
  the caller chose and gets conduit's otherwise; the remaining options are passed on.
\<close>

theorem local_constructor:
  "pool (local_new dn DirectExec cfg) = None \<and>
   (\<exists>opts. pool (local_new dn QueueExec cfg) = Some opts \<and> min_workers opts = 1 \<and> max_workers opts = 1 \<and> max_queue_size opts = 0 \<and>
      ThreadPoolOptions.more opts = ThreadPoolOptions.more cfg \<and>
      pool_name opts = (if pool_name cfg \<in> {[], dn} then ''conduit:local-queue'' else pool_name cfg)) \<and>
   (\<exists>opts. pool (local_new dn ThreadPoolExec cfg) = Some opts \<and> min_workers opts = min_workers cfg \<and>
      max_workers opts = max_workers cfg \<and> max_queue_size opts = 0 \<and>
      ThreadPoolOptions.more opts = ThreadPoolOptions.more cfg \<and>
      pool_name opts = (if pool_name cfg \<in> {[], dn} then ''conduit:local'' else pool_name cfg)) \<and>
   capacity (queued dn cfg n) = n \<and> capacity (thread_pool dn cfg) = max_queue_size cfg \<and>
   goes_direct (local_new dn m cfg) fs = (m = DirectExec \<or> contains_flag fs Direct)"
  by (cases m) (auto simp: local_new_def queued_def thread_pool_def goes_direct_def Let_def)



text \<open>
  Flush. Whenever the condition flush waits for holds, in any reachable state, no
  envelope is reserved, queued or being delivered, and everything ever submitted has been
  delivered exactly once.
\<close>

theorem flush_means_delivered:
  assumes "(local_step cap workers direct)\<^sup>*\<^sup>* run_start s" and "drained s"
  shows "reserved s = {#} \<and> queue s = [] \<and> busy s = 0 \<and> mset (delivered s) = mset (submitted s)"
  using run_ok_reach [OF assms(1)] assms(2) by (auto simp: run_ok_def drained_def in_flight_def busy_def)

theorem flush_means_delivered_witness:
  "drained (run_start :: nat local_run) \<and> mset (delivered run_start) = mset (submitted (run_start :: nat local_run))"
  using flush_means_delivered [of 1 1 "\<lambda>e. False" "run_start :: nat local_run"]
  by (simp add: drained_def run_start_def)

text \<open>
  Order in queue mode. With the single worker of \<^verbatim>\<open>Execution::Queue\<close>, deliveries happen in
  submission order: what has been delivered is a prefix of what was submitted, followed by at most
  one envelope in its handler and the queue.
\<close>

theorem queue_mode_is_fifo:
  assumes "(local_step cap 1 direct)\<^sup>*\<^sup>* run_start s"
  shows "\<exists>xs. submitted s = delivered s @ xs @ queue s \<and> length xs \<le> 1"
proof -
  obtain xs where xs: "submitted s = delivered s @ xs @ queue s"
      "mset xs = running s + callers (waiting s) + callers (reserved s)"
    using fifo_reach [OF assms] by (auto simp: fifo_ok_def)
  have "busy s \<le> 1" using run_ok_reach [OF assms] by (simp add: run_ok_def)
  then have "size (mset xs) \<le> 1" unfolding xs(2) by (simp add: busy_def)
  then show ?thesis using xs(1) by auto
qed

theorem queue_mode_is_fifo_witness:
  "\<exists>s. (local_step 1 1 (\<lambda>e. False))\<^sup>*\<^sup>* (run_start :: nat local_run) s \<and> queue s = [7] \<and>
     (\<exists>xs. submitted s = delivered s @ xs @ queue s \<and> length xs \<le> 1)"
  using queue_mode_is_fifo [OF demo_run(1)] demo_run(1)
  by (intro exI [of _ "run_start\<lparr>queue := [7], submitted := [7], outstanding := 1\<rparr>"]) simp




end
