(* ===== verification/Filtered.thy ===== *)
theory Filtered
  imports BusRegistration
begin

text \<open>
  \<^verbatim>\<open>include/conduit/transport.hpp\<close> and \<^verbatim>\<open>include/conduit/filtered_transport.hpp\<close>: the base
  class of transports with its inbound sink, and the wrapper that puts predicates around
  any transport, itself included. Concrete transports are leaves; a leaf's virtual methods
  and the user's predicates are parameters.
\<close>

section \<open>Model\<close>

text \<open>
  The closures the code installs as \<^verbatim>\<open>InboundSink\<close>: an empty one, the one built by
  \<^verbatim>\<open>Transport::attach\<close>, and the two of \<^verbatim>\<open>FilteredTransport\<close>; an empty predicate is \<open>None\<close>.
\<close>

datatype 'p inbound_sink =
    NullSink
  | BusSink
  | FilteredBusSink "'p option"
  | FilteredSink "'p option" "'p inbound_sink"

datatype ('l, 'p) transport =
    Leaf 'l
  | FilteredTransport (inner: "('l, 'p) transport") (outbound: "'p option") (inbound: "'p option")

text \<open>The base-class members of each leaf.\<close>

record ('f, 'm, 'l, 'p, 'r) wired = "('f, 'm, ('l, 'p) transport, 'r) bus" +
  bus_ptr :: "'l \<Rightarrow> bool"
  sink_of :: "'l \<Rightarrow> 'p inbound_sink"

type_synonym ('f, 'm, 'l, 'p, 'r, 'z) wired_host =
  "(('f, 'm, 'l, 'p, 'r, 'z) wired_scheme, 'f, 'm, ('l, 'p) transport, 'r) host"

text \<open>What a leaf overrides, and the user's predicates.\<close>

record ('s, 'l, 'p) leaf_ops =
  call_predicate :: "'p \<Rightarrow> env \<Rightarrow> 's \<Rightarrow> bool throws \<times> 's"
  leaf_scope :: "'l \<Rightarrow> TransportScope"
  leaf_attach :: "'l \<Rightarrow> 'p inbound_sink \<Rightarrow> 's \<Rightarrow> exn option \<times> 's"
  leaf_dispatch :: "'l \<Rightarrow> env \<Rightarrow> 's \<Rightarrow> exn option \<times> 's"
  leaf_flush :: "'l \<Rightarrow> 's \<Rightarrow> exn option \<times> 's"
  leaf_detach :: "'l \<Rightarrow> 's \<Rightarrow> 's"

text \<open>The base class \<^verbatim>\<open>attach_with_sink\<close>.\<close>

definition base_attach_with_sink ::
  "'l \<Rightarrow> 'p inbound_sink \<Rightarrow> ('f, 'm, 'l, 'p, 'r, 'z) wired_scheme \<Rightarrow>
     exn option \<times> ('f, 'm, 'l, 'p, 'r, 'z) wired_scheme" where
  "base_attach_with_sink l sink s = (None, s\<lparr>bus_ptr := (bus_ptr s)(l := True), sink_of := (sink_of s)(l := sink)\<rparr>)"

text \<open>
  The test both wrappers make: an empty predicate allows, one that throws does not.
\<close>

definition allowed :: "('s, 'l, 'p) leaf_ops \<Rightarrow> 'p option \<Rightarrow> env \<Rightarrow> 's \<Rightarrow> bool \<times> 's" where
  "allowed L p v s =
     (case p of
        None \<Rightarrow> (True, s)
      | Some q \<Rightarrow> (case call_predicate L q v s of
           (Inr allow, s) \<Rightarrow> (allow, s)
         | (Inl ep, s) \<Rightarrow> (False, s)))"

fun run_sink ::
  "(('f, 'm, 'l, 'p, 'r, 'z) wired_scheme, 'l, 'p) leaf_ops \<Rightarrow> ('f, 'm, 'l, 'p, 'r, 'z) wired_host \<Rightarrow>
     'p inbound_sink \<Rightarrow> env \<Rightarrow> ('f, 'm, 'l, 'p, 'r, 'z) wired_scheme \<Rightarrow> ('f, 'm, 'l, 'p, 'r, 'z) wired_scheme" where
  "run_sink L H NullSink v s = s"
| "run_sink L H BusSink v s = deliver_to_listeners H v s"
| "run_sink L H (FilteredBusSink p) v s =
     (case allowed L p v s of (allow, s) \<Rightarrow> if allow then deliver_to_listeners H v s else s)"
| "run_sink L H (FilteredSink p sink) v s =
     (case allowed L p v s of (allow, s) \<Rightarrow> if allow \<and> sink \<noteq> NullSink then run_sink L H sink v s else s)"

text \<open>\<^verbatim>\<open>deliver_inbound\<close>, which a leaf calls with what it received.\<close>

definition deliver_inbound ::
  "(('f, 'm, 'l, 'p, 'r, 'z) wired_scheme, 'l, 'p) leaf_ops \<Rightarrow> ('f, 'm, 'l, 'p, 'r, 'z) wired_host \<Rightarrow>
     'l \<Rightarrow> env \<Rightarrow> ('f, 'm, 'l, 'p, 'r, 'z) wired_scheme \<Rightarrow> ('f, 'm, 'l, 'p, 'r, 'z) wired_scheme" where
  "deliver_inbound L H l v s = (if sink_of s l \<noteq> NullSink then run_sink L H (sink_of s l) v s else s)"

fun attach_with_sink :: "('s, 'l, 'p) leaf_ops \<Rightarrow> ('l, 'p) transport \<Rightarrow> 'p inbound_sink \<Rightarrow> 's \<Rightarrow> exn option \<times> 's" where
  "attach_with_sink L (Leaf l) sink s = leaf_attach L l sink s"
| "attach_with_sink L (FilteredTransport t out inb) sink s = attach_with_sink L t (FilteredSink inb sink) s"

text \<open>The base class \<^verbatim>\<open>attach\<close>, with the sink that forwards to the bus.\<close>

definition base_attach :: "('s, 'l, 'p) leaf_ops \<Rightarrow> ('l, 'p) transport \<Rightarrow> 's \<Rightarrow> exn option \<times> 's" where
  [simp]: "base_attach L t s = attach_with_sink L t BusSink s"

fun transport_attach :: "('s, 'l, 'p) leaf_ops \<Rightarrow> ('l, 'p) transport \<Rightarrow> 's \<Rightarrow> exn option \<times> 's" where
  "transport_attach L (Leaf l) s = base_attach L (Leaf l) s"
| "transport_attach L (FilteredTransport t out inb) s = attach_with_sink L t (FilteredBusSink inb) s"

fun transport_scope :: "('s, 'l, 'p) leaf_ops \<Rightarrow> ('l, 'p) transport \<Rightarrow> TransportScope" where
  "transport_scope L (Leaf l) = leaf_scope L l"
| "transport_scope L (FilteredTransport t out inb) = transport_scope L t"

fun transport_dispatch :: "('s, 'l, 'p) leaf_ops \<Rightarrow> ('l, 'p) transport \<Rightarrow> env \<Rightarrow> 's \<Rightarrow> exn option \<times> 's" where
  "transport_dispatch L (Leaf l) v s = leaf_dispatch L l v s"
| "transport_dispatch L (FilteredTransport t out inb) v s =
     (case allowed L out v s of (allow, s) \<Rightarrow> if \<not> allow then (None, s) else transport_dispatch L t v s)"

fun transport_flush :: "('s, 'l, 'p) leaf_ops \<Rightarrow> ('l, 'p) transport \<Rightarrow> 's \<Rightarrow> exn option \<times> 's" where
  "transport_flush L (Leaf l) s = leaf_flush L l s"
| "transport_flush L (FilteredTransport t out inb) s = transport_flush L t s"

fun transport_detach :: "('s, 'l, 'p) leaf_ops \<Rightarrow> ('l, 'p) transport \<Rightarrow> 's \<Rightarrow> 's" where
  "transport_detach L (Leaf l) s = leaf_detach L l s"
| "transport_detach L (FilteredTransport t out inb) s = transport_detach L t s"

text \<open>A bus whose transports are these.\<close>

definition host_of_leaves ::
  "(('f, 'm, 'l, 'p, 'r, 'z) wired_scheme, 'l, 'p) leaf_ops \<Rightarrow> ('f, 'm, 'l, 'p, 'r, 'z) wired_host \<Rightarrow>
     ('f, 'm, 'l, 'p, 'r, 'z) wired_host" where
  "host_of_leaves L H = H\<lparr>t_scope := transport_scope L, t_attach := transport_attach L,
     t_dispatch := transport_dispatch L, t_flush := transport_flush L, t_detach := transport_detach L\<rparr>"

text \<open>
  The specification of a stack of wrappers: its leaf, its predicates outermost first, and
  the question whether all of a list of predicates allow, asked in order until one does not.
\<close>

fun leaf_of :: "('l, 'p) transport \<Rightarrow> 'l" where
  "leaf_of (Leaf l) = l"
| "leaf_of (FilteredTransport t out inb) = leaf_of t"

fun outbound_stack :: "('l, 'p) transport \<Rightarrow> 'p option list" where
  "outbound_stack (Leaf l) = []"
| "outbound_stack (FilteredTransport t out inb) = out # outbound_stack t"

fun inbound_stack :: "('l, 'p) transport \<Rightarrow> 'p option list" where
  "inbound_stack (Leaf l) = []"
| "inbound_stack (FilteredTransport t out inb) = inb # inbound_stack t"

fun ask_all :: "('s, 'l, 'p) leaf_ops \<Rightarrow> 'p option list \<Rightarrow> env \<Rightarrow> 's \<Rightarrow> bool \<times> 's" where
  "ask_all L [] v s = (True, s)"
| "ask_all L (None # ps) v s = ask_all L ps v s"
| "ask_all L (Some q # ps) v s =
     (let (answer, s) = call_predicate L q v s
      in if answer = Inr True then ask_all L ps v s else (False, s))"

text \<open>What a sink does: the predicates it asks, in order, before the bus.\<close>

fun sink_stack :: "'p inbound_sink \<Rightarrow> 'p option list" where
  "sink_stack NullSink = []"
| "sink_stack BusSink = []"
| "sink_stack (FilteredBusSink p) = [p]"
| "sink_stack (FilteredSink p sink) = p # sink_stack sink"

fun reaches_bus :: "'p inbound_sink \<Rightarrow> bool" where
  "reaches_bus NullSink = False"
| "reaches_bus BusSink = True"
| "reaches_bus (FilteredBusSink p) = True"
| "reaches_bus (FilteredSink p sink) = reaches_bus sink"

text \<open>The sink an attach installs on the leaf, through any number of wrappers.\<close>

fun attach_sink :: "('l, 'p) transport \<Rightarrow> 'p inbound_sink \<Rightarrow> 'p inbound_sink" where
  "attach_sink (Leaf l) sink = sink"
| "attach_sink (FilteredTransport t out inb) sink = attach_sink t (FilteredSink inb sink)"

text \<open>
  A concrete instance: one leaf kind that keeps what the base class keeps, predicates named by
  strings (\<open>deny\<close> refuses, \<open>boom\<close> throws, the rest allow), and a log of what was asked and called.
\<close>

type_synonym demo = "(string, string, string, string, descriptor list, string list) wired_scheme"

definition note_demo :: "string \<Rightarrow> demo \<Rightarrow> demo" where
  "note_demo x s = wired.more_update (\<lambda>l. l @ [x]) s"

definition demo_leaves :: "(demo, string, string) leaf_ops" where
  "demo_leaves =
     \<lparr>call_predicate = (\<lambda>p v s. (if p = ''boom'' then Inl (Exn ForeignException p) else Inr (p \<noteq> ''deny''), note_demo p s)),
      leaf_scope = (\<lambda>l. if l = ''mqtt'' then Remote else Local),
      leaf_attach = base_attach_with_sink,
      leaf_dispatch = (\<lambda>l v s. (None, note_demo l s)),
      leaf_flush = (\<lambda>l s. (None, s)),
      leaf_detach = (\<lambda>l s. s)\<rparr>"

definition demo_host :: "(string, string, string, string, descriptor list, string list) wired_host" where
  "demo_host =
     \<lparr>parcel = example_parcel, now = int, generate_ulid = (\<lambda>v. of_nat v),
      derives = (\<lambda>a b. a = b), default_priority = 0,
      insert_transport = (\<lambda>t ts. ts @ [t]), insert_middleware = (\<lambda>m ms. ms @ [m]),
      insert_listener = (\<lambda>p e es. es @ [e]),
      invocable_payload = (\<lambda>T f. False), invocable_envelope = (\<lambda>f. True),
      has_priority = (\<lambda>f. False), handler_null = (\<lambda>f. False), handler_priority = (\<lambda>f. 0),
      call_payload = (\<lambda>f c s. (None, note_demo f s)),
      call_envelope = (\<lambda>f v s. (None, note_demo f s)),
      call_on_event = (\<lambda>f c s. (None, note_demo f s)),
      before_dispatch = (\<lambda>m v s. (Inr True, v, s)),
      after_dispatch = (\<lambda>m v s. (None, v, s)),
      on_error = (\<lambda>m v e s. (None, v, s)),
      on_transport_error = (\<lambda>m n e s. (None, s)),
      t_scope = transport_scope demo_leaves, t_attach = transport_attach demo_leaves,
      t_dispatch = transport_dispatch demo_leaves, t_flush = transport_flush demo_leaves,
      t_detach = transport_detach demo_leaves\<rparr>"

definition demo_bus :: "string ListenerEntry list \<Rightarrow> demo" where
  "demo_bus es =
     (Bus_new example_parcel None \<lparr>bus_ptr = (\<lambda>l. False), sink_of = (\<lambda>l. NullSink), \<dots> = []\<rparr>)
       \<lparr>cores := [0 \<mapsto> example_core], heap_next := 1, listeners := es\<rparr>"

definition demo_stack :: "(string, string) transport" where
  "demo_stack = FilteredTransport (FilteredTransport (Leaf ''tcp'') None (Some ''inner'')) (Some ''out'') (Some ''outer'')"

definition demo_attached :: demo where
  "demo_attached = snd (transport_attach demo_leaves demo_stack (demo_bus [example_entry 1 ''h'' ''**'']))"

section \<open>Lemmas\<close>

lemma ask_all_allowed [simp]:
  "ask_all L (p # ps) v s = (case allowed L p v s of (allow, s) \<Rightarrow> if allow then ask_all L ps v s else (False, s))"
  by (cases p) (auto simp: allowed_def split: prod.splits sum.splits)

declare ask_all.simps(2,3) [simp del]

lemma ask_all_append:
  "ask_all L (ps @ qs) v s = (case ask_all L ps v s of (allow, s') \<Rightarrow> if allow then ask_all L qs v s' else (False, s'))"
  by (induction ps arbitrary: s) (auto split: prod.splits)

lemma run_sink_asks:
  "reaches_bus sink \<Longrightarrow> run_sink L H sink v s =
     (case ask_all L (sink_stack sink) v s of (allow, s') \<Rightarrow> if allow then deliver_to_listeners H v s' else s')"
proof (induction sink arbitrary: s)
  case (FilteredSink p sink)
  then have "sink \<noteq> NullSink" by auto
  then show ?case using FilteredSink by (auto split: prod.splits)
qed (auto split: prod.splits)

lemma attach_with_sink_leaf: "attach_with_sink L t sink s = leaf_attach L (leaf_of t) (attach_sink t sink) s"
  by (induction t arbitrary: sink) auto

lemma attach_sink_stack: "sink_stack (attach_sink t sink) = rev (inbound_stack t) @ sink_stack sink"
  by (induction t arbitrary: sink) auto

lemma attach_sink_reaches: "reaches_bus (attach_sink t sink) = reaches_bus sink"
  by (induction t arbitrary: sink) auto

lemma dispatch_asks:
  "transport_dispatch L t v s =
     (case ask_all L (outbound_stack t) v s of (allow, s') \<Rightarrow> if allow then leaf_dispatch L (leaf_of t) v s' else (None, s'))"
  by (induction t arbitrary: s) (auto split: prod.splits)

lemma transport_attach_leaf:
  "\<exists>sink. transport_attach L t s = leaf_attach L (leaf_of t) sink s \<and> reaches_bus sink \<and>
     sink_stack sink = rev (inbound_stack t)"
  by (cases t) (auto simp: attach_with_sink_leaf attach_sink_stack attach_sink_reaches)

lemma forwards:
  "transport_scope L t = leaf_scope L (leaf_of t)"
  "transport_flush L t s = leaf_flush L (leaf_of t) s"
  "transport_detach L t s = leaf_detach L (leaf_of t) s"
  by (induction t) auto

lemma note_demo_simps:
  "listeners (note_demo p u) = listeners u" "cores (note_demo p u) = cores u"
  "wired.more (note_demo p u) = wired.more u @ [p]"
  by (simp_all add: note_demo_def)

lemma demo_allowed:
  "allowed demo_leaves None v u = (True, u)"
  "p \<notin> {''deny'', ''boom''} \<Longrightarrow> allowed demo_leaves (Some p) v u = (True, note_demo p u)"
  by (simp_all add: allowed_def demo_leaves_def)

lemma demo_dispatch: "leaf_dispatch demo_leaves l v s = (None, note_demo l s)"
  by (simp add: demo_leaves_def)

lemma demo_attached_simps:
  "listeners demo_attached = [example_entry 1 ''h'' ''**'']" "wired.more demo_attached = []"
  by (simp_all add: demo_attached_def demo_stack_def demo_leaves_def base_attach_with_sink_def demo_bus_def Bus_new_def)

section \<open>Properties\<close>

text \<open>
  C15: a transport wrapped any number of times is its leaf with the lists of predicates around
  it. Dispatch asks the outbound predicates from the outermost wrapper inwards and reaches the
  leaf when all allow; what the leaf receives is put to the inbound predicates from the
  innermost wrapper outwards and reaches the bus's listeners when all allow. An empty predicate
  allows, a throwing one refuses, and the first refusal ends the questions. Scope, flush and
  detach are the leaf's.
\<close>

theorem filtered_stack:
  fixes H :: "('f, 'm, 'l, 'p, 'r, 'z) wired_host"
  assumes "\<And>l sink s. leaf_attach L l sink s = base_attach_with_sink l sink s"
    and "transport_attach L t s0 = (None, s1)" and "sink_of s (leaf_of t) = sink_of s1 (leaf_of t)"
  shows "deliver_inbound L H (leaf_of t) v s =
      (case ask_all L (rev (inbound_stack t)) v s of (allow, s') \<Rightarrow> if allow then deliver_to_listeners H v s' else s') \<and>
    transport_dispatch L t v s =
      (case ask_all L (outbound_stack t) v s of (allow, s') \<Rightarrow> if allow then leaf_dispatch L (leaf_of t) v s' else (None, s')) \<and>
    transport_scope L t = leaf_scope L (leaf_of t) \<and> transport_flush L t s = leaf_flush L (leaf_of t) s \<and>
    transport_detach L t s = leaf_detach L (leaf_of t) s"
proof -
  obtain sink where k: "transport_attach L t s0 = leaf_attach L (leaf_of t) sink s0" "reaches_bus sink"
      "sink_stack sink = rev (inbound_stack t)"
    using transport_attach_leaf [of L t s0] by blast
  have "sink_of s (leaf_of t) = sink"
    using assms(2,3) k(1) by (auto simp: assms(1) base_attach_with_sink_def)
  then show ?thesis
    using k(2,3) run_sink_asks [OF k(2), of L H v s] dispatch_asks [of L t v s]
    by (auto simp: deliver_inbound_def forwards)
qed

theorem filtered_stack_witness:
  "wired.more (deliver_inbound demo_leaves demo_host ''tcp'' 0 demo_attached) = [''inner'', ''outer'', ''h''] \<and>
   wired.more (snd (transport_dispatch demo_leaves demo_stack 0 demo_attached)) = [''out'', ''tcp'']"
proof -
  have b: "leaf_attach demo_leaves l sink u = base_attach_with_sink l sink u" for l sink u
    by (simp add: demo_leaves_def)
  have a: "transport_attach demo_leaves demo_stack (demo_bus [example_entry 1 ''h'' ''**'']) = (None, demo_attached)"
    by (simp add: demo_attached_def demo_stack_def b base_attach_with_sink_def)
  have d: "wired.more (deliver_to_listeners demo_host 0 u) = wired.more u @ [''h'']"
    if "listeners u = [example_entry 1 ''h'' ''**'']" for u
    using that glob_match_all
    by (simp add: deliver_to_listeners_def deliver_one_def entry_matches_def example_entry_def demo_host_def
        note_demo_simps meter_def)
  have t: "leaf_of demo_stack = ''tcp''" "rev (inbound_stack demo_stack) = [Some ''inner'', Some ''outer'']"
    "outbound_stack demo_stack = [Some ''out'', None]"
    by (simp_all add: demo_stack_def)
  note r = filtered_stack [OF b a refl, of demo_host 0, unfolded t]
  have "deliver_inbound demo_leaves demo_host ''tcp'' 0 demo_attached =
      deliver_to_listeners demo_host 0 (note_demo ''outer'' (note_demo ''inner'' demo_attached))"
    using r by (simp add: demo_allowed)
  moreover have "transport_dispatch demo_leaves demo_stack 0 demo_attached = (None, note_demo ''tcp'' (note_demo ''out'' demo_attached))"
    using r by (simp add: demo_allowed demo_dispatch)
  ultimately show ?thesis using d [of "note_demo ''outer'' (note_demo ''inner'' demo_attached)"]
    by (simp add: note_demo_simps demo_attached_simps)
qed

text \<open>
  \<^verbatim>\<open>attach(bus)\<close> is \<^verbatim>\<open>attach_with_sink\<close> with the sink that forwards to
  \<^verbatim>\<open>deliver_to_listeners\<close>, also for wrapped transports, whose \<^verbatim>\<open>attach\<close> is written out separately:
  both put a sink on the same leaf, and the sinks treat every envelope alike in every state.
\<close>

theorem attach_is_default_sink:
  "\<exists>a b. transport_attach L t s = leaf_attach L (leaf_of t) a s \<and>
     attach_with_sink L t BusSink s = leaf_attach L (leaf_of t) b s \<and>
     (\<forall>v s'. run_sink L H a v s' = run_sink L H b v s')"
proof -
  obtain a where a: "transport_attach L t s = leaf_attach L (leaf_of t) a s" "reaches_bus a"
      "sink_stack a = rev (inbound_stack t)"
    using transport_attach_leaf [of L t s] by blast
  let ?b = "attach_sink t BusSink"
  have "reaches_bus ?b" "sink_stack ?b = rev (inbound_stack t)"
    by (simp_all add: attach_sink_reaches attach_sink_stack)
  then have "run_sink L H a v s' = run_sink L H ?b v s'" for v s'
    using a(2,3) by (simp add: run_sink_asks)
  then show ?thesis using a(1) attach_with_sink_leaf [of L t BusSink s] by blast
qed

end
