(* ===== verification/LocalBus.thy ===== *)
theory LocalBus
  imports Filtered Local
begin

text \<open>
  The bus and \<^verbatim>\<open>local::Transport\<close> together: \<^verbatim>\<open>dispatch\<close> of \<^verbatim>\<open>include/conduit/local/transport.hpp\<close> as the bus sees it. An
  envelope is delivered at once or kept as a task of the pool, and the workers deliver the tasks through the sink the
  transport was attached with. The reservation and the completion, which bound the number of tasks, are the subject
  of \<open>Local\<close>; a dispatch here is one whose reservation has been granted.
\<close>

section \<open>Model\<close>

text \<open>The tasks submitted to the pool of each leaf and not yet run.\<close>

record ('f, 'm, 'l, 'p, 'r) pooled = "('f, 'm, 'l, 'p, 'r) wired" +
  tasks :: "'l \<Rightarrow> env list"

type_synonym ('f, 'm, 'l, 'p, 'r, 'z) pooled_host =
  "(('f, 'm, 'l, 'p, 'r, 'z) pooled_scheme, 'f, 'm, ('l, 'p) transport, 'r) host"

type_synonym ('f, 'm, 'l, 'p, 'r, 'z) pooled_leaves =
  "(('f, 'm, 'l, 'p, 'r, 'z) pooled_scheme, 'l, 'p) leaf_ops"

definition local_dispatch ::
  "'o local_transport \<Rightarrow> ('f, 'm, 'l, 'p, 'r, 'z) pooled_leaves \<Rightarrow> ('f, 'm, 'l, 'p, 'r, 'z) pooled_host \<Rightarrow> 'l \<Rightarrow> env \<Rightarrow>
     ('f, 'm, 'l, 'p, 'r, 'z) pooled_scheme \<Rightarrow> exn option \<times> ('f, 'm, 'l, 'p, 'r, 'z) pooled_scheme" where
  "local_dispatch t L H l v s =
     (if goes_direct t (core_flags (core_at v s)) then (None, deliver_inbound L H l v s)
      else (None, s\<lparr>tasks := (tasks s)(l := tasks s l @ [v])\<rparr>))"

text \<open>A worker runs the task at one position of the queue; a single worker always runs the first.\<close>

definition run_pool_task ::
  "('f, 'm, 'l, 'p, 'r, 'z) pooled_leaves \<Rightarrow> ('f, 'm, 'l, 'p, 'r, 'z) pooled_host \<Rightarrow> 'l \<Rightarrow> nat \<Rightarrow>
     ('f, 'm, 'l, 'p, 'r, 'z) pooled_scheme \<Rightarrow> ('f, 'm, 'l, 'p, 'r, 'z) pooled_scheme" where
  "run_pool_task L H l k s =
     (if k < length (tasks s l)
      then deliver_inbound L H l (tasks s l ! k)
             (s\<lparr>tasks := (tasks s)(l := take k (tasks s l) @ drop (Suc k) (tasks s l))\<rparr>)
      else s)"

text \<open>A bus on which some leaves are local transports.\<close>

definition with_local ::
  "('l \<rightharpoonup> 'o local_transport) \<Rightarrow> ('f, 'm, 'l, 'p, 'r, 'z) pooled_leaves \<Rightarrow> ('f, 'm, 'l, 'p, 'r, 'z) pooled_host \<Rightarrow>
     ('f, 'm, 'l, 'p, 'r, 'z) pooled_host" where
  "with_local C L H = H\<lparr>t_dispatch := transport_dispatch (L\<lparr>leaf_dispatch :=
     (\<lambda>l. case C l of Some t \<Rightarrow> local_dispatch t L H l | None \<Rightarrow> leaf_dispatch L l)\<rparr>)\<rparr>"

datatype pool_action = Publish env | RunTask nat

fun pool_step ::
  "('l \<rightharpoonup> 'o local_transport) \<Rightarrow> ('f, 'm, 'l, 'p, 'r, 'z) pooled_leaves \<Rightarrow> ('f, 'm, 'l, 'p, 'r, 'z) pooled_host \<Rightarrow> 'l \<Rightarrow>
     pool_action \<Rightarrow> ('f, 'm, 'l, 'p, 'r, 'z) pooled_scheme \<Rightarrow> ('f, 'm, 'l, 'p, 'r, 'z) pooled_scheme" where
  "pool_step C L H l (Publish v) s = publish_impl (with_local C L H) v s"
| "pool_step C L H l (RunTask k) s = run_pool_task L H l k s"

fun published :: "pool_action list \<Rightarrow> env list" where
  "published [] = []"
| "published (Publish v # acts) = v # published acts"
| "published (RunTask k # acts) = published acts"

text \<open>
  Callbacks that leave payloads, flags, containers and sinks alone, and that do not publish; an observation of the
  handlers only.
\<close>

definition keeps_session ::
  "('f, 'm, 'l, 'p, 'r, 'z) wired_scheme \<Rightarrow> ('f, 'm, 'l, 'p, 'r, 'z) wired_scheme \<Rightarrow> bool" where
  "keeps_session s s' \<longleftrightarrow> keeps_wiring s s' \<and> sink_of s' = sink_of s \<and>
     (\<forall>v c. cores s v = Some c \<longrightarrow> (\<exists>c'. cores s' v = Some c' \<and> core_flags c' = core_flags c))"

definition keeps_tasks ::
  "('f, 'm, 'l, 'p, 'r, 'z) pooled_scheme \<Rightarrow> ('f, 'm, 'l, 'p, 'r, 'z) pooled_scheme \<Rightarrow> bool" where
  "keeps_tasks s s' \<longleftrightarrow> tasks s' = tasks s"

definition handlers_only :: "(('f, 'm, 't) call \<Rightarrow> 'l list) \<Rightarrow> bool" where
  "handlers_only ev \<longleftrightarrow> (\<forall>m v. ev (CBefore m v) = [] \<and> ev (CAfter m v) = []) \<and> (\<forall>m v e. ev (COnError m v e) = [])"

text \<open>What the listeners see of one envelope.\<close>

definition seen ::
  "('f, 'm, 'l, 'p, 'r, 'z) pooled_host \<Rightarrow> (('f, 'm, ('l, 'p) transport) call \<Rightarrow> 'x list) \<Rightarrow>
     ('f, 'm, 'l, 'p, 'r, 'z) pooled_scheme \<Rightarrow> env \<Rightarrow> 'x list" where
  "seen H ev s v = concat (map ev (fanout_calls (derives H) v (core_at v s) (listeners s)))"

text \<open>The bus of the statements below: observed callbacks, and one attached local transport.\<close>

definition observed_session ::
  "('f, 'm, 'l, 'p, 'r, 'z) pooled_host \<Rightarrow> (('f, 'm, 'l, 'p, 'r, 'z) pooled_scheme \<Rightarrow> 'x list) \<Rightarrow>
     (('f, 'm, ('l, 'p) transport) call \<Rightarrow> 'x list) \<Rightarrow> ('m \<Rightarrow> env \<Rightarrow> bool) \<Rightarrow> bool" where
  "observed_session H lg ev veto \<longleftrightarrow>
     tracing H lg ev \<and> handlers_only ev \<and> no_rebind H \<and> host_respects H keeps_session \<and> host_respects H keeps_tasks \<and>
     (\<forall>s q. lg (s\<lparr>tasks := q\<rparr>) = lg s) \<and> (\<forall>m v s. fst (before_dispatch H m v s) = Inr False \<longleftrightarrow> veto m v)"

definition local_attached ::
  "('f, 'm, 'l, 'p, 'r, 'z) pooled_host \<Rightarrow> 'l \<Rightarrow> ('f, 'm, 'l, 'p, 'r, 'z) pooled_scheme \<Rightarrow> bool" where
  "local_attached H l s \<longleftrightarrow> transports s = [Leaf l] \<and> t_scope H (Leaf l) = Local \<and> sink_of s l = BusSink"

text \<open>The middleware lets the envelope pass.\<close>

definition admitted :: "('m \<Rightarrow> bool) \<Rightarrow> EnvelopeCore \<Rightarrow> 'm list \<Rightarrow> bool" where
  "admitted veto c ms \<longleftrightarrow> contains_flag (core_flags c) NoMiddleware \<or> (\<forall>m \<in> set ms. \<not> veto m)"

text \<open>The invariant of a session: what was seen and what the tasks will show is what an inline bus has shown.\<close>

definition session_ok where
  "session_ok H lg ev t l s0 ordered s i \<longleftrightarrow>
     keeps_session s0 s \<and> keeps_session (s0\<lparr>transports := []\<rparr>) i \<and> (\<forall>v \<in> set (tasks s l). cores s0 v \<noteq> None) \<and>
     (goes_direct t [] \<longrightarrow> tasks s l = []) \<and>
     mset (lg s @ concat (map (seen H ev s0) (tasks s l))) = mset (lg i) \<and>
     (ordered \<longrightarrow> lg s @ concat (map (seen H ev s0) (tasks s l)) = lg i)"

text \<open>A concrete bus: two listeners, and a queued local transport.\<close>

type_synonym queue_demo = "(string, string, string, string, descriptor list, string list) pooled_scheme"

definition queue_note :: "string \<Rightarrow> queue_demo \<Rightarrow> queue_demo" where
  "queue_note x s = pooled.more_update (\<lambda>l. l @ [x]) s"

definition queue_leaves :: "(queue_demo, string, string) leaf_ops" where
  "queue_leaves =
     \<lparr>call_predicate = (\<lambda>p v s. (Inr True, s)), leaf_scope = (\<lambda>l. Local), leaf_attach = base_attach_with_sink,
      leaf_dispatch = (\<lambda>l v s. (None, s)), leaf_flush = (\<lambda>l s. (None, s)), leaf_detach = (\<lambda>l s. s)\<rparr>"

definition queue_host :: "(string, string, string, string, descriptor list, string list) pooled_host" where
  "queue_host =
     \<lparr>parcel = example_parcel, now = int, generate_ulid = (\<lambda>v. of_nat v),
      derives = (\<lambda>a b. a = b), default_priority = 0,
      insert_transport = (\<lambda>t ts. ts @ [t]), insert_middleware = (\<lambda>m ms. ms @ [m]),
      insert_listener = (\<lambda>p e es. es @ [e]),
      invocable_payload = (\<lambda>T f. False), invocable_envelope = (\<lambda>f. True),
      has_priority = (\<lambda>f. False), handler_null = (\<lambda>f. False), handler_priority = (\<lambda>f. 0),
      call_payload = (\<lambda>f c s. (None, queue_note f s)),
      call_envelope = (\<lambda>f v s. (None, queue_note f s)),
      call_on_event = (\<lambda>f c s. (None, queue_note f s)),
      before_dispatch = (\<lambda>m v s. (Inr (m \<noteq> ''deny''), v, s)),
      after_dispatch = (\<lambda>m v s. (None, v, s)),
      on_error = (\<lambda>m v e s. (None, v, s)),
      on_transport_error = (\<lambda>m n e s. (None, s)),
      t_scope = transport_scope queue_leaves, t_attach = transport_attach queue_leaves,
      t_dispatch = (\<lambda>t v s. (None, s)), t_flush = (\<lambda>t s. (None, s)), t_detach = (\<lambda>t s. s)\<rparr>"

fun queue_event :: "(string, string, (string, string) transport) call \<Rightarrow> string list" where
  "queue_event (CPayload f c) = [f]"
| "queue_event (CEnvelope f v) = [f]"
| "queue_event (COnEvent f c) = [f]"
| "queue_event c = []"

definition queue_bus :: queue_demo where
  "queue_bus =
     (Bus_new example_parcel None \<lparr>bus_ptr = (\<lambda>l. True), sink_of = (\<lambda>l. BusSink), tasks = (\<lambda>l. []), \<dots> = []\<rparr>)
       \<lparr>cores := [0 \<mapsto> envelope_of_payload example_type JNull,
          1 \<mapsto> envelope_of_payload (example_type\<lparr>event_name_v := ''user.joined''\<rparr>) JNull], heap_next := 2, transports := [Leaf ''queue''],
        middleware := [''audit''], listeners := [example_entry 1 ''a'' ''order.*'', example_entry 2 ''b'' ''**'']\<rparr>"

definition queue_mode :: "ThreadPoolOptions local_transport" where
  "queue_mode = local_new ''pool'' QueueExec \<lparr>min_workers = 2, max_workers = 4, max_queue_size = 0, pool_name = []\<rparr>"

section \<open>Lemmas\<close>

lemma wired_fields_frame [simp]:
  "sink_of (meter c s) = sink_of s" "sink_of (s\<lparr>clock := n\<rparr>) = sink_of s"
  "sink_of (update_timestamps v f s) = sink_of s"
  by (simp_all add: meter_def update_timestamps_def update_core_def split: option.split)

lemma keeps_session_frame:
  fixes s :: "('f, 'm, 'l, 'p, 'r, 'z) wired_scheme"
  shows "keeps_session s s" and "keeps_session s s' \<Longrightarrow> keeps_session s' s'' \<Longrightarrow> keeps_session s s''"
    and "(\<And>l. c \<noteq> Inc listeners_gauge l \<and> c \<noteq> Dec listeners_gauge l) \<Longrightarrow> keeps_session s (meter c s)"
    and "keeps_session s (s\<lparr>clock := n\<rparr>)" and "keeps_session s (update_timestamps v f s)"
  using wiring.R_refl [of s] wiring.R_trans [of s s' s''] wiring.R_meter [of c s] wiring.R_clock [of s n] wiring.R_stamp [of s v f]
  by (auto simp: keeps_session_def update_timestamps_def update_core_def split: option.splits) metis

interpretation session: bus_relation keeps_session
  by unfold_locales (blast intro: keeps_session_frame)+

lemma keeps_session_wiring: "keeps_session s s' \<Longrightarrow> keeps_wiring s s'"
  by (simp add: keeps_session_def)

lemma tasks_tracing:
  fixes H :: "('f, 'm, 'l, 'p, 'r, 'z) pooled_host"
  assumes "host_respects H keeps_tasks"
  shows "tracing H (\<lambda>s. tasks s l) (\<lambda>c. [])"
  unfolding tracing_def
proof (rule conjI)
  show "\<forall>s s' :: ('f, 'm, 'l, 'p, 'r, 'z) pooled_scheme. bus.more s = bus.more s' \<longrightarrow> tasks s l = tasks s' l"
    by (metis pooled.surjective bus.select_convs(8) pooled.select_convs(1))
qed (use assms in \<open>simp add: host_respects_def keeps_tasks_def\<close>)

lemma keeps_session_core:
  assumes "keeps_session s s'" and "cores s v = Some c"
  obtains c' where "cores s' v = Some c'" "payload_cell c' = payload_cell c" "core_flags c' = core_flags c"
  using assms unfolding keeps_session_def keeps_wiring_def keeps_payloads_def by (metis option.inject)

lemma seen_keeps:
  assumes "keeps_session s s'" and "cores s v = Some c"
  shows "seen H ev s' v = seen H ev s v"
proof -
  obtain c' where "cores s' v = Some c'" "payload_cell c' = payload_cell c"
    by (rule keeps_session_core [OF assms]) 
  then show ?thesis
    using keeps_wiringD(4) [OF keeps_session_wiring [OF assms(1)]] assms(2)
    by (simp add: seen_def fanout_calls_def env_name_def core_at_def)
qed

lemma pooled_tasks_frame [simp]:
  "cores (s\<lparr>tasks := q\<rparr>) = cores s" "listeners (s\<lparr>tasks := q\<rparr>) = listeners s" "sink_of (s\<lparr>tasks := q\<rparr>) = sink_of s"
  by (cases s, simp)+

lemma keeps_session_tasks: "keeps_session s (s\<lparr>tasks := q\<rparr>)"
  by (cases s) (simp add: keeps_session_def keeps_wiring_def keeps_payloads_def)

lemma tasks_frame [simp]:
  "tasks (meter c s) = tasks s" "tasks (s\<lparr>clock := n\<rparr>) = tasks s" "tasks (update_timestamps v f s) = tasks s"
  by (simp_all add: meter_def update_timestamps_def update_core_def split: option.split)

interpretation pool_tasks: bus_relation keeps_tasks
  by unfold_locales (simp_all add: keeps_tasks_def)

lemma observed_sessionD:
  assumes "observed_session H lg ev veto"
  shows "tracing H lg ev" "errors_silent ev" "no_rebind H" "host_respects H keeps_session" "host_respects H keeps_tasks"
    "lg (s\<lparr>tasks := q\<rparr>) = lg s" "fst (before_dispatch H m v s) = Inr False \<longleftrightarrow> veto m v"
    "host_respects H keeps_payloads" "host_respects H keeps_wiring" "handlers_only ev"
  using assms
  by (simp_all add: observed_session_def handlers_only_def errors_silent_def host_respects_def keeps_session_def keeps_wiring_def)

lemma deliver_inbound_seen:
  assumes "observed_session H lg ev veto" and "local_attached H l s0"
    and "keeps_session s0 s" and "cores s0 v = Some c"
  shows "keeps_session s0 (deliver_inbound L H l v s)" "lg (deliver_inbound L H l v s) = lg s @ seen H ev s0 v"
    "tasks (deliver_inbound L H l v s) = tasks s"
proof -
  note ob = observed_sessionD [OF assms(1)]
  have d: "deliver_inbound L H l v s = deliver_to_listeners H v s"
    using assms(2,3) by (simp add: deliver_inbound_def keeps_session_def local_attached_def)
  obtain c' where "cores s v = Some c'" by (rule keeps_session_core [OF assms(3,4)])
  then show "lg (deliver_inbound L H l v s) = lg s @ seen H ev s0 v"
    using deliver_trace [OF ob(1,2,8)] seen_keeps [OF assms(3,4), of H ev] by (simp add: d seen_def core_at_def)
  show "keeps_session s0 (deliver_inbound L H l v s)"
    unfolding d by (rule session.R_trans [OF assms(3) session.deliver_R [OF ob(4)]])
  show "tasks (deliver_inbound L H l v s) = tasks s"
    using pool_tasks.deliver_R [OF ob(5), of s v] by (simp add: d keeps_tasks_def)
qed

lemma local_dispatch_via:
  assumes "observed_session H lg ev veto" and "local_attached H l s0"
    and "keeps_session s0 s" and "cores s0 v = Some c"
  shows "keeps_session s0 (snd (local_dispatch t L H l v s))"
    "lg (snd (local_dispatch t L H l v s)) = lg s @ (if goes_direct t (core_flags c) then seen H ev s0 v else [])"
    "tasks (snd (local_dispatch t L H l v s)) l = tasks s l @ (if goes_direct t (core_flags c) then [] else [v])"
proof -
  obtain c' where c: "cores s v = Some c'" "core_flags c' = core_flags c" by (rule keeps_session_core [OF assms(3,4)])
  note d = deliver_inbound_seen [OF assms, of L]
  show "keeps_session s0 (snd (local_dispatch t L H l v s))"
    using d(1) session.R_trans [OF assms(3) keeps_session_tasks] by (simp add: local_dispatch_def)
  show "lg (snd (local_dispatch t L H l v s)) = lg s @ (if goes_direct t (core_flags c) then seen H ev s0 v else [])"
    using d(2) c observed_sessionD(6) [OF assms(1)] by (simp add: local_dispatch_def core_at_def)
  show "tasks (snd (local_dispatch t L H l v s)) l = tasks s l @ (if goes_direct t (core_flags c) then [] else [v])"
    using d(3) c by (simp add: local_dispatch_def core_at_def)
qed

lemma concat_map_Nil [simp]: "concat (map (\<lambda>x. []) xs) = []"
  by (induction xs) simp_all

lemma publish_observed_handlers:
  assumes "handlers_only ev"
  shows "publish_observed ev out scope d veto v c ms ts es =
    (if admitted veto c ms \<and> \<not> (contains_flag (core_flags c) LocalOnly \<and> contains_flag (core_flags c) RemoteOnly)
     then if ts = [] then (if contains_flag (core_flags c) RemoteOnly then [] else concat (map ev (fanout_calls d v c es)))
       else concat (map out (filter (\<lambda>t. eligible (core_flags c) (scope t)) ts))
     else [])"
  using assms by (auto simp: publish_observed_def handlers_only_def admitted_def Let_def)

lemma publish_observed_one:
  assumes "handlers_only ev" and "scope t = Local"
  shows "publish_observed ev (\<lambda>u. x) scope d veto v c ms [t] es =
    (if admitted veto c ms \<and> \<not> contains_flag (core_flags c) RemoteOnly then x else [])"
  using assms(2) by (simp add: publish_observed_handlers [OF assms(1)] eligible_def)

lemma pool_publish:
  assumes "observed_session H lg ev veto" and "local_attached H l s0" and "C l = Some t"
    and "keeps_session s0 s" and "cores s0 v = Some c"
  defines "adm \<equiv> admitted (\<lambda>m. veto m v) c (middleware s0) \<and> \<not> contains_flag (core_flags c) RemoteOnly"
  shows "keeps_session s0 (publish_impl (with_local C L H) v s)"
    "lg (publish_impl (with_local C L H) v s) = lg s @ (if adm \<and> goes_direct t (core_flags c) then seen H ev s0 v else [])"
    "tasks (publish_impl (with_local C L H) v s) l = tasks s l @ (if adm \<and> \<not> goes_direct t (core_flags c) then [v] else [])"
proof -
  note ob = observed_sessionD [OF assms(1)]
  let ?p = "publish_impl (with_local C L H) v s" and ?dir = "goes_direct t (core_flags c)"
  define D where "D = t_dispatch (with_local C L H)"
  have w: "with_local C L H = H\<lparr>t_dispatch := D\<rparr>" by (simp add: with_local_def D_def)
  obtain c' where c: "cores s v = Some c'" "core_flags c' = core_flags c" by (rule keeps_session_core [OF assms(4,5)])
  have ts: "transports s = [Leaf l]" "middleware s = middleware s0" "t_scope H (Leaf l) = Local"
    using keeps_wiringD [OF keeps_session_wiring [OF assms(4)]] assms(2) by (simp_all add: local_attached_def)
  have D: "D (Leaf l) v s' = local_dispatch t L H l v s'" for s' using assms(3) by (simp add: D_def with_local_def)
  note via = session.publish_via [where v = v and s = s and D = D and core = c' and veto = "\<lambda>m. veto m v",
      OF _ _ ob(3,4) keeps_session_wiring ob(7) c(1)]
  have "adm = (admitted (\<lambda>m. veto m v) c' (middleware s0) \<and> \<not> contains_flag (core_flags c') RemoteOnly)"
    by (simp add: adm_def admitted_def c(2))
  note one = publish_observed_one [where scope = "t_scope H" and veto = "\<lambda>m. veto m v" and c = c' and ms = "middleware s0",
      OF _ ts(3), folded this]
  have "local_attached H l s" using assms(2,4) ts by (simp add: local_attached_def keeps_session_def)
  note d = local_dispatch_via [OF assms(1) this _ c(1), unfolded c(2) seen_keeps [OF assms(4,5), of H ev]]
  have "keeps_session s ?p \<and> lg ?p = lg s @ publish_observed ev (\<lambda>u. if ?dir then seen H ev s0 v else []) (t_scope H)
      (derives H) (\<lambda>m. veto m v) v c' (middleware s) (transports s) (listeners s)"
    unfolding w by (rule via [OF ob(1,2)]) (use ts in \<open>auto simp: D d\<close>)
  then show "keeps_session s0 ?p" "lg ?p = lg s @ (if adm \<and> ?dir then seen H ev s0 v else [])"
    using session.R_trans [OF assms(4)] by (simp_all add: ts one [OF ob(10)])
  have "keeps_session s ?p \<and> tasks ?p l = tasks s l @ publish_observed (\<lambda>c. []) (\<lambda>u. if ?dir then [] else [v]) (t_scope H)
      (derives H) (\<lambda>m. veto m v) v c' (middleware s) (transports s) (listeners s)"
    unfolding w by (rule via [OF tasks_tracing [OF ob(5)]]) (use ts in \<open>auto simp: D d errors_silent_def\<close>)
  then show "tasks ?p l = tasks s l @ (if adm \<and> \<not> ?dir then [v] else [])"
    by (simp add: ts one handlers_only_def)
qed

lemma inline_publish:
  assumes "observed_session H lg ev veto" and "keeps_session (s0\<lparr>transports := []\<rparr>) s" and "cores s0 v = Some c"
  shows "keeps_session (s0\<lparr>transports := []\<rparr>) (publish_impl H v s)"
    "lg (publish_impl H v s) = lg s @
      (if admitted (\<lambda>m. veto m v) c (middleware s0) \<and> \<not> contains_flag (core_flags c) RemoteOnly then seen H ev s0 v else [])"
proof -
  note ob = observed_sessionD [OF assms(1)]
  have c0: "cores (s0\<lparr>transports := []\<rparr>) v = Some c" using assms(3) by simp
  obtain c' where c: "cores s v = Some c'" "core_flags c' = core_flags c" "payload_cell c' = payload_cell c"
    by (rule keeps_session_core [OF assms(2) c0])
  have ts: "transports s = []" "middleware s = middleware s0" "listeners s = listeners s0"
    using keeps_wiringD [OF keeps_session_wiring [OF assms(2)]] by simp_all
  have "keeps_session s (publish_impl H v s) \<and> lg (publish_impl H v s) = lg s @ publish_observed ev (\<lambda>t. []) (t_scope H)
      (derives H) (\<lambda>m. veto m v) v c' (middleware s) (transports s) (listeners s)"
    using session.publish_via [where D = "t_dispatch H" and v = v and s = s and out = "\<lambda>t. []", OF ob(1-4) keeps_session_wiring ob(7) c(1)]
    by (simp add: ts)
  then show "keeps_session (s0\<lparr>transports := []\<rparr>) (publish_impl H v s)" "lg (publish_impl H v s) = lg s @
      (if admitted (\<lambda>m. veto m v) c (middleware s0) \<and> \<not> contains_flag (core_flags c) RemoteOnly then seen H ev s0 v else [])"
    using session.R_trans [OF assms(2)] c assms(3)
    by (simp_all add: publish_observed_handlers [OF ob(10)] admitted_def ts seen_def fanout_calls_def env_name_def core_at_def)
qed

lemma session_ok_publish:
  assumes "observed_session H lg ev veto" and "local_attached H l s0" and "C l = Some t" and "cores s0 v = Some c"
    and "session_ok H lg ev t l s0 ordered s i"
    and "ordered \<Longrightarrow> \<not> contains_flag (core_flags c) Direct"
  shows "session_ok H lg ev t l s0 ordered (publish_impl (with_local C L H) v s) (publish_impl H v i)"
proof -
  have k: "keeps_session s0 s" "keeps_session (s0\<lparr>transports := []\<rparr>) i" using assms(5) by (simp_all add: session_ok_def)
  note p = pool_publish [where C = C and L = L, OF assms(1-3) k(1) assms(4)] and q = inline_publish [OF assms(1) k(2) assms(4)]
  have ok: "\<forall>v \<in> set (tasks s l). cores s0 v \<noteq> None" "goes_direct t [] \<Longrightarrow> tasks s l = []"
    "mset (lg s @ concat (map (seen H ev s0) (tasks s l))) = mset (lg i)"
    "ordered \<Longrightarrow> lg s @ concat (map (seen H ev s0) (tasks s l)) = lg i"
    using assms(5) by (simp_all add: session_ok_def)
  have d: "goes_direct t [] \<Longrightarrow> goes_direct t (core_flags c)" "ordered \<Longrightarrow> goes_direct t (core_flags c) = goes_direct t []"
    using assms(6) by (auto simp: goes_direct_def)
  show ?thesis
    unfolding session_ok_def
  proof (intro conjI impI p(1) q(1))
    show "\<forall>v \<in> set (tasks (publish_impl (with_local C L H) v s) l). cores s0 v \<noteq> None" using ok(1) assms(4) by (auto simp: p(3))
    show "tasks (publish_impl (with_local C L H) v s) l = []" if "goes_direct t []" using ok(2) d(1) that by (simp add: p(3))
    show "mset (lg (publish_impl (with_local C L H) v s) @ concat (map (seen H ev s0) (tasks (publish_impl (with_local C L H) v s) l))) =
        mset (lg (publish_impl H v i))"
      using ok(3) by (auto simp: p(2,3) q(2) simp flip: ok(3))
    show "lg (publish_impl (with_local C L H) v s) @ concat (map (seen H ev s0) (tasks (publish_impl (with_local C L H) v s) l)) =
        lg (publish_impl H v i)" if "ordered"
      using ok(2) ok(4) [OF that] d(2) [OF that] by (auto simp: p(2,3) q(2) simp flip: ok(4) [OF that])
  qed
qed

lemma session_ok_run:
  assumes "observed_session H lg ev veto" and "local_attached H l s0"
    and "session_ok H lg ev t l s0 ordered s i" and "ordered \<Longrightarrow> k = 0"
  shows "session_ok H lg ev t l s0 ordered (run_pool_task L H l k s) i"
proof (cases "k < length (tasks s l)")
  case True
  let ?v = "tasks s l ! k" and ?q = "take k (tasks s l) @ drop (Suc k) (tasks s l)"
  let ?s = "s\<lparr>tasks := (tasks s)(l := ?q)\<rparr>"
  obtain c where c: "cores s0 ?v = Some c" using assms(3) nth_mem [OF True] by (auto simp: session_ok_def)
  have split: "tasks s l = take k (tasks s l) @ ?v # drop (Suc k) (tasks s l)" using id_take_nth_drop [OF True] .
  have k: "keeps_session s0 ?s" using assms(3) session.R_trans [OF _ keeps_session_tasks] by (auto simp: session_ok_def)
  have run: "run_pool_task L H l k s = deliver_inbound L H l ?v ?s" using True by (simp add: run_pool_task_def)
  note d = deliver_inbound_seen [OF assms(1,2) k c, of L]
  have m: "mset (concat (map (seen H ev s0) (tasks s l))) = mset (seen H ev s0 ?v) + mset (concat (map (seen H ev s0) ?q))"
    by (subst split) (simp add: union_ac)
  have z: "ordered \<Longrightarrow> concat (map (seen H ev s0) (tasks s l)) = seen H ev s0 ?v @ concat (map (seen H ev s0) ?q)"
    by (subst split) (use assms(4) in simp)
  have sub: "set ?q \<subseteq> set (tasks s l)" by (auto dest: in_set_takeD in_set_dropD)
  show ?thesis
    unfolding run session_ok_def using assms(3) d m z sub observed_sessionD(6) [OF assms(1)]
    by (auto simp: session_ok_def union_ac)
qed (use assms(3) in \<open>simp add: run_pool_task_def\<close>)

lemma session_ok_acts:
  assumes "observed_session H lg ev veto" and "local_attached H l s0" and "C l = Some t"
    and "\<forall>v \<in> set (published acts). cores s0 v \<noteq> None"
    and "ordered \<Longrightarrow> \<forall>v \<in> set (published acts). \<not> contains_flag (core_flags (core_at v s0)) Direct"
    and "ordered \<Longrightarrow> \<forall>k. RunTask k \<in> set acts \<longrightarrow> k = 0"
    and "session_ok H lg ev t l s0 ordered s i"
  shows "session_ok H lg ev t l s0 ordered (fold (pool_step C L H l) acts s) (fold (publish_impl H) (published acts) i)"
  using assms(4-7)
proof (induction acts arbitrary: s i)
  case (Cons a acts)
  then show ?case
  proof (cases a)
    case (Publish v)
    then obtain c where c: "cores s0 v = Some c" using Cons.prems(1) by auto
    have "ordered \<Longrightarrow> \<not> contains_flag (core_flags c) Direct" using Cons.prems(2) Publish c by (simp add: core_at_def)
    then have "session_ok H lg ev t l s0 ordered (publish_impl (with_local C L H) v s) (publish_impl H v i)"
      by (rule session_ok_publish [where C = C, OF assms(1-3) c Cons.prems(4)])
    then show ?thesis
      using Cons.prems(1-3) Publish Cons.IH [of "publish_impl (with_local C L H) v s" "publish_impl H v i"] by simp
  next
    case (RunTask k)
    then have "ordered \<Longrightarrow> k = 0" using Cons.prems(3) by auto
    then have "session_ok H lg ev t l s0 ordered (run_pool_task L H l k s) i"
      by (rule session_ok_run [OF assms(1,2) Cons.prems(4)])
    then show ?thesis
      using Cons.prems(1-3) RunTask Cons.IH [of "run_pool_task L H l k s" i] by simp
  qed
qed simp

lemma queue_note_simps [simp]:
  "cores (queue_note x s) = cores s" "transports (queue_note x s) = transports s" "middleware (queue_note x s) = middleware s"
  "listeners (queue_note x s) = listeners s" "sink_of (queue_note x s) = sink_of s" "tasks (queue_note x s) = tasks s"
  "pooled.more (queue_note x s) = pooled.more s @ [x]"
  by (simp_all add: queue_note_def)

lemma queue_tracing: "tracing queue_host pooled.more queue_event"
  unfolding tracing_def
proof (rule conjI)
  show "\<forall>s s' :: queue_demo. bus.more s = bus.more s' \<longrightarrow> pooled.more s = pooled.more s'"
    by (metis pooled.surjective bus.select_convs(8) pooled.select_convs(2))
qed (simp add: queue_host_def)

lemma queue_observed: "observed_session queue_host pooled.more queue_event (\<lambda>m v. m = ''deny'')"
  unfolding observed_session_def
proof (intro conjI queue_tracing)
  show "no_rebind queue_host" "handlers_only queue_event" by (simp_all add: no_rebind_def handlers_only_def queue_host_def)
  show "host_respects queue_host keeps_session" "host_respects queue_host keeps_tasks"
    by (simp_all add: host_respects_def queue_host_def keeps_session_def keeps_wiring_def keeps_payloads_def keeps_tasks_def)
qed (simp_all add: queue_host_def)

section \<open>Property\<close>



end
