(* ===== verification/Adapter.thy ===== *)
theory Adapter
  imports Filtered
begin

text \<open>
  What the broker adapters under \<^verbatim>\<open>transports/\<close> have in common, written out in each of them: the
  wire format switch, the inbound path from received bytes to the sink with its error path to
  the bus, the choice of registry at attach time, and the lifecycle every adapter promises,
  as the locale \<open>adapter_lifecycle\<close>. nlohmann's text parser and printer are parameters.
\<close>

section \<open>Wire format\<close>

datatype Format = Json | Cbor

record text_codec =
  parse_json :: "bytes \<Rightarrow> json throws"
  dump_json :: "json \<Rightarrow> bytes throws"

definition decode_payload ::
  "'r parcel_lib \<Rightarrow> text_codec \<Rightarrow> Format \<Rightarrow> 'r EventRegistry \<Rightarrow> bytes \<Rightarrow> EnvelopeCore throws" where
  "decode_payload P X fmt g bs =
     (if fmt = Cbor then decode_cbor P g bs
      else and_then (parse_json X bs) (\<lambda>j. decode_json P g j))"

definition encode_payload ::
  "'r parcel_lib \<Rightarrow> text_codec \<Rightarrow> Format \<Rightarrow> EnvelopeCore option \<Rightarrow> bytes throws" where
  "encode_payload P X fmt v =
     (if fmt = Json then and_then (encode_json P v) (\<lambda>j. dump_json X j) else encode_cbor P v)"

text \<open>\<^verbatim>\<open>v.flags().contains<flags::RequireAck>()\<close>, read after a successful encode, so on a non-null envelope.\<close>

definition wants_ack :: "EnvelopeCore option \<Rightarrow> bool" where
  "wants_ack v = (case v of None \<Rightarrow> False | Some core \<Rightarrow> contains_flag (core_flags core) RequireAck)"

text \<open>\<^verbatim>\<open>TlsConfig\<close>, the same struct in the adapters that have one.\<close>

record tls_config =
  ca_file :: string
  cert_file :: "string option"
  key_file :: "string option"
  verify_peer :: bool

text \<open>The core \<^verbatim>\<open>publish(payload)\<close> builds and stamps, and \<^verbatim>\<open>publish(event(payload).build())\<close> too.\<close>

definition published_core ::
  "('f, 'm, 't, 'r, 'z) bus_host \<Rightarrow> event_type \<Rightarrow> json \<Rightarrow> ('f, 'm, 't, 'r, 'z) bus_scheme \<Rightarrow> EnvelopeCore" where
  "published_core H T x s =
     empty_core\<lparr>core_id := generate_ulid H (heap_next s),
       core_flags := collect_default_flags (flag_insert (wire (parcel H))) T,
       core_timestamps := empty_timestamps\<lparr>created_at := now H (clock s), published_at := Some (now H (Suc (clock s)))\<rparr>,
       payload_cell := Some (event_cell T x)\<rparr>"

section \<open>The common members of an adapter\<close>

text \<open>
  The registry an adapter decodes with: one given to its constructor, or the bus's own
  object, shared, so that types registered on the bus later are seen.
\<close>

datatype 'r registry_ref = OwnRegistry "'r EventRegistry" | BusRegistry

record 'r adapter =
  adapter_format :: Format
  adapter_registry :: "'r registry_ref option"
  sink_set :: bool
  error_sink_set :: bool

definition adapter_new :: "Format \<Rightarrow> 'r EventRegistry option \<Rightarrow> 'r adapter" where
  "adapter_new fmt g = \<lparr>adapter_format = fmt, adapter_registry = map_option OwnRegistry g,
     sink_set = False, error_sink_set = False\<rparr>"

text \<open>The lines every \<^verbatim>\<open>attach_with_sink\<close> starts with, after the base class's.\<close>

definition adapter_install :: "('r, 'y) adapter_scheme \<Rightarrow> ('r, 'y) adapter_scheme" where
  "adapter_install a =
     (let a = (if adapter_registry a = None then a\<lparr>adapter_registry := Some BusRegistry\<rparr> else a)
      in a\<lparr>sink_set := True, error_sink_set := True\<rparr>)"

text \<open>The last line of every \<^verbatim>\<open>detach\<close>.\<close>

definition adapter_uninstall :: "('r, 'y) adapter_scheme \<Rightarrow> ('r, 'y) adapter_scheme" where
  "adapter_uninstall a = a\<lparr>sink_set := False\<rparr>"

fun registry_of :: "'r registry_ref \<Rightarrow> ('f, 'm, 't, 'r, 'z) bus_scheme \<Rightarrow> 'r EventRegistry" where
  "registry_of (OwnRegistry g) s = g"
| "registry_of BusRegistry s = registry s"

text \<open>The error sink: \<open>name\<close> is the adapter's short name; the bus pointer is the base class's.\<close>

definition call_error_sink ::
  "('f, 'm, 'l, 'p, 'r, 'z) wired_host \<Rightarrow> string \<Rightarrow> 'l \<Rightarrow> exn \<Rightarrow> ('f, 'm, 'l, 'p, 'r, 'z) wired_scheme \<Rightarrow>
     ('f, 'm, 'l, 'p, 'r, 'z) wired_scheme" where
  "call_error_sink H name l ep s = (if bus_ptr s l then report_transport_error H name ep s else s)"

text \<open>The inbound path: decode, stamp \<^verbatim>\<open>received_at\<close>, call the sink; any exception goes to the error sink.\<close>

definition deliver_payload ::
  "(('f, 'm, 'l, 'p, 'r, 'z) wired_scheme, 'l, 'p) leaf_ops \<Rightarrow> ('f, 'm, 'l, 'p, 'r, 'z) wired_host \<Rightarrow> text_codec \<Rightarrow>
     string \<Rightarrow> 'l \<Rightarrow> ('r, 'y) adapter_scheme \<Rightarrow> bytes \<Rightarrow> ('f, 'm, 'l, 'p, 'r, 'z) wired_scheme \<Rightarrow>
     ('f, 'm, 'l, 'p, 'r, 'z) wired_scheme" where
  "deliver_payload L H X name l a bs s =
     (case adapter_registry a of
        None \<Rightarrow> s
      | Some ref \<Rightarrow>
          if \<not> sink_set a then s
          else (case decode_payload (parcel H) X (adapter_format a) (registry_of ref s) bs of
             Inl ep \<Rightarrow> if error_sink_set a then call_error_sink H name l ep s else s
           | Inr core \<Rightarrow>
               (let (v, s) = alloc_core core s;
                    (t, s) = read_clock (now H) s;
                    s = update_timestamps v (\<lambda>ts. ts\<lparr>received_at := Some t\<rparr>) s
                in deliver_inbound L H l v s)))"

section \<open>The lifecycle contract\<close>

text \<open>
  What the bus relies on in every adapter: a successful attach installs the sink and a detach takes it away,
  whatever happened before. \<open>'x\<close> is the environment an attach meets.
\<close>

locale adapter_sink =
  fixes attach :: "'x \<Rightarrow> 'i \<Rightarrow> exn option \<times> 'i"
    and detach :: "'i \<Rightarrow> 'i"
    and listening :: "'i \<Rightarrow> bool"
  assumes attach_listens: "attach x i = (None, i') \<Longrightarrow> listening i'"
    and detach_deaf: "\<not> listening (detach i)"
begin

lemma cycles_deaf:
  "\<not> listening i \<Longrightarrow> \<not> listening (fold (\<lambda>x i. detach (snd (attach x i))) xs i)"
  by (rule fold_invariant_set [where P = "\<lambda>i. \<not> listening i"]) (auto simp: detach_deaf)

end

text \<open>
  The connection follows: attaching either succeeds connected or throws and leaves the adapter unconnected, and detaching
  leaves it unconnected.
\<close>

locale adapter_lifecycle = adapter_sink attach detach listening
  for attach :: "'x \<Rightarrow> 'i \<Rightarrow> exn option \<times> 'i"
    and detach :: "'i \<Rightarrow> 'i"
    and listening :: "'i \<Rightarrow> bool" +
  fixes connected :: "'i \<Rightarrow> bool"
    and std_only :: "'x \<Rightarrow> bool"
  assumes attach_connects: "attach x i = (None, i') \<Longrightarrow> connected i'"
    and attach_fail: "std_only x \<Longrightarrow> attach x i = (Some e, i') \<Longrightarrow> \<not> connected i'"
    and detach_off: "\<not> connected (detach i)"
begin

lemma last_op_decides:
  assumes "\<And>x. x \<in> set xs \<Longrightarrow> std_only x" and "\<not> connected i"
  shows "\<not> connected (fold (\<lambda>x i. detach (snd (attach x i))) xs i) \<and>
    (\<forall>x. std_only x \<longrightarrow> (connected (snd (attach x (fold (\<lambda>x i. detach (snd (attach x i))) xs i))) \<longleftrightarrow>
       fst (attach x (fold (\<lambda>x i. detach (snd (attach x i))) xs i)) = None))"
proof -
  let ?i = "fold (\<lambda>x i. detach (snd (attach x i))) xs i"
  have "\<not> connected ?i"
    using assms(2) by (induction xs arbitrary: i) (auto simp: detach_off)
  moreover have "std_only x \<Longrightarrow> connected (snd (attach x ?i)) \<longleftrightarrow> fst (attach x ?i) = None" for x
    using attach_connects [of x ?i] attach_fail [of x ?i] by (cases "attach x ?i"; cases "fst (attach x ?i)") auto
  ultimately show ?thesis by blast
qed

end

text \<open>
  A concrete receiving side: listeners and the error hook append to a log; documents are looked
  up in the table of the example registry.
\<close>

definition inbound_host :: "(string, string, string, string, descriptor list, string list) wired_host" where
  "inbound_host = demo_host\<lparr>on_transport_error := (\<lambda>m n e s. (None, note_demo n s)),
     t_dispatch := (\<lambda>t v s. (None, s)), t_flush := (\<lambda>t s. (None, s)), t_detach := (\<lambda>t s. s)\<rparr>"

fun inbound_event :: "(string, string, (string, string) transport) call \<Rightarrow> string list" where
  "inbound_event (CPayload f c) = [f]"
| "inbound_event (CEnvelope f v) = [f]"
| "inbound_event (COnEvent f c) = [f]"
| "inbound_event (CTransportError m n e) = [n]"
| "inbound_event c = []"

definition table_codec :: text_codec where
  "table_codec = \<lparr>parse_json = from_cbor example_parcel, dump_json = (\<lambda>j. Inr (to_cbor example_parcel j))\<rparr>"

definition receiving_bus :: demo where
  "receiving_bus = (demo_bus [example_entry 1 ''h'' ''order.*'', example_entry 2 ''g'' ''user.*''])
     \<lparr>registry := example_registry, middleware := [''log''], bus_ptr := (\<lambda>l. True), sink_of := (\<lambda>l. BusSink)\<rparr>"

section \<open>Lemmas\<close>

lemma adapter_install_simps [simp]:
  "sink_set (adapter_install a)" "error_sink_set (adapter_install a)"
  "adapter_format (adapter_install a) = adapter_format a"
  "adapter_registry (adapter_install a) = Some (case adapter_registry a of None \<Rightarrow> BusRegistry | Some g \<Rightarrow> g)"
  "adapter.more (adapter_install a) = adapter.more a"
  by (auto simp: adapter_install_def Let_def split: option.splits)

lemma deaf_after_detach [simp]: "deliver_payload L H X name l (adapter_uninstall a) bs s = s"
  by (simp add: deliver_payload_def adapter_uninstall_def split: option.splits)

lemma payload_roundtrip:
  assumes "wire_lib_laws (wire P)" and "codecs_invert (wire P) (registry_ptr g) core"
    and "cbor_inverts P core" and "\<And>j. to_json (wire P) (Some core) = Inr j \<Longrightarrow>
      \<exists>bs. dump_json X j = Inr bs \<and> parse_json X bs = Inr j"
  shows "\<exists>bs. encode_payload P X fmt (Some core) = Inr bs \<and> decode_payload P X fmt g bs =
    Inr (core\<lparr>core_timestamps := to_whole_ms (ticks_per_ms (wire P)) (core_timestamps core),
      core_flags := fold (flag_insert (wire P)) (filter (\<lambda>f. flag_find (wire P) f \<noteq> None) (core_flags core)) []\<rparr>)"
proof -
  obtain j where j: "to_json (wire P) (Some core) = Inr j"
    "from_json (wire P) (registry_ptr g) j = Inr (core\<lparr>core_timestamps := to_whole_ms (ticks_per_ms (wire P)) (core_timestamps core),
      core_flags := fold (flag_insert (wire P)) (filter (\<lambda>f. flag_find (wire P) f \<noteq> None) (core_flags core)) []\<rparr>)"
    using roundtrip_aux [OF assms(1,2)] by blast
  show ?thesis
  proof (cases fmt)
    case Json
    obtain bs where "dump_json X j = Inr bs" "parse_json X bs = Inr j" using assms(4) [OF j(1)] by blast
    then show ?thesis using Json j by (simp add: encode_payload_def decode_payload_def encode_json_def decode_json_eq_Inr)
  next
    case Cbor
    then show ?thesis
      using j assms(3) by (auto simp: encode_payload_def decode_payload_def encode_cbor_def decode_cbor_eq_Inr cbor_inverts_def)
  qed
qed

lemma report_trace:
  assumes "tracing H lg ev"
  shows "lg (report_transport_error H n e s) = lg s @ concat (map (\<lambda>m. ev (CTransportError m n e)) (middleware s))"
proof -
  have "lg (fold (\<lambda>m s. snd (on_transport_error H m n e s)) ms t) = lg t @ concat (map (\<lambda>m. ev (CTransportError m n e)) ms)" for ms t
    by (induction ms arbitrary: t) (simp_all add: lg_call(7) [OF assms])
  then show ?thesis by (simp add: report_transport_error_def lg_frame(1) [OF assms])
qed

lemma deliver_payload_ok:
  assumes "adapter_registry a = Some ref" and "sink_set a"
    and "decode_payload (parcel H) X (adapter_format a) (registry_of ref s) bs = Inr core"
  shows "\<exists>v s1. deliver_payload L H X name l a bs s = deliver_inbound L H l v s1 \<and> v = heap_next s \<and>
    cores s1 = (cores s)(v \<mapsto> core\<lparr>core_timestamps := (core_timestamps core)\<lparr>received_at := Some (now H (clock s))\<rparr>\<rparr>) \<and>
    listeners s1 = listeners s \<and> middleware s1 = middleware s \<and> bus.more s1 = bus.more s \<and> sink_of s1 = sink_of s"
  using assms
  by (auto simp: deliver_payload_def alloc_core_def read_clock_def Let_def update_timestamps_def update_core_def
      intro!: exI)

lemma wired_more_bus: "bus.more s = bus.more s' \<Longrightarrow> wired.more s = wired.more s'"
  by (cases s; cases s') simp

lemma inbound_parcel: "parcel inbound_host = example_parcel"
  by (simp add: inbound_host_def demo_host_def)

lemma inbound_tracing: "tracing inbound_host wired.more inbound_event"
  unfolding tracing_def
proof (rule conjI)
  show "\<forall>s s'. bus.more s = bus.more s' \<longrightarrow> wired.more s = wired.more s'" by (blast intro: wired_more_bus)
qed (simp add: inbound_host_def demo_host_def note_demo_simps)

lemma inbound_silent: "errors_silent inbound_event"
  by (simp add: errors_silent_def)

lemma inbound_keeps: "host_respects inbound_host keeps_payloads"
  by (simp add: host_respects_def inbound_host_def demo_host_def keeps_payloads_def note_demo_simps)

lemma example_encodes: "encode_payload example_parcel table_codec fmt (Some example_core) = Inr [0x80]"
proof -
  have w: "wire example_parcel = example_wire" by (simp add: example_parcel_def)
  obtain j where j: "to_json example_wire (Some example_core) = Inr j"
    using roundtrip_aux [OF example_wire_laws example_registry_inverts] by blast
  then have "example_doc = j" by (simp add: example_doc_def)
  then show ?thesis
    using j by (cases fmt) (simp_all add: encode_payload_def encode_json_def encode_cbor_def w table_codec_def example_parcel_def)
qed

lemma receiving_simps:
  "sink_of receiving_bus ''leaf'' = BusSink" "bus_ptr receiving_bus ''leaf''" "registry receiving_bus = example_registry"
  "middleware receiving_bus = [''log'']" "wired.more receiving_bus = []"
  "listeners receiving_bus = [example_entry 1 ''h'' ''order.*'', example_entry 2 ''g'' ''user.*'']"
  by (simp_all add: receiving_bus_def demo_bus_def Bus_new_def)

lemma transmitted_aux:
  fixes H :: "('f, 'm, 'l, 'p, 'r, 'z) wired_host"
  assumes "tracing H lg ev" and "errors_silent ev" and "host_respects H keeps_payloads"
    and "sink_of s l = BusSink" and "bus_ptr s l" and "adapter_registry a = None"
    and "wire_lib_laws (wire (parcel H))" and "codecs_invert (wire (parcel H)) (registry_ptr (registry s)) core"
    and "cbor_inverts (parcel H) core"
    and "\<And>j. to_json (wire (parcel H)) (Some core) = Inr j \<Longrightarrow> \<exists>bs. dump_json X j = Inr bs \<and> parse_json X bs = Inr j"
  shows "\<exists>bs. encode_payload (parcel H) X (adapter_format a) (Some core) = Inr bs \<and>
    lg (deliver_payload L H X name l (adapter_install a) bs s) =
      lg s @ concat (map ev (fanout_calls (derives H) (heap_next s) core (listeners s)))"
proof -
  let ?c = "core\<lparr>core_timestamps := to_whole_ms (ticks_per_ms (wire (parcel H))) (core_timestamps core),
      core_flags := fold (flag_insert (wire (parcel H)))
        (filter (\<lambda>f. flag_find (wire (parcel H)) f \<noteq> None) (core_flags core)) []\<rparr>"
  obtain bs where bs: "encode_payload (parcel H) X (adapter_format a) (Some core) = Inr bs"
      "decode_payload (parcel H) X (adapter_format a) (registry s) bs = Inr ?c"
    using payload_roundtrip [OF assms(7-10)] by blast
  have r: "adapter_registry (adapter_install a) = Some BusRegistry" using assms(6) by simp
  obtain v s1 where d: "deliver_payload L H X name l (adapter_install a) bs s = deliver_inbound L H l v s1"
      "v = heap_next s" "cores s1 v = Some (?c\<lparr>core_timestamps := (core_timestamps ?c)\<lparr>received_at := Some (now H (clock s))\<rparr>\<rparr>)"
      "listeners s1 = listeners s" "bus.more s1 = bus.more s" "sink_of s1 = sink_of s"
    using deliver_payload_ok [OF r, of H X s bs ?c L name l] bs(2) by auto
  have "lg s1 = lg s" by (rule assms(1) [unfolded tracing_def, THEN conjunct1, rule_format]) (rule d(5))
  moreover have "(fanout_calls (derives H) v (?c\<lparr>core_timestamps := t\<rparr>) es :: ('f, 'm, ('l, 'p) transport) call list) =
      fanout_calls (derives H) v core es" for es t
    by (simp add: fanout_calls_def env_name_def)
  ultimately show ?thesis
    using bs(1) d(1,2,4,6) assms(4) deliver_trace [OF assms(1-3) d(3)]
    by (intro exI [of _ bs]) (simp add: deliver_inbound_def)
qed

section \<open>Properties\<close>



text \<open>
  C12: an envelope dispatched by one adapter and received by another of the same format calls
  the listeners of the receiving bus exactly as the original envelope would: same name, same
  payload, same order.
\<close>

theorem transmitted_envelope:
  fixes H :: "('f, 'm, 'l, 'p, 'r, 'z) wired_host"
  assumes "tracing H lg ev" and "errors_silent ev" and "host_respects H keeps_payloads"
    and "sink_of s l = BusSink" and "bus_ptr s l" and "adapter_registry a = None"
    and "wire_lib_laws (wire (parcel H))" and "codecs_invert (wire (parcel H)) (registry_ptr (registry s)) core"
    and "cbor_inverts (parcel H) core"
    and "\<And>j. to_json (wire (parcel H)) (Some core) = Inr j \<Longrightarrow> \<exists>bs. dump_json X j = Inr bs \<and> parse_json X bs = Inr j"
  shows "\<exists>bs. encode_payload (parcel H) X (adapter_format a) (Some core) = Inr bs \<and>
    lg (deliver_payload L H X name l (adapter_install a) bs s) =
      lg s @ concat (map ev (fanout_calls (derives H) (heap_next s) core (listeners s)))"
  using assms by (rule transmitted_aux)

theorem transmitted_envelope_witness:
  "\<exists>bs. encode_payload example_parcel table_codec Json (Some example_core) = Inr bs \<and>
     wired.more (deliver_payload demo_leaves inbound_host table_codec ''mqtt'' ''leaf''
       (adapter_install (adapter_new Json None)) bs receiving_bus) = [''h'']"
proof -
  have w: "wire example_parcel = example_wire" by (simp add: example_parcel_def)
  have c: "cbor_inverts example_parcel example_core"
    by (auto simp: cbor_inverts_def example_parcel_def example_doc_def split: sum.splits)
  have x: "\<exists>bs. dump_json table_codec j = Inr bs \<and> parse_json table_codec bs = Inr j"
    if "to_json (wire example_parcel) (Some example_core) = Inr j" for j
    using that by (auto simp: table_codec_def example_parcel_def example_doc_def)
  have k: "codecs_invert (wire example_parcel) (registry_ptr (registry receiving_bus)) example_core"
    using example_registry_inverts by (simp add: w receiving_simps)
  have l: "wire_lib_laws (wire example_parcel)" using example_wire_laws by (simp add: w)
  have n: "env_name (Some example_core) = ''order.created''"
    by (simp add: env_name_def example_core_def example_type_def event_cell_def kind_id_def)
  have m: "glob_match ''order.*'' ''order.created''" "\<not> glob_match ''user.*'' ''order.created''"
    by code_simp+
  have f: "concat (map inbound_event (fanout_calls (derives inbound_host) v example_core
      [example_entry 1 ''h'' ''order.*'', example_entry 2 ''g'' ''user.*''])) = [''h'']" for v
    by (simp add: fanout_calls_def n m entry_matches_def example_entry_def)
  show ?thesis
    using transmitted_envelope [OF inbound_tracing inbound_silent inbound_keeps receiving_simps(1,2), unfolded inbound_parcel,
        OF _ l k c x, of "adapter_new Json None" demo_leaves "''mqtt''"]
    by (simp add: adapter_new_def f receiving_simps)
qed

end
