(* ===== verification/Redis.thy ===== *)
theory Redis
  imports Adapter
begin

text \<open>
  \<^verbatim>\<open>transports/redis/\<close>: the Redis pub/sub adapter. redis-plus-plus is a parameter record that
  says how each call comes out; the two build variants (\<^verbatim>\<open>REDIS_PLUS_PLUS_USE_TLS\<close>) are a
  parameter too. The inbound path is the shared one of \<open>Adapter\<close>.
\<close>

section \<open>Configuration\<close>

record redis_config =
  redis_url :: string
  redis_username :: "string option"
  redis_password :: "string option"
  redis_db :: "int option"
  redis_tls :: "tls_config option"
  redis_connect_timeout :: int
  redis_channel :: string
  redis_format :: Format

definition redis_config_default :: "string \<Rightarrow> redis_config" where
  "redis_config_default u = \<lparr>redis_url = u, redis_username = None, redis_password = None, redis_db = None,
     redis_tls = None, redis_connect_timeout = 10, redis_channel = ''conduit:envelope'', redis_format = Cbor\<rparr>"

text \<open>\<^verbatim>\<open>sw::redis::ConnectionOptions\<close>: the members the code writes, and what the parsed URL gave.\<close>

record conn_options =
  o_address :: string
  o_user :: string
  o_password :: string
  o_db :: int
  o_connect_timeout_ms :: int
  o_socket_timeout_ms :: int
  o_tls_enabled :: bool
  o_cacert :: string
  o_cert :: string
  o_key :: string

text \<open>How the library's calls come out during one attach or dispatch.\<close>

record redis_lib =
  parse_uri :: "string \<Rightarrow> conn_options throws"
  redis_open :: "conn_options \<Rightarrow> exn option"
  redis_ping :: "conn_options \<Rightarrow> exn option"
  redis_make_subscriber :: "conn_options \<Rightarrow> exn option"
  redis_subscribe :: "string \<Rightarrow> exn option"

definition normalise_url :: "string \<Rightarrow> string" where
  "normalise_url u = (if starts_with u ''tls://'' then ''rediss://'' @ substr_from u (length ''tls://'') else u)"

definition apply_tls :: "tls_config \<Rightarrow> conn_options \<Rightarrow> conn_options" where
  "apply_tls t opts =
     (let opts = opts\<lparr>o_tls_enabled := True, o_cacert := ca_file t\<rparr>;
          opts = (case cert_file t of None \<Rightarrow> opts | Some f \<Rightarrow> opts\<lparr>o_cert := f\<rparr>)
      in case key_file t of None \<Rightarrow> opts | Some f \<Rightarrow> opts\<lparr>o_key := f\<rparr>)"

definition to_connection_options :: "bool \<Rightarrow> redis_lib \<Rightarrow> redis_config \<Rightarrow> conn_options throws" where
  "to_connection_options tls_built R c =
     and_then (parse_uri R (normalise_url (redis_url c))) (\<lambda>opts.
       let opts = (case redis_username c of None \<Rightarrow> opts | Some u \<Rightarrow> opts\<lparr>o_user := u\<rparr>);
           opts = (case redis_password c of None \<Rightarrow> opts | Some p \<Rightarrow> opts\<lparr>o_password := p\<rparr>);
           opts = (case redis_db c of None \<Rightarrow> opts | Some d \<Rightarrow> opts\<lparr>o_db := d\<rparr>);
           opts = opts\<lparr>o_connect_timeout_ms := redis_connect_timeout c * 1000\<rparr>
       in case redis_tls c of
            None \<Rightarrow> Inr opts
          | Some t \<Rightarrow>
              if tls_built then Inr (apply_tls t opts)
              else Inl (Exn TlsNotSupportedError
                (''conduit::redis::Transport: Config::tls set but the transport was '' @
                 ''built without CONDUIT_TRANSPORT_REDIS_TLS'')))"

definition k_subscriber_poll_timeout :: int where
  "k_subscriber_poll_timeout = 200"

section \<open>State and operations\<close>

record 'r redis_impl = "'r adapter" +
  redis_cfg :: redis_config
  publisher :: "conn_options option"
  subscriber_conn :: "conn_options option"
  subscriber :: "string option"
  subscriber_thread :: bool
  redis_connected :: bool

definition redis_new :: "redis_config \<Rightarrow> 'r EventRegistry option \<Rightarrow> 'r redis_impl throws" where
  "redis_new cfg reg =
     (if redis_channel cfg = []
      then Inl (Exn ConfigError ''conduit::redis::Transport: Config::channel must be non-empty'')
      else Inr \<lparr>adapter_format = redis_format cfg, adapter_registry = map_option OwnRegistry reg,
        sink_set = False, error_sink_set = False, redis_cfg = cfg, publisher = None, subscriber_conn = None,
        subscriber = None, subscriber_thread = False, redis_connected = False\<rparr>)"

text \<open>\<^verbatim>\<open>shutdown\<close>: stop and join the thread, then release in this order.\<close>

definition redis_shutdown :: "'r redis_impl \<Rightarrow> 'r redis_impl" where
  "redis_shutdown i =
     (let i = (if subscriber_thread i then i\<lparr>subscriber_thread := False\<rparr> else i);
          i = i\<lparr>subscriber := None\<rparr>;
          i = i\<lparr>subscriber_conn := None\<rparr>;
          i = i\<lparr>publisher := None\<rparr>
      in i\<lparr>redis_connected := False\<rparr>)"

text \<open>The body of the \<^verbatim>\<open>try\<close> in \<^verbatim>\<open>attach_with_sink\<close>: the exception it ends with, if any, and the members so far.\<close>

definition redis_connect_body :: "bool \<Rightarrow> redis_lib \<Rightarrow> 'r redis_impl \<Rightarrow> exn option \<times> 'r redis_impl" where
  "redis_connect_body tls_built R i =
     (case to_connection_options tls_built R (redis_cfg i) of Inl e \<Rightarrow> (Some e, i) | Inr pub_opts \<Rightarrow>
     (case redis_open R pub_opts of Some e \<Rightarrow> (Some e, i) | None \<Rightarrow>
     (let i = i\<lparr>publisher := Some pub_opts\<rparr> in
     (case redis_ping R pub_opts of Some e \<Rightarrow> (Some e, i) | None \<Rightarrow>
     (case to_connection_options tls_built R (redis_cfg i) of Inl e \<Rightarrow> (Some e, i) | Inr sub_opts \<Rightarrow>
     (let sub_opts = sub_opts\<lparr>o_socket_timeout_ms := k_subscriber_poll_timeout\<rparr> in
     (case redis_open R sub_opts of Some e \<Rightarrow> (Some e, i) | None \<Rightarrow>
     (let i = i\<lparr>subscriber_conn := Some sub_opts\<rparr> in
     (case redis_make_subscriber R sub_opts of Some e \<Rightarrow> (Some e, i) | None \<Rightarrow>
     (case redis_subscribe R (redis_channel (redis_cfg i)) of Some e \<Rightarrow> (Some e, i) | None \<Rightarrow>
       (None, i\<lparr>subscriber := Some (redis_channel (redis_cfg i)), redis_connected := True\<rparr>)))))))))))"

definition redis_attach :: "bool \<times> redis_lib \<Rightarrow> 'r redis_impl \<Rightarrow> exn option \<times> 'r redis_impl" where
  "redis_attach env i =
     (case redis_connect_body (fst env) (snd env) (adapter_install i) of
        (None, i) \<Rightarrow> (None, i\<lparr>subscriber_thread := True\<rparr>)
      | (Some e, i) \<Rightarrow>
          if is_a (exn_kind e) StdException
          then (Some (Exn RedisError (''conduit::redis::Transport::attach: '' @ exn_what e)), redis_shutdown i)
          else (Some e, i))"

definition redis_detach :: "'r redis_impl \<Rightarrow> 'r redis_impl" where
  "redis_detach i = adapter_uninstall (redis_shutdown i)"

text \<open>The destructor.\<close>

definition redis_destroy :: "'r redis_impl \<Rightarrow> 'r redis_impl" where
  "redis_destroy i = redis_shutdown i"

text \<open>
  \<^verbatim>\<open>dispatch\<close>: the exception it throws and the message handed to \<^verbatim>\<open>PUBLISH\<close>, if any. What \<^verbatim>\<open>publish\<close>
  returns or throws is discarded by the code, so it is no input here.
\<close>

definition redis_dispatch ::
  "'r parcel_lib \<Rightarrow> text_codec \<Rightarrow> 'r redis_impl \<Rightarrow> EnvelopeCore option \<Rightarrow> exn option \<times> (string \<times> bytes) option" where
  "redis_dispatch P X i v =
     (if publisher i = None then (None, None)
      else case encode_payload P X (redis_format (redis_cfg i)) v of
        Inl e \<Rightarrow> (Some e, None)
      | Inr payload \<Rightarrow> (None, Some (redis_channel (redis_cfg i), payload)))"

definition redis_is_connected :: "'r redis_impl \<Rightarrow> bool" where
  "redis_is_connected i = redis_connected i"

text \<open>
  The subscriber thread: each \<^verbatim>\<open>consume()\<close> delivers a message, times out, or throws. The list is
  what the calls do until the stop request; a throw other than the timeout ends the loop.
\<close>

datatype consume_result = Message string bytes | PollTimeout | ConsumeError exn

definition redis_deliver ::
  "(('f, 'm, 'l, 'p, 'r, 'z) wired_scheme, 'l, 'p) leaf_ops \<Rightarrow> ('f, 'm, 'l, 'p, 'r, 'z) wired_host \<Rightarrow> text_codec \<Rightarrow>
     'l \<Rightarrow> 'r redis_impl \<Rightarrow> string \<Rightarrow> bytes \<Rightarrow> ('f, 'm, 'l, 'p, 'r, 'z) wired_scheme \<Rightarrow>
     ('f, 'm, 'l, 'p, 'r, 'z) wired_scheme" where
  [simp]: "redis_deliver L H X l i ch payload s = deliver_payload L H X ''redis'' l i payload s"

fun redis_loop ::
  "(('f, 'm, 'l, 'p, 'r, 'z) wired_scheme, 'l, 'p) leaf_ops \<Rightarrow> ('f, 'm, 'l, 'p, 'r, 'z) wired_host \<Rightarrow> text_codec \<Rightarrow>
     'l \<Rightarrow> 'r redis_impl \<Rightarrow> consume_result list \<Rightarrow> ('f, 'm, 'l, 'p, 'r, 'z) wired_scheme \<Rightarrow>
     ('f, 'm, 'l, 'p, 'r, 'z) wired_scheme" where
  "redis_loop L H X l i [] s = s"
| "redis_loop L H X l i (Message ch bs # cs) s =
     redis_loop L H X l i cs (redis_deliver L H X l i ch bs s)"
| "redis_loop L H X l i (PollTimeout # cs) s = redis_loop L H X l i cs s"
| "redis_loop L H X l i (ConsumeError e # cs) s = s"

text \<open>The payloads the loop delivers.\<close>

fun consumed :: "consume_result list \<Rightarrow> bytes list" where
  "consumed [] = []"
| "consumed (Message ch bs # cs) = bs # consumed cs"
| "consumed (PollTimeout # cs) = consumed cs"
| "consumed (ConsumeError e # cs) = []"

text \<open>Every exception of the library is a \<^verbatim>\<open>std::exception\<close>, as redis-plus-plus documents.\<close>

definition redis_std :: "bool \<times> redis_lib \<Rightarrow> bool" where
  "redis_std env \<longleftrightarrow>
     (\<forall>u e. parse_uri (snd env) u = Inl e \<longrightarrow> is_a (exn_kind e) StdException) \<and>
     (\<forall>opts e. redis_open (snd env) opts = Some e \<or> redis_ping (snd env) opts = Some e \<or>
        redis_make_subscriber (snd env) opts = Some e \<longrightarrow> is_a (exn_kind e) StdException) \<and>
     (\<forall>c e. redis_subscribe (snd env) c = Some e \<longrightarrow> is_a (exn_kind e) StdException)"

text \<open>A broker that accepts everything.\<close>

definition redis_up :: redis_lib where
  "redis_up = \<lparr>parse_uri = (\<lambda>u. Inr \<lparr>o_address = u, o_user = [], o_password = [], o_db = 0, o_connect_timeout_ms = 0,
      o_socket_timeout_ms = 0, o_tls_enabled = False, o_cacert = [], o_cert = [], o_key = []\<rparr>),
     redis_open = (\<lambda>opts. None), redis_ping = (\<lambda>opts. None), redis_make_subscriber = (\<lambda>opts. None),
     redis_subscribe = (\<lambda>c. None)\<rparr>"

text \<open>A connection made with the settings that were given.\<close>

definition honours :: "redis_config \<Rightarrow> conn_options \<Rightarrow> bool" where
  "honours c opts \<longleftrightarrow>
     o_connect_timeout_ms opts = redis_connect_timeout c * 1000 \<and>
     (\<forall>u. redis_username c = Some u \<longrightarrow> o_user opts = u) \<and> (\<forall>p. redis_password c = Some p \<longrightarrow> o_password opts = p) \<and>
     (\<forall>d. redis_db c = Some d \<longrightarrow> o_db opts = d) \<and>
     (\<forall>t. redis_tls c = Some t \<longrightarrow> o_tls_enabled opts \<and> o_cacert opts = ca_file t \<and>
        (\<forall>f. cert_file t = Some f \<longrightarrow> o_cert opts = f) \<and> (\<forall>f. key_file t = Some f \<longrightarrow> o_key opts = f))"

section \<open>Lemmas\<close>

lemma redis_shutdown_simps [simp]:
  "\<not> redis_connected (redis_shutdown i)" "publisher (redis_shutdown i) = None"
  "subscriber (redis_shutdown i) = None" "subscriber_conn (redis_shutdown i) = None"
  "\<not> subscriber_thread (redis_shutdown i)" "redis_cfg (redis_shutdown i) = redis_cfg i"
  by (simp_all add: redis_shutdown_def Let_def)

lemma redis_body_std:
  assumes "redis_std (b, R)" and "redis_connect_body b R i = (Some e, i')"
  shows "is_a (exn_kind e) StdException"
proof -
  have tls: "is_a TlsNotSupportedError StdException" by (simp add: is_a_StdException_iff)
  have opts: "to_connection_options b R c = Inl e \<Longrightarrow> is_a (exn_kind e) StdException" for c e
    using assms(1) tls
    by (auto simp: to_connection_options_def redis_std_def and_then_eq_Inl Let_def split: option.splits if_splits)
  show ?thesis
    using assms unfolding redis_connect_body_def Let_def
    by (auto simp: redis_std_def dest: opts split: sum.splits option.splits)
qed

lemma redis_body_ok:
  "redis_connect_body b R i = (None, i') \<Longrightarrow> redis_connected i' \<and> sink_set i' = sink_set i \<and>
     publisher i' \<noteq> None \<and> subscriber i' = Some (redis_channel (redis_cfg i)) \<and> redis_cfg i' = redis_cfg i"
  by (auto simp: redis_connect_body_def Let_def split: sum.splits option.splits)

lemma redis_body_members:
  "redis_connect_body b R i = (None, i') \<Longrightarrow> \<exists>opts. to_connection_options b R (redis_cfg i) = Inr opts \<and>
     publisher i' = Some opts \<and> subscriber_conn i' = Some (opts\<lparr>o_socket_timeout_ms := 200\<rparr>)"
  by (auto simp: redis_connect_body_def Let_def k_subscriber_poll_timeout_def split: sum.splits option.splits)

lemma redis_cfg_install [simp]: "redis_cfg (adapter_install i) = redis_cfg i"
  by (simp add: adapter_install_def Let_def)

lemma options_honour: "to_connection_options b R c = Inr opts \<Longrightarrow> honours c opts"
  by (auto simp: to_connection_options_def honours_def apply_tls_def and_then_def Let_def split: sum.splits option.splits if_splits)

lemma redis_attach_ok:
  assumes "redis_attach env i = (None, i')"
  shows "redis_connected i' \<and> sink_set i' \<and> subscriber_thread i' \<and> redis_cfg i' = redis_cfg i \<and>
    subscriber i' = Some (redis_channel (redis_cfg i)) \<and>
    (\<exists>opts. to_connection_options (fst env) (snd env) (redis_cfg i) = Inr opts \<and> honours (redis_cfg i) opts \<and> publisher i' = Some opts \<and>
       subscriber_conn i' = Some (opts\<lparr>o_socket_timeout_ms := 200\<rparr>))"
proof -
  obtain i1 where b: "redis_connect_body (fst env) (snd env) (adapter_install i) = (None, i1)"
    and "i' = i1\<lparr>subscriber_thread := True\<rparr>"
    using assms by (auto simp: redis_attach_def split: prod.splits option.splits if_splits)
  then show ?thesis using redis_body_ok [OF b] redis_body_members [OF b] options_honour by auto
qed

lemma redis_attach_fail:
  assumes "redis_std env" and "redis_attach env i = (Some e, i')"
  shows "exn_kind e = RedisError \<and> (\<exists>i0. i' = redis_shutdown i0 \<and> sink_set i0)"
proof -
  obtain e0 i0 where b: "redis_connect_body (fst env) (snd env) (adapter_install i) = (Some e0, i0)"
    using assms(2) by (auto simp: redis_attach_def split: prod.splits option.splits if_splits)
  then have "is_a (exn_kind e0) StdException"
    using redis_body_std [of "fst env" "snd env"] assms(1) by simp
  moreover have "sink_set i0"
    using b by (auto simp: redis_connect_body_def Let_def split: sum.splits option.splits)
  ultimately show ?thesis using assms(2) b by (auto simp: redis_attach_def)
qed

interpretation redis: adapter_lifecycle redis_attach redis_detach sink_set redis_connected redis_std
proof unfold_locales
  show "redis_attach x i = (None, i') \<Longrightarrow> sink_set i'" "redis_attach x i = (None, i') \<Longrightarrow> redis_connected i'" for x i i'
    by (simp_all add: redis_attach_ok)
  show "\<not> redis_connected i'" if "redis_std x" "redis_attach x i = (Some e, i')" for x i e i'
    using redis_attach_fail [OF that] by auto
qed (simp_all add: redis_detach_def adapter_uninstall_def redis_shutdown_def Let_def)

lemma redis_loop_consumed:
  "redis_loop L H X l i cs s = fold (\<lambda>bs. deliver_payload L H X ''redis'' l i bs) (consumed cs) s"
  by (induction L H X l i cs s rule: redis_loop.induct) simp_all

lemma redis_loop_detached: "redis_loop L H X l (redis_detach i) cs s = s"
  by (induction cs rule: consumed.induct) (simp_all add: redis_detach_def)

section \<open>Properties\<close>



end
