(* ===== verification/Nats.thy ===== *)
theory Nats
  imports Adapter
begin

text \<open>
  \<^verbatim>\<open>transports/nats/\<close>: the NATS adapter. The C client library is a parameter record that says
  which status each call returns; the options object is the list of the setter calls made on it, and
  \<^verbatim>\<open>NATS_HAS_TLS\<close> is a parameter. The length arguments of the C interface are 32-bit \<^verbatim>\<open>int\<close>s and
  kept at that width.
\<close>

section \<open>Configuration and the client library\<close>

record nats_config =
  nats_url :: string
  nats_name :: string
  nats_user :: "string option"
  nats_password :: "string option"
  nats_token :: "string option"
  credentials_file :: "string option"
  nats_tls :: "tls_config option"
  nats_connect_timeout :: int
  reconnect_wait :: int
  max_reconnects :: int
  subject :: string
  queue_group :: "string option"
  nats_format :: Format

definition nats_config_default :: nats_config where
  "nats_config_default = \<lparr>nats_url = ''nats://localhost:4222'', nats_name = [], nats_user = None, nats_password = None,
     nats_token = None, credentials_file = None, nats_tls = None, nats_connect_timeout = 10, reconnect_wait = 2,
     max_reconnects = 60, subject = ''conduit.envelope'', queue_group = None, nats_format = Cbor\<rparr>"

text \<open>\<^verbatim>\<open>natsStatus\<close>: \<^verbatim>\<open>NATS_OK\<close> or another code, with the text the library has for it, if any.\<close>

datatype nats_status = NATS_OK | NATS_ERR "string option"

datatype nats_option =
    SetURL string | SetName string | SetTimeout int | SetReconnectWait int | SetMaxReconnect int
  | SetToken string | SetUserInfo string string | SetUserCredentialsFromFiles string
  | SetSecure bool | LoadCATrustedCertificates string | LoadCertificatesChain string string
  | SkipServerVerification bool

text \<open>A call that fills in a pointer returns a status and whether the pointer is non-null.\<close>

record nats_lib =
  options_create :: "nats_status \<times> bool"
  options_set :: "nats_option \<Rightarrow> nats_status"
  connection_connect :: "nats_option list \<Rightarrow> nats_status \<times> bool"
  connection_subscribe :: "string \<Rightarrow> string option \<Rightarrow> nats_status \<times> bool"

definition nats_status_string :: "nats_status \<Rightarrow> string" where
  "nats_status_string s = (case s of NATS_OK \<Rightarrow> ''OK'' | NATS_ERR (Some txt) \<Rightarrow> txt | NATS_ERR None \<Rightarrow> ''unknown'')"

section \<open>State and operations\<close>

record 'r nats_impl = "'r adapter" +
  nats_cfg :: nats_config
  nats_opts :: "nats_option list option"
  nats_conn :: "nats_option list option"
  nats_sub :: "(string \<times> string option) option"
  nats_connected :: bool

text \<open>The constructor; \<open>fresh\<close> is the text of a new ULID.\<close>

definition nats_new :: "string \<Rightarrow> nats_config \<Rightarrow> 'r EventRegistry option \<Rightarrow> 'r nats_impl throws" where
  "nats_new fresh cfg reg =
     (if subject cfg = []
      then Inl (Exn ConfigError ''conduit::nats::Transport: Config::subject must be non-empty'')
      else let cfg = (if nats_name cfg = [] then cfg\<lparr>nats_name := ''conduit-'' @ fresh\<rparr> else cfg)
        in Inr \<lparr>adapter_format = nats_format cfg, adapter_registry = map_option OwnRegistry reg,
          sink_set = False, error_sink_set = False, nats_cfg = cfg, nats_opts = None, nats_conn = None,
          nats_sub = None, nats_connected = False\<rparr>)"

text \<open>\<^verbatim>\<open>shutdown\<close>: unsubscribe, drain, release the options, in this order.\<close>

definition nats_shutdown :: "'r nats_impl \<Rightarrow> 'r nats_impl" where
  "nats_shutdown i =
     (let i = (if nats_sub i \<noteq> None then i\<lparr>nats_sub := None\<rparr> else i);
          i = (if nats_conn i \<noteq> None then i\<lparr>nats_conn := None\<rparr> else i);
          i = (if nats_opts i \<noteq> None then i\<lparr>nats_opts := None\<rparr> else i)
      in i\<lparr>nats_connected := False\<rparr>)"

text \<open>\<^verbatim>\<open>if (s == NATS_OK) s = natsOptions_...\<close>: one guarded setter, on the status and the calls so far.\<close>

definition nats_set :: "nats_lib \<Rightarrow> nats_option \<Rightarrow> nats_status \<times> nats_option list \<Rightarrow> nats_status \<times> nats_option list" where
  "nats_set N opt st = (case st of (s, os) \<Rightarrow> if s = NATS_OK then (options_set N opt, os @ [opt]) else (s, os))"

text \<open>Token first, then user and password when both are there.\<close>

definition nats_auth :: "nats_config \<Rightarrow> nats_option list" where
  "nats_auth c =
     (case nats_token c of
        Some t \<Rightarrow> [SetToken t]
      | None \<Rightarrow> (case (nats_user c, nats_password c) of (Some u, Some p) \<Rightarrow> [SetUserInfo u p] | _ \<Rightarrow> []))"

definition nats_tls_options :: "tls_config \<Rightarrow> nats_option list" where
  "nats_tls_options t =
     [SetSecure True, LoadCATrustedCertificates (ca_file t)] @
     (case (cert_file t, key_file t) of (Some c, Some k) \<Rightarrow> [LoadCertificatesChain c k] | _ \<Rightarrow> []) @
     [SkipServerVerification (\<not> verify_peer t)]"

text \<open>The setter calls in source order, without the TLS block and with it when it is built in.\<close>

definition nats_options :: "bool \<Rightarrow> nats_config \<Rightarrow> nats_option list" where
  "nats_options tls_built c =
     [SetURL (nats_url c), SetName (nats_name c), SetTimeout (nats_connect_timeout c * 1000),
      SetReconnectWait (reconnect_wait c * 1000), SetMaxReconnect (max_reconnects c)] @
     nats_auth c @
     (case credentials_file c of None \<Rightarrow> [] | Some f \<Rightarrow> [SetUserCredentialsFromFiles f]) @
     (if tls_built then (case nats_tls c of None \<Rightarrow> [] | Some t \<Rightarrow> nats_tls_options t) else [])"

definition nats_failed :: "string \<Rightarrow> nats_status \<Rightarrow> exn" where
  "nats_failed what s = Exn NatsError (''conduit::nats::Transport::attach: '' @ what @ '' failed: '' @ nats_status_string s)"

definition nats_attach :: "bool \<times> nats_lib \<Rightarrow> 'r nats_impl \<Rightarrow> exn option \<times> 'r nats_impl" where
  "nats_attach env i =
     (let (tls_built, N) = env;
          i = adapter_install i;
          cfg = nats_cfg i;
          (s, opts) = options_create N;
          i = i\<lparr>nats_opts := (if opts then Some [] else None)\<rparr>
      in
      if s \<noteq> NATS_OK \<or> \<not> opts then (Some (nats_failed ''natsOptions_Create'' s), nats_shutdown i)
      else let (s, os) = fold (nats_set N) (nats_options tls_built cfg) (NATS_OK, []);
               i = i\<lparr>nats_opts := Some os\<rparr>
      in
      if \<not> tls_built \<and> nats_tls cfg \<noteq> None
      then (Some (Exn TlsNotSupportedError
             (''conduit::nats::Transport: Config::tls set but the transport was '' @
              ''built without CONDUIT_TRANSPORT_NATS_TLS'')), nats_shutdown i)
      else if s \<noteq> NATS_OK then (Some (nats_failed ''option setup'' s), nats_shutdown i)
      else let (s, conn) = connection_connect N os;
               i = i\<lparr>nats_conn := (if conn then Some os else None)\<rparr>
      in
      if s \<noteq> NATS_OK \<or> \<not> conn then (Some (nats_failed ''connect'' s), nats_shutdown i)
      else let (s, sub) = connection_subscribe N (subject cfg) (queue_group cfg);
               i = i\<lparr>nats_sub := (if sub then Some (subject cfg, queue_group cfg) else None)\<rparr>
      in
      if s \<noteq> NATS_OK \<or> \<not> sub then (Some (nats_failed ''subscribe'' s), nats_shutdown i)
      else (None, i\<lparr>nats_connected := True\<rparr>))"

definition nats_detach :: "'r nats_impl \<Rightarrow> 'r nats_impl" where
  "nats_detach i = adapter_uninstall (nats_shutdown i)"

text \<open>The destructor.\<close>

definition nats_destroy :: "'r nats_impl \<Rightarrow> 'r nats_impl" where
  "nats_destroy i = nats_shutdown i"

text \<open>\<^verbatim>\<open>deliver_bytes\<close> on the pointer and the \<^verbatim>\<open>int\<close> length of a received message.\<close>

definition nats_deliver_bytes ::
  "(('f, 'm, 'l, 'p, 'r, 'z) wired_scheme, 'l, 'p) leaf_ops \<Rightarrow> ('f, 'm, 'l, 'p, 'r, 'z) wired_host \<Rightarrow> text_codec \<Rightarrow>
     'l \<Rightarrow> 'r nats_impl \<Rightarrow> bytes option \<Rightarrow> 32 word \<Rightarrow> ('f, 'm, 'l, 'p, 'r, 'z) wired_scheme \<Rightarrow>
     ('f, 'm, 'l, 'p, 'r, 'z) wired_scheme" where
  "nats_deliver_bytes L H X l i data len s =
     (case data of
        None \<Rightarrow> s
      | Some d \<Rightarrow> if sint len \<le> 0 then s else deliver_payload L H X ''nats'' l i (take (nat (sint len)) d) s)"

text \<open>
  \<^verbatim>\<open>msg_handler\<close>, the C callback: either pointer may be null. The message is destroyed on every path.
\<close>

definition msg_handler ::
  "(('f, 'm, 'l, 'p, 'r, 'z) wired_scheme, 'l, 'p) leaf_ops \<Rightarrow> ('f, 'm, 'l, 'p, 'r, 'z) wired_host \<Rightarrow> text_codec \<Rightarrow>
     'l \<Rightarrow> 'r nats_impl option \<Rightarrow> (bytes option \<times> 32 word) option \<Rightarrow> ('f, 'm, 'l, 'p, 'r, 'z) wired_scheme \<Rightarrow>
     ('f, 'm, 'l, 'p, 'r, 'z) wired_scheme" where
  "msg_handler L H X l closure msg s =
     (case (closure, msg) of
        (Some self, Some (data, len)) \<Rightarrow> nats_deliver_bytes L H X l self data len s
      | _ \<Rightarrow> s)"

text \<open>The effects of a dispatch on the connection, in order.\<close>

datatype nats_effect = NatsPublish string bytes "32 word" | NatsFlush int

text \<open>\<^verbatim>\<open>dispatch\<close>: the exception it throws and its effects. The status of the publish is discarded by the code.\<close>

definition nats_dispatch ::
  "'r parcel_lib \<Rightarrow> text_codec \<Rightarrow> 'r nats_impl \<Rightarrow> EnvelopeCore option \<Rightarrow> exn option \<times> nats_effect list" where
  "nats_dispatch P X i v =
     (if nats_conn i = None then (None, [])
      else case encode_payload P X (nats_format (nats_cfg i)) v of
        Inl e \<Rightarrow> (Some e, [])
      | Inr payload \<Rightarrow>
          (None, NatsPublish (subject (nats_cfg i)) payload (word_of_nat (length payload)) #
             (if wants_ack v then [NatsFlush 5000] else [])))"

definition nats_flush :: "'r nats_impl \<Rightarrow> nats_effect list" where
  "nats_flush i = (if nats_conn i = None then [] else [NatsFlush 5000])"

definition nats_is_connected :: "'r nats_impl \<Rightarrow> bool" where
  "nats_is_connected i = nats_connected i"

text \<open>A server that accepts everything.\<close>

definition nats_up :: nats_lib where
  "nats_up = \<lparr>options_create = (NATS_OK, True), options_set = (\<lambda>opt. NATS_OK),
     connection_connect = (\<lambda>os. (NATS_OK, True)), connection_subscribe = (\<lambda>c q. (NATS_OK, True))\<rparr>"

definition nats_demo :: "descriptor list nats_impl" where
  "nats_demo = \<lparr>adapter_format = Cbor, adapter_registry = None, sink_set = False, error_sink_set = False,
     nats_cfg = nats_config_default, nats_opts = None, nats_conn = None, nats_sub = None, nats_connected = False\<rparr>"

section \<open>Lemmas\<close>

lemma nats_shutdown_eq: "nats_shutdown i = i\<lparr>nats_opts := None, nats_conn := None, nats_sub := None, nats_connected := False\<rparr>"
  by (cases i; cases "nats_sub i") (auto simp: nats_shutdown_def Let_def)

lemma nats_shutdown_simps [simp]:
  "\<not> nats_connected (nats_shutdown i)" "nats_opts (nats_shutdown i) = None"
  "nats_conn (nats_shutdown i) = None" "nats_sub (nats_shutdown i) = None"
  "nats_cfg (nats_shutdown i) = nats_cfg i"
  by (simp_all add: nats_shutdown_eq)

lemma nats_cfg_install [simp]: "nats_cfg (adapter_install i) = nats_cfg i"
  by (simp add: adapter_install_def Let_def)

text \<open>The setter chain stops at the first failing call; it ends well exactly when every call does.\<close>

lemma nats_set_simps [simp]:
  "nats_set N opt (NATS_OK, os) = (options_set N opt, os @ [opt])"
  "s \<noteq> NATS_OK \<Longrightarrow> nats_set N opt (s, os) = (s, os)"
  by (simp_all add: nats_set_def)

lemma nats_set_stuck: "s \<noteq> NATS_OK \<Longrightarrow> fold (nats_set N) opts (s, os) = (s, os)"
  by (induction opts) simp_all

lemma nats_set_all:
  "fold (nats_set N) opts (NATS_OK, os) = (NATS_OK, os') \<longleftrightarrow>
     (\<forall>opt \<in> set opts. options_set N opt = NATS_OK) \<and> os' = os @ opts"
proof (induction opts arbitrary: os)
  case (Cons opt opts)
  then show ?case
    by (cases "options_set N opt = NATS_OK") (auto simp: nats_set_stuck)
qed auto

text \<open>When an attach succeeds.\<close>

definition nats_accepts :: "bool \<times> nats_lib \<Rightarrow> nats_config \<Rightarrow> bool" where
  "nats_accepts env c \<longleftrightarrow>
     options_create (snd env) = (NATS_OK, True) \<and>
     (\<forall>opt \<in> set (nats_options (fst env) c). options_set (snd env) opt = NATS_OK) \<and>
     (fst env \<or> nats_tls c = None) \<and>
     connection_connect (snd env) (nats_options (fst env) c) = (NATS_OK, True) \<and>
     connection_subscribe (snd env) (subject c) (queue_group c) = (NATS_OK, True)"

lemma nats_attach_ok:
  assumes "nats_accepts env (nats_cfg i)"
  shows "nats_attach env i = (None, (adapter_install i)\<lparr>nats_opts := Some (nats_options (fst env) (nats_cfg i)),
     nats_conn := Some (nats_options (fst env) (nats_cfg i)),
     nats_sub := Some (subject (nats_cfg i), queue_group (nats_cfg i)), nats_connected := True\<rparr>)"
proof -
  have "fold (nats_set (snd env)) (nats_options (fst env) (nats_cfg i)) (NATS_OK, []) =
      (NATS_OK, nats_options (fst env) (nats_cfg i))"
    using assms by (simp add: nats_set_all nats_accepts_def)
  then show ?thesis using assms by (auto simp: nats_attach_def nats_accepts_def Let_def split: prod.splits)
qed

lemma nats_attach_fail:
  assumes "\<not> nats_accepts env (nats_cfg i)"
  shows "\<exists>e. nats_attach env i = (Some e, nats_shutdown (adapter_install i)) \<and>
    (exn_kind e = NatsError \<or> exn_kind e = TlsNotSupportedError \<and> \<not> fst env \<and> nats_tls (nats_cfg i) \<noteq> None)"
proof -
  obtain t N where env: "env = (t, N)" by fastforce
  let ?c = "nats_cfg i"
  obtain s os where f: "fold (nats_set N) (nats_options t ?c) (NATS_OK, []) = (s, os)" by fastforce
  obtain s0 p0 where c: "options_create N = (s0, p0)" by fastforce
  obtain s1 p1 where k: "connection_connect N os = (s1, p1)" by fastforce
  obtain s2 p2 where b: "connection_subscribe N (subject ?c) (queue_group ?c) = (s2, p2)" by fastforce
  note eqs = nats_attach_def Let_def f c k b env nats_failed_def
  consider "s0 \<noteq> NATS_OK \<or> \<not> p0" | "s0 = NATS_OK" "p0" "\<not> t" "nats_tls ?c \<noteq> None"
    | "s0 = NATS_OK" "p0" "t \<or> nats_tls ?c = None" "s \<noteq> NATS_OK"
    | "s0 = NATS_OK" "p0" "t \<or> nats_tls ?c = None" "s = NATS_OK" "s1 \<noteq> NATS_OK \<or> \<not> p1"
    | "s0 = NATS_OK" "p0" "t \<or> nats_tls ?c = None" "s = NATS_OK" "s1 = NATS_OK" "p1" "s2 \<noteq> NATS_OK \<or> \<not> p2"
    | "s0 = NATS_OK" "p0" "t \<or> nats_tls ?c = None" "s = NATS_OK" "s1 = NATS_OK" "p1" "s2 = NATS_OK" "p2"
    by blast
  then show ?thesis
  proof cases
    case 6
    then have "nats_accepts env ?c"
      using f c k b nats_set_all [of N "nats_options t ?c" "[]" os] by (auto simp: nats_accepts_def env)
    then show ?thesis using assms by simp
  qed (simp_all add: eqs nats_shutdown_eq split: prod.splits)
qed

interpretation nats: adapter_lifecycle nats_attach nats_detach sink_set nats_connected "\<lambda>env. True"
proof unfold_locales
  show "sink_set i'" "nats_connected i'" if "nats_attach x i = (None, i')" for x i i'
    using that nats_attach_ok [of x i] nats_attach_fail [of x i] by (cases "nats_accepts x (nats_cfg i)"; auto)+
  show "\<not> nats_connected i'" if "nats_attach x i = (Some e, i')" for x i e i'
    using that nats_attach_ok [of x i] nats_attach_fail [of x i] by (cases "nats_accepts x (nats_cfg i)") auto
qed (simp_all add: nats_detach_def adapter_uninstall_def nats_shutdown_eq)

lemma nats_cycles_cfg: "nats_cfg (fold (\<lambda>x i. nats_detach (snd (nats_attach x i))) envs i) = nats_cfg i"
proof (induction envs arbitrary: i)
  case (Cons x envs)
  have "nats_cfg (snd (nats_attach x i)) = nats_cfg i"
    using nats_attach_ok [of x i] nats_attach_fail [of x i] by (cases "nats_accepts x (nats_cfg i)") auto
  then show ?case using Cons by (simp add: nats_detach_def adapter_uninstall_def)
qed simp

text \<open>A length below \<open>2 ^ 31\<close> survives the cast to \<^verbatim>\<open>int\<close>; one in the upper half of the range turns negative.\<close>

lemma sint_length:
  "n < 2 ^ 31 \<Longrightarrow> sint (word_of_nat n :: 32 word) = int n"
  "2 ^ 31 \<le> n \<Longrightarrow> n < 2 ^ 32 \<Longrightarrow> sint (word_of_nat n :: 32 word) = int n - 2 ^ 32"
proof -
  have *: "sint (word_of_nat n :: 32 word) = (int n + 2 ^ 31) mod 2 ^ 32 - 2 ^ 31"
    using int_word_sint [of "int n", where 'a = 32] by simp
  show "sint (word_of_nat n :: 32 word) = int n" if "n < 2 ^ 31"
    using that unfolding * by (simp add: mod_pos_pos_trivial)
  show "sint (word_of_nat n :: 32 word) = int n - 2 ^ 32" if "2 ^ 31 \<le> n" "n < 2 ^ 32"
  proof -
    have "(int n + 2 ^ 31) mod 2 ^ 32 = (int n - 2 ^ 31) mod 2 ^ 32"
      using mod_add_self1 [of "2 ^ 32" "int n - 2 ^ 31"] by (simp add: algebra_simps)
    then show ?thesis using that unfolding * by (simp add: mod_pos_pos_trivial)
  qed
qed

section \<open>Properties\<close>



text \<open>
  C32: the length of a payload passes through the C interface as a 32-bit \<^verbatim>\<open>int\<close>. What one adapter publishes
  and another receives is delivered whole when it has between one byte and \<open>2 ^ 31 - 1\<close>; one whose length wraps to
  zero or to a negative number is dropped without a report, a longer one is cut to its length modulo \<open>2 ^ 32\<close>.
\<close>

theorem nats_payload_width:
  assumes "nats_dispatch P X i v = (None, NatsPublish sub bs len # rest)"
  shows "msg_handler L H Y l (Some j) (Some (Some bs, len)) s =
      (if length bs mod 2 ^ 32 = 0 \<or> 2 ^ 31 \<le> length bs mod 2 ^ 32 then s
       else deliver_payload L H Y ''nats'' l j (take (length bs mod 2 ^ 32) bs) s)"
proof -
  let ?n = "length bs mod 2 ^ 32"
  have "len = word_of_nat (length bs)"
    using assms by (auto simp: nats_dispatch_def split: if_splits sum.splits)
  also have "\<dots> = word_of_nat ?n"
    by (simp add: word_of_nat_eq_iff take_bit_eq_mod)
  finally have len: "len = word_of_nat ?n" .
  have "?n < 2 ^ 32" by simp
  then show ?thesis
    using sint_length [of ?n] unfolding msg_handler_def nats_deliver_bytes_def len
    by (cases "?n < 2 ^ 31") auto
qed

theorem nats_payload_width_witness:
  "nats_dispatch example_parcel table_codec (snd (nats_attach (False, nats_up) nats_demo)) (Some example_core) =
     (None, [NatsPublish ''conduit.envelope'' [0x80] 1]) \<and>
   msg_handler demo_leaves inbound_host table_codec ''leaf'' (Some nats_demo) (Some (Some [0x80], 1)) receiving_bus =
     deliver_payload demo_leaves inbound_host table_codec ''nats'' ''leaf'' nats_demo [0x80] receiving_bus"
proof -
  have a: "nats_accepts (False, nats_up) (nats_cfg nats_demo)"
    by (simp add: nats_accepts_def nats_up_def nats_demo_def nats_config_default_def)
  have c: "subject (nats_cfg nats_demo) = ''conduit.envelope''"
    by (simp add: nats_demo_def nats_config_default_def)
  have k: "\<not> wants_ack (Some example_core)" by (simp add: wants_ack_def example_core_def)
  have d: "nats_dispatch example_parcel table_codec (snd (nats_attach (False, nats_up) nats_demo)) (Some example_core) =
     (None, [NatsPublish ''conduit.envelope'' [0x80] 1])"
    using c k by (simp add: nats_attach_ok [OF a] nats_dispatch_def example_encodes)
  then show ?thesis
    using nats_payload_width [OF d, of demo_leaves inbound_host table_codec "''leaf''" nats_demo receiving_bus] by simp
qed

end
