(* ===== verification/Zmq.thy ===== *)
theory Zmq
  imports Adapter
begin

text \<open>
  \<^verbatim>\<open>transports/zmq/\<close>: the ZeroMQ adapter with its three socket patterns. A call of the library is a
  value; the parameter says which calls throw. The code that creates, configures and connects the
  sockets is the list of its calls, run up to the first that throws; \<^verbatim>\<open>CONDUIT_ZMQ_HAS_CURVE\<close> is a
  parameter.
\<close>

section \<open>Configuration\<close>

datatype Pattern = PubSub | PushPull | RouterDealer

datatype Role = Bind | Connect

record curve_config =
  server_key :: string
  public_key :: string
  secret_key :: string
  is_server :: bool

record zmq_config =
  pattern :: Pattern
  pub_endpoint :: string
  pub_role :: Role
  sub_endpoint :: string
  sub_role :: Role
  subscription_prefix :: string
  push_endpoint :: string
  push_role :: Role
  pull_endpoint :: string
  pull_role :: Role
  endpoint :: string
  endpoint_role :: Role
  identity :: "string option"
  linger :: int
  send_hwm :: int
  recv_hwm :: int
  curve :: "curve_config option"
  zmq_format :: Format

definition zmq_config_default :: zmq_config where
  "zmq_config_default = \<lparr>pattern = PubSub, pub_endpoint = [], pub_role = Connect, sub_endpoint = [], sub_role = Connect,
     subscription_prefix = [], push_endpoint = [], push_role = Connect, pull_endpoint = [], pull_role = Bind,
     endpoint = [], endpoint_role = Connect, identity = None, linger = 0, send_hwm = 1000, recv_hwm = 1000,
     curve = None, zmq_format = Cbor\<rparr>"

definition validate :: "zmq_config \<Rightarrow> exn option" where
  "validate c =
     (case pattern c of
        PubSub \<Rightarrow>
          if pub_endpoint c = [] \<and> sub_endpoint c = []
          then Some (Exn ConfigError ''conduit::zmq::Transport: PubSub requires pub_endpoint or sub_endpoint'') else None
      | PushPull \<Rightarrow>
          if push_endpoint c = [] \<and> pull_endpoint c = []
          then Some (Exn ConfigError ''conduit::zmq::Transport: PushPull requires push_endpoint or pull_endpoint'') else None
      | RouterDealer \<Rightarrow>
          if endpoint c = []
          then Some (Exn ConfigError ''conduit::zmq::Transport: RouterDealer requires endpoint'') else None)"

section \<open>Sockets and library calls\<close>

datatype socket_type = SockPub | SockPush | SockDealer | SockSub | SockPull | SockRouter | SockPair

fun outbound_type :: "Pattern \<Rightarrow> socket_type" where
  "outbound_type PubSub = SockPub"
| "outbound_type PushPull = SockPush"
| "outbound_type RouterDealer = SockDealer"

fun inbound_type :: "Pattern \<Rightarrow> socket_type" where
  "inbound_type PubSub = SockSub"
| "inbound_type PushPull = SockPull"
| "inbound_type RouterDealer = SockRouter"

datatype zmq_opt =
    OptLinger int | OptSndHwm int | OptRcvHwm int | OptRoutingId string | OptSubscribe string
  | OptCurveServer int | OptCurveSecretKey string | OptCurveServerKey string | OptCurvePublicKey string

text \<open>The four socket members of the implementation.\<close>

datatype slot = Outbound | Inbound | ShutdownPub | ShutdownSub

record zmq_socket =
  sock_type :: socket_type
  sock_opts :: "zmq_opt list"
  sock_at :: "(Role \<times> string) list"

datatype zmq_call =
    MakeContext
  | MakeSocket slot socket_type
  | SetOpt slot zmq_opt
  | OpenAt slot Role string

definition k_shutdown_endpoint :: string where
  "k_shutdown_endpoint = ''inproc://conduit-zmq-shutdown''"

definition bind_or_connect :: "slot \<Rightarrow> string \<Rightarrow> Role \<Rightarrow> zmq_call" where
  "bind_or_connect k ep role = (if role = Bind then OpenAt k Bind ep else OpenAt k Connect ep)"

text \<open>\<^verbatim>\<open>static_cast<int>(config.linger.count())\<close>, from 64 to 32 bits.\<close>

definition linger_ms :: "zmq_config \<Rightarrow> int" where
  "linger_ms c = sint (word_of_int (linger c) :: 32 word)"

definition socket_opts :: "bool \<Rightarrow> zmq_config \<Rightarrow> bool \<Rightarrow> zmq_opt list" where
  "socket_opts curve_built c is_outbound =
     [OptLinger (linger_ms c), if is_outbound then OptSndHwm (send_hwm c) else OptRcvHwm (recv_hwm c)] @
     (case identity c of None \<Rightarrow> [] | Some n \<Rightarrow> [OptRoutingId n]) @
     (if \<not> curve_built then [] else case curve c of
        None \<Rightarrow> []
      | Some cv \<Rightarrow>
          if is_server cv then [OptCurveServer 1, OptCurveSecretKey (secret_key cv)]
          else [OptCurveServerKey (server_key cv), OptCurvePublicKey (public_key cv), OptCurveSecretKey (secret_key cv)])"

definition apply_socket_opts :: "bool \<Rightarrow> zmq_config \<Rightarrow> slot \<Rightarrow> bool \<Rightarrow> zmq_call list" where
  "apply_socket_opts curve_built c k is_outbound = map (SetOpt k) (socket_opts curve_built c is_outbound)"

definition other_role :: "Role \<Rightarrow> Role" where
  "other_role r = (if r = Bind then Connect else Bind)"

text \<open>The calls of the \<^verbatim>\<open>try\<close> block of \<^verbatim>\<open>attach_with_sink\<close> up to the shutdown pair.\<close>

definition open_calls :: "bool \<Rightarrow> zmq_config \<Rightarrow> zmq_call list" where
  "open_calls cb c = MakeContext #
     (case pattern c of
        RouterDealer \<Rightarrow>
          [MakeSocket Outbound (outbound_type (pattern c))] @ apply_socket_opts cb c Outbound True @
          [MakeSocket Inbound (inbound_type (pattern c))] @ apply_socket_opts cb c Inbound False @
          [bind_or_connect Outbound (endpoint c) (endpoint_role c),
           bind_or_connect Inbound (endpoint c) (other_role (endpoint_role c))]
      | PubSub \<Rightarrow>
          (if pub_endpoint c = [] then [] else
             [MakeSocket Outbound SockPub] @ apply_socket_opts cb c Outbound True @
             [bind_or_connect Outbound (pub_endpoint c) (pub_role c)]) @
          (if sub_endpoint c = [] then [] else
             [MakeSocket Inbound SockSub] @ apply_socket_opts cb c Inbound False @
             [SetOpt Inbound (OptSubscribe (subscription_prefix c)),
              bind_or_connect Inbound (sub_endpoint c) (sub_role c)])
      | PushPull \<Rightarrow>
          (if push_endpoint c = [] then [] else
             [MakeSocket Outbound SockPush] @ apply_socket_opts cb c Outbound True @
             [bind_or_connect Outbound (push_endpoint c) (push_role c)]) @
          (if pull_endpoint c = [] then [] else
             [MakeSocket Inbound SockPull] @ apply_socket_opts cb c Inbound False @
             [bind_or_connect Inbound (pull_endpoint c) (pull_role c)]))"

text \<open>The inproc pair that wakes the worker on detach.\<close>

definition pair_calls :: "zmq_call list" where
  "pair_calls =
     [MakeSocket ShutdownSub SockPair, SetOpt ShutdownSub (OptLinger 0), OpenAt ShutdownSub Bind k_shutdown_endpoint,
      MakeSocket ShutdownPub SockPair, SetOpt ShutdownPub (OptLinger 0), OpenAt ShutdownPub Connect k_shutdown_endpoint]"

section \<open>State and operations\<close>

record 'r zmq_impl = "'r adapter" +
  zmq_cfg :: zmq_config
  zmq_context :: bool
  zsocks :: "slot \<Rightarrow> zmq_socket option"
  worker :: bool
  zmq_connected :: bool

definition zmq_new :: "bool \<Rightarrow> zmq_config \<Rightarrow> 'r EventRegistry option \<Rightarrow> 'r zmq_impl throws" where
  "zmq_new curve_built cfg reg =
     (case validate cfg of
        Some e \<Rightarrow> Inl e
      | None \<Rightarrow>
          if \<not> curve_built \<and> curve cfg \<noteq> None
          then Inl (Exn ConfigError (''conduit::zmq::Transport: Config::curve set but the transport was '' @
             ''built without CONDUIT_TRANSPORT_ZMQ_CURVE''))
          else Inr \<lparr>adapter_format = zmq_format cfg, adapter_registry = map_option OwnRegistry reg,
            sink_set = False, error_sink_set = False, zmq_cfg = cfg, zmq_context = False, zsocks = (\<lambda>k. None),
            worker = False, zmq_connected = False\<rparr>)"

text \<open>\<^verbatim>\<open>shutdown\<close>: wake and join the worker, then release the sockets and the context.\<close>

definition zmq_shutdown :: "'r zmq_impl \<Rightarrow> 'r zmq_impl" where
  "zmq_shutdown i =
     (let i = (if worker i then i\<lparr>worker := False\<rparr> else i);
          i = i\<lparr>zsocks := (zsocks i)(Inbound := None)\<rparr>;
          i = i\<lparr>zsocks := (zsocks i)(Outbound := None)\<rparr>;
          i = i\<lparr>zsocks := (zsocks i)(ShutdownPub := None)\<rparr>;
          i = i\<lparr>zsocks := (zsocks i)(ShutdownSub := None)\<rparr>;
          i = i\<lparr>zmq_context := False\<rparr>
      in i\<lparr>zmq_connected := False\<rparr>)"

text \<open>What a call that does not throw changes.\<close>

fun zmq_apply :: "zmq_call \<Rightarrow> 'r zmq_impl \<Rightarrow> 'r zmq_impl" where
  "zmq_apply MakeContext i = i\<lparr>zmq_context := True\<rparr>"
| "zmq_apply (MakeSocket k t) i = i\<lparr>zsocks := (zsocks i)(k \<mapsto> \<lparr>sock_type = t, sock_opts = [], sock_at = []\<rparr>)\<rparr>"
| "zmq_apply (SetOpt k opt) i =
     i\<lparr>zsocks := (zsocks i)(k := map_option (\<lambda>x. x\<lparr>sock_opts := sock_opts x @ [opt]\<rparr>) (zsocks i k))\<rparr>"
| "zmq_apply (OpenAt k r ep) i =
     i\<lparr>zsocks := (zsocks i)(k := map_option (\<lambda>x. x\<lparr>sock_at := sock_at x @ [(r, ep)]\<rparr>) (zsocks i k))\<rparr>"

fun zmq_run :: "(zmq_call \<Rightarrow> exn option) \<Rightarrow> zmq_call list \<Rightarrow> 'r zmq_impl \<Rightarrow> exn option \<times> 'r zmq_impl" where
  "zmq_run throws_on [] i = (None, i)"
| "zmq_run throws_on (c # cs) i =
     (case throws_on c of Some e \<Rightarrow> (Some e, i) | None \<Rightarrow> zmq_run throws_on cs (zmq_apply c i))"

definition zmq_connect_body :: "bool \<Rightarrow> (zmq_call \<Rightarrow> exn option) \<Rightarrow> 'r zmq_impl \<Rightarrow> exn option \<times> 'r zmq_impl" where
  "zmq_connect_body cb throws_on i =
     (case zmq_run throws_on (open_calls cb (zmq_cfg i)) i of
        (Some e, i) \<Rightarrow> (Some e, i)
      | (None, i) \<Rightarrow>
          (case (if zsocks i Inbound \<noteq> None then zmq_run throws_on pair_calls i else (None, i)) of
             (Some e, i) \<Rightarrow> (Some e, i)
           | (None, i) \<Rightarrow> (None, i\<lparr>zmq_connected := True\<rparr>)))"

definition zmq_attach :: "bool \<times> (zmq_call \<Rightarrow> exn option) \<Rightarrow> 'r zmq_impl \<Rightarrow> exn option \<times> 'r zmq_impl" where
  "zmq_attach env i =
     (case zmq_connect_body (fst env) (snd env) (adapter_install i) of
        (None, i) \<Rightarrow> (None, if zsocks i Inbound \<noteq> None then i\<lparr>worker := True\<rparr> else i)
      | (Some e, i) \<Rightarrow>
          if is_a (exn_kind e) StdException
          then (Some (Exn ZmqError (''conduit::zmq::Transport::attach: '' @ exn_what e)), zmq_shutdown i)
          else (Some e, i))"

definition zmq_detach :: "'r zmq_impl \<Rightarrow> 'r zmq_impl" where
  "zmq_detach i = adapter_uninstall (zmq_shutdown i)"

text \<open>The destructor.\<close>

definition zmq_destroy :: "'r zmq_impl \<Rightarrow> 'r zmq_impl" where
  "zmq_destroy i = zmq_shutdown i"

text \<open>\<^verbatim>\<open>dispatch\<close>: the exception it throws and the frame handed to \<^verbatim>\<open>send\<close>, whose outcome the code discards.\<close>

definition zmq_dispatch ::
  "'r parcel_lib \<Rightarrow> text_codec \<Rightarrow> 'r zmq_impl \<Rightarrow> EnvelopeCore option \<Rightarrow> exn option \<times> bytes option" where
  "zmq_dispatch P X i v =
     (if zsocks i Outbound = None then (None, None)
      else case encode_payload P X (zmq_format (zmq_cfg i)) v of
        Inl e \<Rightarrow> (Some e, None)
      | Inr payload \<Rightarrow> (None, Some payload))"

definition zmq_is_connected :: "'r zmq_impl \<Rightarrow> bool" where
  "zmq_is_connected i = zmq_connected i"

section \<open>The worker thread\<close>

definition zmq_deliver_bytes ::
  "(('f, 'm, 'l, 'p, 'r, 'z) wired_scheme, 'l, 'p) leaf_ops \<Rightarrow> ('f, 'm, 'l, 'p, 'r, 'z) wired_host \<Rightarrow> text_codec \<Rightarrow>
     'l \<Rightarrow> 'r zmq_impl \<Rightarrow> bytes \<Rightarrow> ('f, 'm, 'l, 'p, 'r, 'z) wired_scheme \<Rightarrow>
     ('f, 'm, 'l, 'p, 'r, 'z) wired_scheme" where
  "zmq_deliver_bytes L H X l i bs s = (if bs = [] then s else deliver_payload L H X ''zmq'' l i bs s)"

text \<open>A \<^verbatim>\<open>recv\<close>: it throws, finds nothing, or gives a frame and whether more frames follow.\<close>

datatype recv_result = RecvThrows | RecvNothing | RecvFrame bytes bool

text \<open>One \<^verbatim>\<open>zmq::poll\<close>: it throws, or says whether the wake-up socket and the inbound socket are
  readable, with what up to two receives on the latter would give.\<close>

datatype poll_result = PollThrows | Polled bool "(recv_result \<times> recv_result) option"

text \<open>The payload one iteration takes from the inbound socket.\<close>

fun frame_of :: "Pattern \<Rightarrow> recv_result \<times> recv_result \<Rightarrow> bytes option" where
  "frame_of RouterDealer (RecvFrame rid mr, r2) =
     (if \<not> mr then None else case r2 of RecvFrame bs m \<Rightarrow> Some bs | _ \<Rightarrow> None)"
| "frame_of RouterDealer (r1, r2) = None"
| "frame_of p (RecvFrame bs mr, r2) = Some bs"
| "frame_of p (r1, r2) = None"

text \<open>\<^verbatim>\<open>run_loop\<close> on what the polls give until the stop request; the result says how it left the loop.\<close>

datatype loop_end = StopRequested | PollFailed | Woken

fun run_loop ::
  "(('f, 'm, 'l, 'p, 'r, 'z) wired_scheme, 'l, 'p) leaf_ops \<Rightarrow> ('f, 'm, 'l, 'p, 'r, 'z) wired_host \<Rightarrow> text_codec \<Rightarrow>
     'l \<Rightarrow> 'r zmq_impl \<Rightarrow> poll_result list \<Rightarrow> ('f, 'm, 'l, 'p, 'r, 'z) wired_scheme \<Rightarrow>
     loop_end \<times> ('f, 'm, 'l, 'p, 'r, 'z) wired_scheme" where
  "run_loop L H X l i [] s = (StopRequested, s)"
| "run_loop L H X l i (PollThrows # ps) s = (PollFailed, s)"
| "run_loop L H X l i (Polled wake inb # ps) s =
     (if wake then (Woken, s)
      else case inb of
        None \<Rightarrow> run_loop L H X l i ps s
      | Some rs \<Rightarrow>
          (case frame_of (pattern (zmq_cfg i)) rs of
             None \<Rightarrow> run_loop L H X l i ps s
           | Some bs \<Rightarrow> run_loop L H X l i ps (zmq_deliver_bytes L H X l i bs s)))"

section \<open>Specification of the sockets\<close>

text \<open>Which socket each direction has, and where it is bound or connected.\<close>

definition outbound_leg :: "zmq_config \<Rightarrow> (socket_type \<times> Role \<times> string) option" where
  "outbound_leg c =
     (case pattern c of
        PubSub \<Rightarrow> if pub_endpoint c = [] then None else Some (SockPub, pub_role c, pub_endpoint c)
      | PushPull \<Rightarrow> if push_endpoint c = [] then None else Some (SockPush, push_role c, push_endpoint c)
      | RouterDealer \<Rightarrow> Some (SockDealer, endpoint_role c, endpoint c))"

definition inbound_leg :: "zmq_config \<Rightarrow> (socket_type \<times> Role \<times> string) option" where
  "inbound_leg c =
     (case pattern c of
        PubSub \<Rightarrow> if sub_endpoint c = [] then None else Some (SockSub, sub_role c, sub_endpoint c)
      | PushPull \<Rightarrow> if pull_endpoint c = [] then None else Some (SockPull, pull_role c, pull_endpoint c)
      | RouterDealer \<Rightarrow> Some (SockRouter, other_role (endpoint_role c), endpoint c))"

definition leg_of :: "zmq_socket \<Rightarrow> (socket_type \<times> Role \<times> string) option" where
  "leg_of x = (case sock_at x of [(r, ep)] \<Rightarrow> Some (sock_type x, r, ep) | _ \<Rightarrow> None)"

text \<open>The calls an attach makes when nothing throws.\<close>

definition all_calls :: "bool \<Rightarrow> zmq_config \<Rightarrow> zmq_call list" where
  "all_calls cb c = open_calls cb c @ (if inbound_leg c = None then [] else pair_calls)"

text \<open>Some direction of the pattern has an endpoint to bind or connect to.\<close>

definition has_endpoint :: "zmq_config \<Rightarrow> bool" where
  "has_endpoint c = list_ex (\<lambda>leg. case leg of None \<Rightarrow> False | Some (t, r, ep) \<Rightarrow> ep \<noteq> []) [outbound_leg c, inbound_leg c]"

text \<open>
  The frames the worker hands to the decoder: the only frame of a message, or the one after the
  sender's identity, unless it is empty.
\<close>

definition payload_frames :: "Pattern \<Rightarrow> recv_result \<times> recv_result \<Rightarrow> bytes list" where
  "payload_frames p rs =
     (case rs of
        (RecvFrame bs follows, r2) \<Rightarrow>
          if p \<noteq> RouterDealer then [bs]
          else (case r2 of RecvFrame body m \<Rightarrow> if follows then [body] else [] | _ \<Rightarrow> [])
      | _ \<Rightarrow> [])"

fun delivered_frames :: "Pattern \<Rightarrow> poll_result list \<Rightarrow> bytes list" where
  "delivered_frames p [] = []"
| "delivered_frames p (PollThrows # ps) = []"
| "delivered_frames p (Polled wake inb # ps) =
     (if wake then []
      else filter (\<lambda>bs. bs \<noteq> []) (case inb of None \<Rightarrow> [] | Some rs \<Rightarrow> payload_frames p rs) @ delivered_frames p ps)"

section \<open>Lemmas\<close>

lemma zmq_shutdown_eq:
  "zmq_shutdown i = i\<lparr>worker := False, zsocks := (\<lambda>k. None), zmq_context := False, zmq_connected := False\<rparr>"
proof -
  have "(f(Inbound := None, Outbound := None, ShutdownPub := None, ShutdownSub := None)) = (\<lambda>k. None)"
    for f :: "slot \<Rightarrow> zmq_socket option"
  proof (rule ext)
    show "(f(Inbound := None, Outbound := None, ShutdownPub := None, ShutdownSub := None)) k = None" for k
      by (cases k) simp_all
  qed
  then show ?thesis by (cases i) (auto simp: zmq_shutdown_def Let_def)
qed

lemma zmq_apply_frame [simp]:
  "zmq_cfg (zmq_apply c i) = zmq_cfg i" "sink_set (zmq_apply c i) = sink_set i" "worker (zmq_apply c i) = worker i"
  by (cases c; simp)+

lemma zmq_run_frame:
  "zmq_run f cs i = (r, i') \<Longrightarrow> zmq_cfg i' = zmq_cfg i \<and> sink_set i' = sink_set i \<and> worker i' = worker i"
  by (induction cs arbitrary: i) (auto split: option.splits)

lemma zmq_run_ok: "(\<And>c. c \<in> set cs \<Longrightarrow> f c = None) \<Longrightarrow> zmq_run f cs i = (None, fold zmq_apply cs i)"
  by (induction cs arbitrary: i) auto

lemma zmq_run_fail: "c \<in> set cs \<Longrightarrow> f c \<noteq> None \<Longrightarrow>
  \<exists>e i'. zmq_run f cs i = (Some e, i') \<and> (\<exists>d \<in> set cs. f d = Some e)"
  by (induction cs arbitrary: i) (fastforce split: option.splits)+

lemma zmq_apply_opts:
  "zsocks i k = Some x \<Longrightarrow> fold zmq_apply (map (SetOpt k) os) i =
     i\<lparr>zsocks := (zsocks i)(k \<mapsto> x\<lparr>sock_opts := sock_opts x @ os\<rparr>)\<rparr>"
proof (induction os arbitrary: i x)
  case (Cons opt os)
  then show ?case by (subst list.map, subst fold_simps) (simp add: Cons.IH fun_upd_def cong: if_cong)
qed (auto simp: fun_upd_idem)

lemma bind_or_connect_eq [simp]: "bind_or_connect k ep r = OpenAt k r ep"
  by (cases r) (simp_all add: bind_or_connect_def)

lemma zmq_open_calls:
  assumes "zsocks i = (\<lambda>k. None)"
  shows "let i' = fold zmq_apply (open_calls cb c) i in
    zsocks i' Outbound = map_option (\<lambda>(t, r, ep). \<lparr>sock_type = t, sock_opts = socket_opts cb c True, sock_at = [(r, ep)]\<rparr>)
      (outbound_leg c) \<and>
    zsocks i' Inbound = map_option (\<lambda>(t, r, ep). \<lparr>sock_type = t, sock_opts = socket_opts cb c False @
      (if pattern c = PubSub then [OptSubscribe (subscription_prefix c)] else []), sock_at = [(r, ep)]\<rparr>) (inbound_leg c) \<and>
    zsocks i' ShutdownPub = None \<and> zsocks i' ShutdownSub = None \<and> zmq_context i'"
  using assms
  by (cases "pattern c")
    (auto simp: open_calls_def outbound_leg_def inbound_leg_def apply_socket_opts_def zmq_apply_opts Let_def)

lemma zmq_cfg_install [simp]:
  "zmq_cfg (adapter_install i) = zmq_cfg i" "zsocks (adapter_install i) = zsocks i" "worker (adapter_install i) = worker i"
  by (simp_all add: adapter_install_def Let_def)

lemma zmq_body_frame:
  assumes "zmq_connect_body cb f i = (r, i')"
  shows "zmq_cfg i' = zmq_cfg i \<and> sink_set i' = sink_set i \<and> (r = None \<longrightarrow> zmq_connected i')"
  using assms
  by (auto simp: zmq_connect_body_def split: prod.splits option.splits if_splits dest!: zmq_run_frame)

text \<open>Every exception of the library is a \<^verbatim>\<open>std::exception\<close>: \<^verbatim>\<open>zmq::error_t\<close> or \<^verbatim>\<open>std::bad_alloc\<close>.\<close>

definition zmq_std :: "bool \<times> (zmq_call \<Rightarrow> exn option) \<Rightarrow> bool" where
  "zmq_std env \<longleftrightarrow> (\<forall>c e. snd env c = Some e \<longrightarrow> is_a (exn_kind e) StdException)"

lemma zmq_run_std: "zmq_run f cs i = (Some e, i') \<Longrightarrow> \<exists>c. f c = Some e"
  by (induction cs arbitrary: i) (auto split: option.splits)

lemma zmq_body_std:
  assumes "zmq_std (cb, f)" and "zmq_connect_body cb f i = (Some e, i')"
  shows "is_a (exn_kind e) StdException"
  using assms
  by (auto simp: zmq_connect_body_def zmq_std_def split: prod.splits option.splits if_splits dest!: zmq_run_std)

lemma zmq_attach_ok:
  assumes "zmq_attach env i = (None, i')"
  shows "zmq_connected i' \<and> sink_set i' \<and> zmq_cfg i' = zmq_cfg i"
proof -
  obtain j where b: "zmq_connect_body (fst env) (snd env) (adapter_install i) = (None, j)"
    and "i' = (if zsocks j Inbound \<noteq> None then j\<lparr>worker := True\<rparr> else j)"
    using assms by (auto simp: zmq_attach_def split: prod.splits option.splits if_splits)
  then show ?thesis using zmq_body_frame [OF b] by simp
qed

lemma zmq_attach_fail:
  assumes "zmq_std env" and "zmq_attach env i = (Some e, i')"
  shows "exn_kind e = ZmqError \<and> (\<exists>j. i' = zmq_shutdown j \<and> zmq_cfg j = zmq_cfg i)"
proof -
  obtain e0 j where b: "zmq_connect_body (fst env) (snd env) (adapter_install i) = (Some e0, j)"
    using assms(2) by (auto simp: zmq_attach_def split: prod.splits option.splits if_splits)
  then show ?thesis
    using assms zmq_body_std [of "fst env" "snd env", OF _ b] zmq_body_frame [OF b] by (auto simp: zmq_attach_def)
qed

interpretation zmq: adapter_lifecycle zmq_attach zmq_detach sink_set zmq_connected zmq_std
proof unfold_locales
  show "zmq_attach x i = (None, i') \<Longrightarrow> sink_set i'" "zmq_attach x i = (None, i') \<Longrightarrow> zmq_connected i'" for x i i'
    by (simp_all add: zmq_attach_ok)
  show "\<not> zmq_connected i'" if "zmq_std x" "zmq_attach x i = (Some e, i')" for x i e i'
    using zmq_attach_fail [OF that] by (auto simp: zmq_shutdown_eq)
qed (simp_all add: zmq_detach_def adapter_uninstall_def zmq_shutdown_eq)

lemma zmq_detach_sockets [simp]: "zsocks (zmq_detach i) = (\<lambda>k. None)" "\<not> worker (zmq_detach i)"
  "zmq_cfg (zmq_detach i) = zmq_cfg i"
  by (simp_all add: zmq_detach_def adapter_uninstall_def zmq_shutdown_eq)

lemma zmq_cycles:
  assumes "\<And>x. x \<in> set envs \<Longrightarrow> zmq_std x" and "zsocks i = (\<lambda>k. None)"
  shows "zsocks (fold (\<lambda>x i. zmq_detach (snd (zmq_attach x i))) envs i) = (\<lambda>k. None) \<and>
    zmq_cfg (fold (\<lambda>x i. zmq_detach (snd (zmq_attach x i))) envs i) = zmq_cfg i"
  using assms
proof (induction envs arbitrary: i)
  case (Cons x envs)
  have "zmq_cfg (snd (zmq_attach x i)) = zmq_cfg i"
    using zmq_attach_ok [of x i] zmq_attach_fail [of x i] Cons.prems(1) [of x]
    by (cases "zmq_attach x i"; cases "fst (zmq_attach x i)") (auto simp: zmq_shutdown_eq)
  then show ?case using Cons.IH [of "zmq_detach (snd (zmq_attach x i))"] Cons.prems(1) by simp
qed simp

text \<open>The body on an adapter without sockets succeeds exactly when none of its calls throws.\<close>

lemma zmq_body_runs:
  assumes "zsocks i = (\<lambda>k. None)" and "\<And>c. c \<in> set (all_calls cb (zmq_cfg i)) \<Longrightarrow> f c = None"
  shows "zmq_connect_body cb f i = (None, (fold zmq_apply (all_calls cb (zmq_cfg i)) i)\<lparr>zmq_connected := True\<rparr>)"
proof -
  let ?j = "fold zmq_apply (open_calls cb (zmq_cfg i)) i"
  have j: "zsocks ?j Inbound = None \<longleftrightarrow> inbound_leg (zmq_cfg i) = None"
    using zmq_open_calls [OF assms(1), of cb "zmq_cfg i"] by (simp add: Let_def)
  have "zmq_run f (open_calls cb (zmq_cfg i)) i = (None, ?j)"
    using assms(2) by (intro zmq_run_ok) (simp add: all_calls_def)
  moreover have "inbound_leg (zmq_cfg i) \<noteq> None \<Longrightarrow> zmq_run f pair_calls ?j = (None, fold zmq_apply pair_calls ?j)"
    using assms(2) by (intro zmq_run_ok) (auto simp: all_calls_def)
  ultimately show ?thesis using j by (auto simp: zmq_connect_body_def all_calls_def)
qed

lemma zmq_body_fails:
  assumes "zsocks i = (\<lambda>k. None)" and "c \<in> set (all_calls cb (zmq_cfg i))" and "f c \<noteq> None"
  shows "\<exists>e j. zmq_connect_body cb f i = (Some e, j)"
proof (cases "\<forall>d \<in> set (open_calls cb (zmq_cfg i)). f d = None")
  case True
  let ?j = "fold zmq_apply (open_calls cb (zmq_cfg i)) i"
  have c: "c \<in> set pair_calls" and l: "inbound_leg (zmq_cfg i) \<noteq> None"
    using True assms(2,3) by (auto simp: all_calls_def split: if_splits)
  have "zsocks ?j Inbound \<noteq> None"
    using zmq_open_calls [OF assms(1), of cb "zmq_cfg i"] l by (simp add: Let_def)
  then show ?thesis
    using True zmq_run_ok [of "open_calls cb (zmq_cfg i)" f i] zmq_run_fail [of c pair_calls f ?j] c assms(3)
    by (auto simp: zmq_connect_body_def)
next
  case False
  then obtain d where "d \<in> set (open_calls cb (zmq_cfg i))" "f d \<noteq> None" by blast
  then show ?thesis
    using zmq_run_fail [of d "open_calls cb (zmq_cfg i)" f i] by (auto simp: zmq_connect_body_def)
qed

lemma payload_frames_eq: "payload_frames p rs = (case frame_of p rs of None \<Rightarrow> [] | Some bs \<Rightarrow> [bs])"
  by (cases "(p, rs)" rule: frame_of.cases) (auto simp: payload_frames_def split: recv_result.splits)

lemma zmq_new_outcome:
  "case zmq_new cb c reg of
     Inl e \<Rightarrow> exn_kind e = ConfigError \<and> \<not> (has_endpoint c \<and> (cb \<or> curve c = None))
   | Inr i \<Rightarrow> has_endpoint c \<and> (cb \<or> curve c = None)"
  by (auto simp: zmq_new_def validate_def has_endpoint_def outbound_leg_def inbound_leg_def
      split: Pattern.splits option.splits if_splits)

lemma run_loop_frames:
  "snd (run_loop L H X l i ps s) =
     fold (\<lambda>bs. deliver_payload L H X ''zmq'' l i bs) (delivered_frames (pattern (zmq_cfg i)) ps) s"
  by (induction L H X l i ps s rule: run_loop.induct) (auto simp: zmq_deliver_bytes_def payload_frames_eq split: option.splits)

lemma leg_of_map [simp]:
  "Option.bind (map_option (\<lambda>(t, r, ep). \<lparr>sock_type = t, sock_opts = os, sock_at = [(r, ep)]\<rparr>) leg) leg_of = leg"
  by (cases leg) (auto simp: leg_of_def)

lemma zmq_attach_runs:
  assumes "zsocks i = (\<lambda>k. None)" and "\<not> worker i" and "\<And>c. c \<in> set (all_calls cb (zmq_cfg i)) \<Longrightarrow> f c = None"
  shows "\<exists>i'. zmq_attach (cb, f) i = (None, i') \<and> worker i' = (inbound_leg (zmq_cfg i) \<noteq> None) \<and>
    Option.bind (zsocks i' Outbound) leg_of = outbound_leg (zmq_cfg i) \<and>
    Option.bind (zsocks i' Inbound) leg_of = inbound_leg (zmq_cfg i) \<and>
    (zsocks i' Outbound = None \<longleftrightarrow> outbound_leg (zmq_cfg i) = None)"
proof -
  let ?j = "fold zmq_apply (open_calls cb (zmq_cfg i)) (adapter_install i)"
  let ?k = "fold zmq_apply (all_calls cb (zmq_cfg i)) (adapter_install i)"
  have b: "zmq_connect_body cb f (adapter_install i) = (None, ?k\<lparr>zmq_connected := True\<rparr>)"
    using zmq_body_runs [of "adapter_install i" cb f] assms by simp
  have pair: "zsocks (fold zmq_apply pair_calls j) k = zsocks j k" if "k = Outbound \<or> k = Inbound" for k and j :: "'a zmq_impl"
    using that by (auto simp: pair_calls_def)
  have k: "zsocks ?k k = zsocks ?j k" if "k = Outbound \<or> k = Inbound" for k
    using pair [OF that] by (simp add: all_calls_def)
  have w: "\<not> worker (fold zmq_apply cs (adapter_install i))" for cs
    using assms(2) fold_keeps_field [of worker zmq_apply cs "adapter_install i"] by simp
  show ?thesis
    using b w k zmq_open_calls [of "adapter_install i" cb "zmq_cfg i"] assms(1)
    by (auto simp: zmq_attach_def Let_def)
qed

section \<open>Properties\<close>



end
