(* ===== verification/Mqtt.thy ===== *)
theory Mqtt
  imports Adapter
begin

text \<open>
  \<^verbatim>\<open>transports/mqtt/\<close>: the MQTT adapter. paho's asynchronous client is a parameter record that says how
  each call comes out; whether the client is connected after the bounded wait is one of its fields,
  since a timed-out \<^verbatim>\<open>wait_for\<close> only returns \<^verbatim>\<open>false\<close>, which the code discards.
\<close>

section \<open>Configuration\<close>

record mqtt_config =
  mqtt_url :: string
  client_id :: string
  mqtt_username :: "string option"
  mqtt_password :: "string option"
  mqtt_tls :: "tls_config option"
  qos :: int
  clean_session :: bool
  keep_alive :: int
  mqtt_connect_timeout :: int
  topic :: string
  mqtt_format :: Format

definition mqtt_config_default :: "string \<Rightarrow> mqtt_config" where
  "mqtt_config_default u = \<lparr>mqtt_url = u, client_id = [], mqtt_username = None, mqtt_password = None, mqtt_tls = None,
     qos = 1, clean_session = True, keep_alive = 60, mqtt_connect_timeout = 10, topic = ''conduit/envelope'',
     mqtt_format = Cbor\<rparr>"

record ssl_options =
  trust_store :: string
  key_store :: "string option"
  private_key :: "string option"
  ssl_verify :: bool

record connect_options =
  co_clean_session :: bool
  co_keep_alive :: int
  co_user_name :: "string option"
  co_password :: "string option"
  co_ssl :: "ssl_options option"

text \<open>
  The client: constructing it; \<^verbatim>\<open>connect\<close> and its wait, with the milliseconds waited; whether it is connected
  afterwards; \<^verbatim>\<open>subscribe\<close> and its wait; \<^verbatim>\<open>publish\<close>; waiting for a publish.
\<close>

record mqtt_lib =
  client_new :: "string \<Rightarrow> string \<Rightarrow> exn option"
  client_connect :: "connect_options \<Rightarrow> int \<Rightarrow> exn option"
  up_after_connect :: bool
  client_subscribe :: "string \<Rightarrow> int \<Rightarrow> exn option"
  client_publish :: "string \<Rightarrow> bytes \<Rightarrow> int \<Rightarrow> exn option"
  publish_wait :: "exn option"

section \<open>State and operations\<close>

record 'r mqtt_impl = "'r adapter" +
  mqtt_cfg :: mqtt_config
  client_up :: bool
  subscribed :: "(string \<times> int) option"

definition mqtt_new :: "mqtt_lib \<Rightarrow> string \<Rightarrow> mqtt_config \<Rightarrow> 'r EventRegistry option \<Rightarrow> 'r mqtt_impl throws" where
  "mqtt_new M fresh cfg reg =
     (if topic cfg = []
      then Inl (Exn ConfigError ''conduit::mqtt::Transport: Config::topic must be non-empty'')
      else let cfg = (if client_id cfg = [] then cfg\<lparr>client_id := ''conduit-'' @ fresh\<rparr> else cfg)
        in case client_new M (mqtt_url cfg) (client_id cfg) of
          Some e \<Rightarrow> Inl e
        | None \<Rightarrow> Inr \<lparr>adapter_format = mqtt_format cfg, adapter_registry = map_option OwnRegistry reg,
            sink_set = False, error_sink_set = False, mqtt_cfg = cfg, client_up = False, subscribed = None\<rparr>)"

definition mqtt_options :: "mqtt_config \<Rightarrow> connect_options" where
  "mqtt_options c =
     (let opts = \<lparr>co_clean_session = clean_session c, co_keep_alive = sint (word_of_int (keep_alive c) :: 32 word),
            co_user_name = None, co_password = None, co_ssl = None\<rparr>;
          opts = (case mqtt_username c of None \<Rightarrow> opts | Some u \<Rightarrow> opts\<lparr>co_user_name := Some u\<rparr>);
          opts = (case mqtt_password c of None \<Rightarrow> opts | Some p \<Rightarrow> opts\<lparr>co_password := Some p\<rparr>)
      in case mqtt_tls c of
           None \<Rightarrow> opts
         | Some t \<Rightarrow>
             (let ssl = \<lparr>trust_store = ca_file t, key_store = None, private_key = None, ssl_verify = True\<rparr>;
                  ssl = (case cert_file t of None \<Rightarrow> ssl | Some f \<Rightarrow> ssl\<lparr>key_store := Some f\<rparr>);
                  ssl = (case key_file t of None \<Rightarrow> ssl | Some f \<Rightarrow> ssl\<lparr>private_key := Some f\<rparr>);
                  ssl = ssl\<lparr>ssl_verify := verify_peer t\<rparr>
              in opts\<lparr>co_ssl := Some ssl\<rparr>))"

definition connect_blocking :: "mqtt_lib \<Rightarrow> 'r mqtt_impl \<Rightarrow> exn option \<times> 'r mqtt_impl" where
  "connect_blocking M i =
     (client_connect M (mqtt_options (mqtt_cfg i)) (mqtt_connect_timeout (mqtt_cfg i) * 1000),
      i\<lparr>client_up := up_after_connect M\<rparr>)"

text \<open>\<^verbatim>\<open>disconnect_blocking\<close>: exceptions are swallowed; the flag is whether the client stays connected when the call fails or times out.\<close>

definition disconnect_blocking :: "bool \<Rightarrow> 'r mqtt_impl \<Rightarrow> 'r mqtt_impl" where
  "disconnect_blocking stays i = (if client_up i then i\<lparr>client_up := stays\<rparr> else i)"

definition mqtt_is_connected :: "'r mqtt_impl \<Rightarrow> bool" where
  "mqtt_is_connected i = client_up i"

definition mqtt_attach :: "mqtt_lib \<Rightarrow> 'r mqtt_impl \<Rightarrow> exn option \<times> 'r mqtt_impl" where
  "mqtt_attach M i =
     (let (r, i) = connect_blocking M (adapter_install i)
      in case r of
        Some e \<Rightarrow>
          (Some (if is_a (exn_kind e) StdException
             then Exn MqttError (''conduit::mqtt::Transport::attach: connect failed: '' @ exn_what e) else e), i)
      | None \<Rightarrow>
          if client_up i
          then (case client_subscribe M (topic (mqtt_cfg i)) (qos (mqtt_cfg i)) of
             Some e \<Rightarrow>
               (Some (if is_a (exn_kind e) StdException
                  then Exn MqttError (''conduit::mqtt::Transport::attach: topic subscribe failed: '' @ exn_what e) else e), i)
           | None \<Rightarrow> (None, i\<lparr>subscribed := Some (topic (mqtt_cfg i), qos (mqtt_cfg i))\<rparr>))
          else (None, i))"

definition mqtt_detach :: "bool \<Rightarrow> 'r mqtt_impl \<Rightarrow> 'r mqtt_impl" where
  "mqtt_detach stays i = adapter_uninstall (disconnect_blocking stays i)"

text \<open>The destructor.\<close>

definition mqtt_destroy :: "bool \<Rightarrow> 'r mqtt_impl \<Rightarrow> 'r mqtt_impl" where
  "mqtt_destroy stays i = disconnect_blocking stays i"

text \<open>The broker-visible effects of a dispatch: the message, never retained, and whether the code waits for its delivery.\<close>

record mqtt_message =
  msg_topic :: string
  msg_payload :: bytes
  msg_qos :: int
  msg_retained :: bool
  msg_waited :: bool

definition mqtt_dispatch ::
  "'r parcel_lib \<Rightarrow> text_codec \<Rightarrow> mqtt_lib \<Rightarrow> 'r mqtt_impl \<Rightarrow> EnvelopeCore option \<Rightarrow> exn option \<times> mqtt_message option" where
  "mqtt_dispatch P X M i v =
     (case encode_payload P X (mqtt_format (mqtt_cfg i)) v of
        Inl e \<Rightarrow> (Some e, None)
      | Inr payload \<Rightarrow>
          (case client_publish M (topic (mqtt_cfg i)) payload (qos (mqtt_cfg i)) of
             Some e \<Rightarrow> (Some e, None)
           | None \<Rightarrow>
               (if wants_ack v then publish_wait M else None,
                Some \<lparr>msg_topic = topic (mqtt_cfg i), msg_payload = payload, msg_qos = qos (mqtt_cfg i),
                  msg_retained = False, msg_waited = wants_ack v\<rparr>)))"

text \<open>\<^verbatim>\<open>message_arrived\<close>: the broker calls it for messages on the subscribed topic.\<close>

definition message_arrived ::
  "(('f, 'm, 'l, 'p, 'r, 'z) wired_scheme, 'l, 'p) leaf_ops \<Rightarrow> ('f, 'm, 'l, 'p, 'r, 'z) wired_host \<Rightarrow> text_codec \<Rightarrow>
     'l \<Rightarrow> 'r mqtt_impl \<Rightarrow> bytes \<Rightarrow> ('f, 'm, 'l, 'p, 'r, 'z) wired_scheme \<Rightarrow>
     ('f, 'm, 'l, 'p, 'r, 'z) wired_scheme" where
  "message_arrived L H X l i msg s = deliver_payload L H X ''mqtt'' l i msg s"

text \<open>A broker that accepts everything, and one that does not answer within the timeout.\<close>

definition mqtt_up :: mqtt_lib where
  "mqtt_up = \<lparr>client_new = (\<lambda>u c. None), client_connect = (\<lambda>c t. None), up_after_connect = True,
     client_subscribe = (\<lambda>t q. None), client_publish = (\<lambda>t p q. None), publish_wait = None\<rparr>"

definition mqtt_demo :: "descriptor list mqtt_impl" where
  "mqtt_demo = \<lparr>adapter_format = Cbor, adapter_registry = None, sink_set = False, error_sink_set = False,
     mqtt_cfg = mqtt_config_default ''tcp://h:1883'', client_up = False, subscribed = None\<rparr>"

section \<open>Lemmas\<close>

lemma mqtt_install_simps [simp]:
  "mqtt_cfg (adapter_install i) = mqtt_cfg i" "subscribed (adapter_install i) = subscribed i"
  by (simp_all add: adapter_install_def Let_def)

lemma mqtt_detach_simps [simp]:
  "\<not> sink_set (mqtt_detach b i)" "message_arrived L H X l (mqtt_detach b i) msg s = s"
  by (simp_all add: mqtt_detach_def message_arrived_def) (simp add: adapter_uninstall_def)

lemma mqtt_dispatched:
  assumes "mqtt_dispatch P X M i v = (r, Some m)"
  shows "encode_payload P X (mqtt_format (mqtt_cfg i)) v = Inr (msg_payload m) \<and> msg_topic m = topic (mqtt_cfg i) \<and>
    msg_qos m = qos (mqtt_cfg i) \<and> \<not> msg_retained m \<and> msg_waited m = wants_ack v"
  using assms by (auto simp: mqtt_dispatch_def split: sum.splits option.splits)

interpretation mqtt: adapter_sink mqtt_attach "mqtt_detach stays" sink_set for stays
proof unfold_locales
  show "sink_set i'" if "mqtt_attach M i = (None, i')" for M i i'
    using that by (auto simp: mqtt_attach_def connect_blocking_def Let_def split: if_splits option.splits prod.splits)
qed (simp add: mqtt_detach_def adapter_uninstall_def)

section \<open>Properties\<close>



end
