(* ===== verification/Amqp.thy ===== *)
theory Amqp
  imports Adapter
begin

text \<open>
  \<^verbatim>\<open>transports/amqp/\<close>: the AMQP adapter. The posted-task queue and the IO thread that drains it, the
  publisher confirms with their promises and 64-bit delivery tags, the connection callbacks, and the asynchronous
  declaration of the topology. AMQP-CPP is a parameter: how its \<^verbatim>\<open>publish\<close> comes out, indexed by the
  delivery tag the code has for the call, and the callbacks it makes. Promises are numbers into a table of results; one
  that lives on the stack of its caller is dead once that caller has returned.
\<close>

section \<open>Configuration\<close>

record amqp_config =
  amqp_url :: string
  connection_name :: string
  amqp_tls :: "tls_config option"
  exchange :: string
  exchange_type :: string
  exchange_durable :: bool
  exchange_auto_delete :: bool
  routing_key :: string
  amqp_queue :: string
  queue_durable :: bool
  queue_exclusive :: bool
  queue_auto_delete :: bool
  persistent :: bool
  publisher_confirms :: bool
  amqp_connect_timeout :: int
  heartbeat :: int
  amqp_format :: Format

definition amqp_config_default :: "string \<Rightarrow> amqp_config" where
  "amqp_config_default u = \<lparr>amqp_url = u, connection_name = [], amqp_tls = None, exchange = ''conduit'',
     exchange_type = ''topic'', exchange_durable = True, exchange_auto_delete = False,
     routing_key = ''conduit.envelope'', amqp_queue = [], queue_durable = False, queue_exclusive = True,
     queue_auto_delete = True, persistent = False, publisher_confirms = False, amqp_connect_timeout = 10,
     heartbeat = 30, amqp_format = Cbor\<rparr>"

section \<open>State\<close>

record amqp_message =
  am_exchange :: string
  am_routing_key :: string
  am_body :: bytes
  am_content_type :: string
  am_persistent :: bool

text \<open>The lambdas handed to \<^verbatim>\<open>post\<close>; a promise is named by its number.\<close>

datatype amqp_task = PublishTask bytes string "nat option" | FlushTask nat | CloseTask nat

datatype publish_outcome = Accepted | Refused | Raised

datatype exchange_kind = ExTopic | ExDirect | ExFanout | ExHeaders

datatype topology_call =
    DeclareExchange string exchange_kind bool bool
  | DeclareQueue string bool bool bool
  | BindQueue string string string
  | Consume string
  | ConfirmSelect

record 'r amqp_impl = "'r adapter" +
  amqp_cfg :: amqp_config
  amqp_fd :: int
  amqp_flags :: nat
  io_thread :: bool
  task_queue :: "amqp_task list"
  connection :: bool
  channel :: bool
  bound_queue :: string
  amqp_ready :: bool
  amqp_connected :: bool
  error_seen :: bool
  last_error :: string
  confirms_enabled :: bool
  next_delivery_tag :: "64 word"
  pending_confirms :: "(64 word \<times> nat) list"
  \<comment> \<open>the promises of the program, which of them still exist, and what the broker has been given\<close>
  next_promise :: nat
  promises :: "nat \<Rightarrow> bool option"
  dead_promises :: "nat list"
  dangling_writes :: "nat list"
  wire_log :: "(amqp_message \<times> nat option) list"
  topology :: "topology_call list"

definition amqp_new ::
  "bool \<Rightarrow> bool \<Rightarrow> string \<Rightarrow> amqp_config \<Rightarrow> 'r EventRegistry option \<Rightarrow> 'r amqp_impl throws" where
  "amqp_new tls_built pipe_ok fresh cfg reg =
     (if routing_key cfg = []
      then Inl (Exn ConfigError ''conduit::amqp::Transport: Config::routing_key must be non-empty'')
      else if exchange_type cfg \<noteq> ''topic'' \<and> exchange_type cfg \<noteq> ''direct'' \<and>
        exchange_type cfg \<noteq> ''fanout'' \<and> exchange_type cfg \<noteq> ''headers''
      then Inl (Exn ConfigError (''conduit::amqp::Transport: Config::exchange_type must be '' @
        quoted ''topic'' @ '', '' @ quoted ''direct'' @ '', '' @ quoted ''fanout'' @ '', or '' @ quoted ''headers''))
      else let cfg = (if connection_name cfg = [] then cfg\<lparr>connection_name := ''conduit-'' @ fresh\<rparr> else cfg)
      in if \<not> tls_built \<and> (amqp_tls cfg \<noteq> None \<or> starts_with (amqp_url cfg) ''amqps://'')
      then Inl (Exn TlsNotSupportedError (''conduit::amqp::Transport: amqps:// URLs require '' @
        ''CONDUIT_TRANSPORT_AMQP_TLS=ON at build time''))
      else if \<not> pipe_ok then Inl (Exn AmqpError ''conduit::amqp::Transport: pipe() failed'')
      else Inr \<lparr>adapter_format = amqp_format cfg, adapter_registry = map_option OwnRegistry reg,
        sink_set = False, error_sink_set = False, amqp_cfg = cfg, amqp_fd = -1, amqp_flags = 0, io_thread = False,
        task_queue = [], connection = False, channel = False, bound_queue = [], amqp_ready = False,
        amqp_connected = False, error_seen = False, last_error = [], confirms_enabled = publisher_confirms cfg,
        next_delivery_tag = 1, pending_confirms = [], next_promise = 0, promises = (\<lambda>p. None),
        dead_promises = [], dangling_writes = [], wire_log = [], topology = []\<rparr>)"

section \<open>Promises and confirms\<close>

text \<open>\<^verbatim>\<open>set_value\<close> in its \<^verbatim>\<open>try\<close>: the first value stays. Writing through a dead reference is recorded.\<close>

definition set_value :: "nat \<Rightarrow> bool \<Rightarrow> 'r amqp_impl \<Rightarrow> 'r amqp_impl" where
  "set_value p b i =
     (if p \<in> set (dead_promises i) then i\<lparr>dangling_writes := dangling_writes i @ [p]\<rparr>
      else if promises i p = None then i\<lparr>promises := (promises i)(p \<mapsto> b)\<rparr> else i)"

definition new_promise :: "'r amqp_impl \<Rightarrow> nat \<times> 'r amqp_impl" where
  "new_promise i = (next_promise i, i\<lparr>next_promise := next_promise i + 1\<rparr>)"

text \<open>\<^verbatim>\<open>pending_confirms\<close> is a \<^verbatim>\<open>std::map\<close>: its entries in the order of the tags, each tag once.\<close>

definition emplace :: "64 word \<Rightarrow> nat \<Rightarrow> (64 word \<times> nat) list \<Rightarrow> (64 word \<times> nat) list" where
  "emplace t p es = (if map_of es t = None then insort_key fst (t, p) es else es)"

definition erase_tag :: "64 word \<Rightarrow> (64 word \<times> nat) list \<Rightarrow> (64 word \<times> nat) list" where
  "erase_tag t es = filter (\<lambda>e. fst e \<noteq> t) es"

text \<open>The loop over the entries up to a tag: the entries kept, and the writes made.\<close>

fun resolve_upto :: "64 word \<Rightarrow> bool \<Rightarrow> (64 word \<times> nat) list \<Rightarrow> 'r amqp_impl \<Rightarrow> (64 word \<times> nat) list \<times> 'r amqp_impl" where
  "resolve_upto tag ok [] i = ([], i)"
| "resolve_upto tag ok ((t, p) # es) i =
     (if t \<le> tag then resolve_upto tag ok es (set_value p ok i)
      else let (kept, i) = resolve_upto tag ok es i in ((t, p) # kept, i))"

definition resolve_confirm :: "64 word \<Rightarrow> bool \<Rightarrow> bool \<Rightarrow> 'r amqp_impl \<Rightarrow> 'r amqp_impl" where
  "resolve_confirm delivery_tag multiple ok i =
     (if multiple
      then let (kept, i) = resolve_upto delivery_tag ok (pending_confirms i) i in i\<lparr>pending_confirms := kept\<rparr>
      else case map_of (pending_confirms i) delivery_tag of
        None \<Rightarrow> i
      | Some p \<Rightarrow>
          let i = set_value p ok i in i\<lparr>pending_confirms := erase_tag delivery_tag (pending_confirms i)\<rparr>)"

section \<open>Connection callbacks\<close>

definition monitor :: "int \<Rightarrow> nat \<Rightarrow> 'r amqp_impl \<Rightarrow> 'r amqp_impl" where
  "monitor fd flags i = i\<lparr>amqp_fd := fd, amqp_flags := flags\<rparr>"

definition onReady :: "'r amqp_impl \<Rightarrow> 'r amqp_impl" where
  "onReady i = i\<lparr>amqp_ready := True\<rparr>"

definition onConnected :: "'r amqp_impl \<Rightarrow> 'r amqp_impl" where
  "onConnected i = i\<lparr>amqp_connected := True\<rparr>"

definition onError :: "string option \<Rightarrow> 'r amqp_impl \<Rightarrow> 'r amqp_impl" where
  "onError message i =
     (let i = i\<lparr>error_seen := True\<rparr>;
          i = (case message of None \<Rightarrow> i | Some m \<Rightarrow> i\<lparr>last_error := m\<rparr>);
          i = i\<lparr>amqp_ready := True\<rparr>;
          i = i\<lparr>amqp_connected := False\<rparr>;
          i = fold (\<lambda>e. set_value (snd e) False) (pending_confirms i) i
      in i\<lparr>pending_confirms := []\<rparr>)"

definition onClosed :: "'r amqp_impl \<Rightarrow> 'r amqp_impl" where
  "onClosed i = i\<lparr>amqp_connected := False\<rparr>"

definition onLost :: "'r amqp_impl \<Rightarrow> 'r amqp_impl" where
  "onLost i = i\<lparr>amqp_connected := False\<rparr>"

text \<open>\<^verbatim>\<open>onNegotiate\<close>: the configured heartbeat, cast to 16 bits, whatever the server proposes.\<close>

definition onNegotiate :: "16 word \<Rightarrow> 'r amqp_impl \<Rightarrow> 16 word" where
  "onNegotiate interval i = word_of_int (heartbeat (amqp_cfg i))"

datatype amqp_callback =
    CbMonitor int nat | CbReady | CbConnected | CbError "string option" | CbClosed | CbLost
  | CbConfirm "64 word" bool bool

fun callback :: "amqp_callback \<Rightarrow> 'r amqp_impl \<Rightarrow> 'r amqp_impl" where
  "callback (CbMonitor fd flags) i = monitor fd flags i"
| "callback CbReady i = onReady i"
| "callback CbConnected i = onConnected i"
| "callback (CbError m) i = onError m i"
| "callback CbClosed i = onClosed i"
| "callback CbLost i = onLost i"
| "callback (CbConfirm t m ok) i = resolve_confirm t m ok i"

section \<open>The task queue and the IO thread\<close>

definition post :: "amqp_task \<Rightarrow> 'r amqp_impl \<Rightarrow> 'r amqp_impl" where
  "post t i = i\<lparr>task_queue := task_queue i @ [t]\<rparr>"

text \<open>
  The publish task. Its promise, if any, moves into the map before the library is called, so that the
  \<^verbatim>\<open>catch\<close> finds an empty promise and its write has no effect.
\<close>

definition publish_task ::
  "(64 word \<Rightarrow> amqp_message \<Rightarrow> publish_outcome) \<Rightarrow> bytes \<Rightarrow> string \<Rightarrow> nat option \<Rightarrow> 'r amqp_impl \<Rightarrow> 'r amqp_impl" where
  "publish_task A body content_type ack_promise i =
     (if \<not> channel i then (case ack_promise of None \<Rightarrow> i | Some p \<Rightarrow> set_value p False i)
      else
        (let env = \<lparr>am_exchange = exchange (amqp_cfg i), am_routing_key = routing_key (amqp_cfg i), am_body = body,
               am_content_type = content_type, am_persistent = persistent (amqp_cfg i)\<rparr>;
             tag = next_delivery_tag i;
             i = i\<lparr>next_delivery_tag := tag + 1\<rparr>;
             i = (case ack_promise of None \<Rightarrow> i | Some p \<Rightarrow> i\<lparr>pending_confirms := emplace tag p (pending_confirms i)\<rparr>)
         in case A tag env of
              Accepted \<Rightarrow> i\<lparr>wire_log := wire_log i @ [(env, ack_promise)]\<rparr>
            | Refused \<Rightarrow>
                (case ack_promise of
                   None \<Rightarrow> i
                 | Some _ \<Rightarrow>
                     (case map_of (pending_confirms i) tag of
                        None \<Rightarrow> i
                      | Some p \<Rightarrow>
                          let i = set_value p False i in i\<lparr>pending_confirms := erase_tag tag (pending_confirms i)\<rparr>))
            | Raised \<Rightarrow> i))"

fun run_task :: "(64 word \<Rightarrow> amqp_message \<Rightarrow> publish_outcome) \<Rightarrow> amqp_task \<Rightarrow> 'r amqp_impl \<Rightarrow> 'r amqp_impl" where
  "run_task A (PublishTask body ct p) i = publish_task A body ct p i"
| "run_task A (FlushTask p) i = set_value p True i"
| "run_task A (CloseTask p) i = set_value p True i"

text \<open>
  \<^verbatim>\<open>drain_tasks\<close>: the queue is swapped out under the lock and its tasks run in order. A task
  neither reads the queue nor posts, so what other threads post meanwhile is as if posted after.
\<close>

definition drain_tasks :: "(64 word \<Rightarrow> amqp_message \<Rightarrow> publish_outcome) \<Rightarrow> 'r amqp_impl \<Rightarrow> 'r amqp_impl" where
  "drain_tasks A i = fold (run_task A) (task_queue i) (i\<lparr>task_queue := []\<rparr>)"

text \<open>
  What one turn of \<^verbatim>\<open>io_loop\<close> meets after draining: a stop request, a failed poll, an idle one, or readiness, with
  whether the AMQP descriptor has events and the callbacks \<^verbatim>\<open>process\<close> then makes.
\<close>

datatype io_turn = StopSeen | PollFailedWith bool | PollIdle | PollReady bool "amqp_callback list"

definition watches_amqp :: "'r amqp_impl \<Rightarrow> bool" where
  "watches_amqp i = (amqp_fd i \<ge> 0 \<and> amqp_flags i \<noteq> 0)"

fun io_loop ::
  "(64 word \<Rightarrow> amqp_message \<Rightarrow> publish_outcome) \<Rightarrow> io_turn list \<Rightarrow> 'r amqp_impl \<Rightarrow> 'r amqp_impl" where
  "io_loop A [] i = i"
| "io_loop A (StopSeen # ts) i = drain_tasks A i"
| "io_loop A (PollFailedWith eintr # ts) i = (let i = drain_tasks A i in if eintr then io_loop A ts i else i)"
| "io_loop A (PollIdle # ts) i = io_loop A ts (drain_tasks A i)"
| "io_loop A (PollReady revents cbs # ts) i =
     (let i = drain_tasks A i
      in io_loop A ts (if watches_amqp i \<and> revents \<and> connection i then fold callback cbs i else i))"

section \<open>Attach and detach\<close>

definition exchange_kind_of :: "string \<Rightarrow> exchange_kind" where
  "exchange_kind_of s =
     (if s = ''direct'' then ExDirect else if s = ''fanout'' then ExFanout else if s = ''headers'' then ExHeaders else ExTopic)"

text \<open>
  How the objects of the connect task come out, and what the library reports until the
  timeout: the deferred handlers installed by the declarations, or a connection callback.
\<close>

datatype connect_outcome = ConnOk | AddressRaised exn | ChannelRaised exn

datatype declare_event =
    ChannelFailed "string option" | ExchangeFailed "string option"
  | QueueDeclared string | QueueFailed "string option"
  | QueueBound | BindFailed "string option"
  | ConsumeStarted | ConsumeFailed "string option"
  | OtherCallback amqp_callback

datatype stage = Declaring | Binding | Starting | Consuming

text \<open>\<^verbatim>\<open>shared_p->set_value(msg != nullptr ? msg : dflt)\<close>, where only the first value counts.\<close>

definition report :: "string \<Rightarrow> string option \<Rightarrow> string option \<Rightarrow> string option" where
  "report dflt msg p = (case p of Some v \<Rightarrow> Some v | None \<Rightarrow> Some (case msg of Some m \<Rightarrow> m | None \<Rightarrow> dflt))"

text \<open>One report: a handler that the code has not installed yet is never called.\<close>

fun declare_step :: "declare_event \<Rightarrow> stage \<times> string option \<times> 'r amqp_impl \<Rightarrow> stage \<times> string option \<times> 'r amqp_impl" where
  "declare_step (ChannelFailed m) (st, p, i) = (st, report ''channel error'' m p, i)"
| "declare_step (ExchangeFailed m) (st, p, i) = (st, report ''declareExchange'' m p, i)"
| "declare_step (QueueDeclared name) (st, p, i) =
     (if st = Declaring
      then (Binding, p, i\<lparr>bound_queue := name,
        topology := topology i @ [BindQueue (exchange (amqp_cfg i)) name (routing_key (amqp_cfg i))]\<rparr>)
      else (st, p, i))"
| "declare_step (QueueFailed m) (st, p, i) = (st, if st = Declaring then report ''declareQueue'' m p else p, i)"
| "declare_step QueueBound (st, p, i) =
     (if st = Binding then (Starting, p, i\<lparr>topology := topology i @ [Consume (bound_queue i)]\<rparr>) else (st, p, i))"
| "declare_step (BindFailed m) (st, p, i) = (st, if st = Binding then report ''bindQueue'' m p else p, i)"
| "declare_step ConsumeStarted (st, p, i) =
     (if st = Starting then (Consuming, report [] (Some []) p, i) else (st, p, i))"
| "declare_step (ConsumeFailed m) (st, p, i) = (st, if st = Starting then report ''consume'' m p else p, i)"
| "declare_step (OtherCallback cb) (st, p, i) = (st, p, callback cb i)"

definition connect_error :: "exn \<Rightarrow> string" where
  "connect_error e = (if is_a (exn_kind e) StdException then ''connect: '' @ exn_what e else ''connect: unknown error'')"

definition declare_calls :: "'r amqp_impl \<Rightarrow> topology_call list" where
  "declare_calls i =
     (let c = amqp_cfg i in
      [DeclareExchange (exchange c) (exchange_kind_of (exchange_type c)) (exchange_durable c) (exchange_auto_delete c),
       DeclareQueue (amqp_queue c) (queue_durable c) (queue_exclusive c) (queue_auto_delete c)] @
      (if confirms_enabled i then [ConfirmSelect] else []))"

text \<open>The connect task, after whatever was still queued, and the reports that follow it.\<close>

definition connect_task ::
  "(64 word \<Rightarrow> amqp_message \<Rightarrow> publish_outcome) \<Rightarrow> connect_outcome \<Rightarrow> declare_event list \<Rightarrow> 'r amqp_impl \<Rightarrow>
     string option \<times> 'r amqp_impl" where
  "connect_task A co evs i =
     (let i = drain_tasks A i
      in case co of
        AddressRaised e \<Rightarrow> (Some (connect_error e), i)
      | ChannelRaised e \<Rightarrow> (Some (connect_error e), i\<lparr>connection := True\<rparr>)
      | ConnOk \<Rightarrow> snd (fold declare_step evs
          (Declaring, None, i\<lparr>connection := True, channel := True, topology := declare_calls i\<rparr>)))"

definition connect_and_declare ::
  "(64 word \<Rightarrow> amqp_message \<Rightarrow> publish_outcome) \<Rightarrow> connect_outcome \<Rightarrow> declare_event list \<Rightarrow> 'r amqp_impl \<Rightarrow>
     exn option \<times> 'r amqp_impl" where
  "connect_and_declare A co evs i =
     (case connect_task A co evs i of
        (None, i) \<Rightarrow> (Some (Exn AmqpError ''conduit::amqp::Transport::attach: connect/declare timed out''), i)
      | (Some err, i) \<Rightarrow>
          if err \<noteq> [] then (Some (Exn AmqpError (''conduit::amqp::Transport::attach: '' @ err)), i)
          else if error_seen i then (Some (Exn AmqpError (''conduit::amqp::Transport::attach: '' @ last_error i)), i)
          else (None, i))"

text \<open>\<^verbatim>\<open>shutdown\<close>; the turns are those the IO thread still makes until it is joined.\<close>

definition amqp_shutdown ::
  "(64 word \<Rightarrow> amqp_message \<Rightarrow> publish_outcome) \<Rightarrow> io_turn list \<Rightarrow> 'r amqp_impl \<Rightarrow> 'r amqp_impl" where
  "amqp_shutdown A ts i =
     (if \<not> io_thread i then i\<lparr>connection := False, channel := False\<rparr>
      else let (p, i) = new_promise i;
               i = post (CloseTask p) i;
               i = io_loop A ts i;
               i = i\<lparr>io_thread := False\<rparr>;
               i = i\<lparr>channel := False\<rparr>;
               i = i\<lparr>connection := False\<rparr>
           in i\<lparr>dead_promises := p # dead_promises i\<rparr>)"

definition start_io_thread :: "'r amqp_impl \<Rightarrow> 'r amqp_impl" where
  "start_io_thread i = i\<lparr>io_thread := True\<rparr>"

definition amqp_attach ::
  "(64 word \<Rightarrow> amqp_message \<Rightarrow> publish_outcome) \<Rightarrow> connect_outcome \<Rightarrow> declare_event list \<Rightarrow> io_turn list \<Rightarrow>
     'r amqp_impl \<Rightarrow> exn option \<times> 'r amqp_impl" where
  "amqp_attach A co evs ts i =
     (case connect_and_declare A co evs (start_io_thread (adapter_install i)) of
        (None, i) \<Rightarrow> (None, i)
      | (Some e, i) \<Rightarrow> (Some e, amqp_shutdown A ts i))"

definition amqp_detach ::
  "(64 word \<Rightarrow> amqp_message \<Rightarrow> publish_outcome) \<Rightarrow> io_turn list \<Rightarrow> 'r amqp_impl \<Rightarrow> 'r amqp_impl" where
  "amqp_detach A ts i = adapter_uninstall (amqp_shutdown A ts i)"

text \<open>The destructor; the two ends of the wake-up pipe are closed after the IO thread has ended.\<close>

definition amqp_destroy ::
  "(64 word \<Rightarrow> amqp_message \<Rightarrow> publish_outcome) \<Rightarrow> io_turn list \<Rightarrow> 'r amqp_impl \<Rightarrow> 'r amqp_impl" where
  "amqp_destroy A ts i = amqp_shutdown A ts i"

section \<open>Dispatch and flush\<close>

definition content_type_of :: "Format \<Rightarrow> string" where
  "content_type_of fmt = (if fmt = Cbor then ''application/cbor'' else ''application/json'')"

text \<open>The bounded wait for the confirm only delays the caller: its result is discarded.\<close>

definition amqp_dispatch ::
  "'r parcel_lib \<Rightarrow> text_codec \<Rightarrow> EnvelopeCore option \<Rightarrow> 'r amqp_impl \<Rightarrow> exn option \<times> 'r amqp_impl" where
  "amqp_dispatch P X v i =
     (if \<not> connection i then (None, i)
      else case encode_payload P X (amqp_format (amqp_cfg i)) v of
        Inl e \<Rightarrow> (Some e, i)
      | Inr payload \<Rightarrow>
          (let ct = content_type_of (amqp_format (amqp_cfg i))
           in if wants_ack v \<and> confirms_enabled i
              then (let (p, i) = new_promise i in (None, post (PublishTask payload ct (Some p)) i))
              else (None, post (PublishTask payload ct None) i)))"

text \<open>\<^verbatim>\<open>flush\<close>: the turns are those the IO thread makes within the second the caller waits; its promise is on its stack.\<close>

definition amqp_flush ::
  "(64 word \<Rightarrow> amqp_message \<Rightarrow> publish_outcome) \<Rightarrow> io_turn list \<Rightarrow> 'r amqp_impl \<Rightarrow> 'r amqp_impl" where
  "amqp_flush A ts i =
     (let (p, i) = new_promise i;
          i = post (FlushTask p) i;
          i = (if io_thread i then io_loop A ts i else i)
      in i\<lparr>dead_promises := p # dead_promises i\<rparr>)"

definition amqp_is_connected :: "'r amqp_impl \<Rightarrow> bool" where
  "amqp_is_connected i = amqp_connected i"

text \<open>\<^verbatim>\<open>onReceived\<close>: the message is acknowledged to the broker before it is decoded.\<close>

datatype inbound_effect = BrokerAck "64 word" | Delivered bytes

definition on_received :: "'r amqp_impl \<Rightarrow> bytes \<Rightarrow> 64 word \<Rightarrow> inbound_effect list" where
  "on_received i body delivery_tag = (if channel i then [BrokerAck delivery_tag] else []) @ [Delivered body]"

definition deliver_message ::
  "(('f, 'm, 'l, 'p, 'r, 'z) wired_scheme, 'l, 'p) leaf_ops \<Rightarrow> ('f, 'm, 'l, 'p, 'r, 'z) wired_host \<Rightarrow> text_codec \<Rightarrow>
     'l \<Rightarrow> 'r amqp_impl \<Rightarrow> bytes \<Rightarrow> ('f, 'm, 'l, 'p, 'r, 'z) wired_scheme \<Rightarrow>
     ('f, 'm, 'l, 'p, 'r, 'z) wired_scheme" where
  "deliver_message L H X l i body s = deliver_payload L H X ''amqp'' l i body s"

text \<open>An envelope that asks for an acknowledgement.\<close>

definition ack_core :: EnvelopeCore where
  "ack_core = example_core\<lparr>core_flags := [''require_ack'']\<rparr>"

lemma ack_core_encodes: "\<exists>bs. encode_payload example_parcel table_codec Cbor (Some ack_core) = Inr bs"
  by (simp add: encode_payload_def encode_cbor_def to_json_def ack_core_def example_core_def example_parcel_def
      example_wire_def example_lib_def Let_def event_cell_def and_then_def)

end
