(* ===== verification/AmqpConfirms.thy ===== *)
theory AmqpConfirms
  imports Amqp
begin

text \<open>
  The publisher confirms of the AMQP adapter over a whole session: dispatches from any thread
  interleaved with the turns of the IO thread. The map of pending confirms is shown to be what a
  broker that numbers the messages in order has still to answer.
\<close>

section \<open>A session of the confirm protocol\<close>

datatype amqp_event = EvDispatch "EnvelopeCore option" | EvTurn io_turn

fun amqp_act ::
  "'r parcel_lib \<Rightarrow> text_codec \<Rightarrow> (64 word \<Rightarrow> amqp_message \<Rightarrow> publish_outcome) \<Rightarrow> amqp_event \<Rightarrow> 'r amqp_impl \<Rightarrow> 'r amqp_impl" where
  "amqp_act P X A (EvDispatch v) i = snd (amqp_dispatch P X v i)"
| "amqp_act P X A (EvTurn t) i = io_loop A [t] i"

text \<open>The payloads handed to a connected adapter, in order.\<close>

fun dispatched :: "'r parcel_lib \<Rightarrow> text_codec \<Rightarrow> Format \<Rightarrow> amqp_event list \<Rightarrow> bytes list" where
  "dispatched P X fmt [] = []"
| "dispatched P X fmt (EvDispatch v # es) =
     (case encode_payload P X fmt v of Inl e \<Rightarrow> [] | Inr bs \<Rightarrow> [bs]) @ dispatched P X fmt es"
| "dispatched P X fmt (EvTurn t # es) = dispatched P X fmt es"

text \<open>The entries a broker that numbers the messages from \<open>n\<close> has still to confirm.\<close>

fun outstanding :: "nat \<Rightarrow> (amqp_message \<times> nat option) list \<Rightarrow> (nat \<Rightarrow> bool option) \<Rightarrow> (64 word \<times> nat) list" where
  "outstanding n [] r = []"
| "outstanding n ((m, None) # w) r = outstanding (n + 1) w r"
| "outstanding n ((m, Some p) # w) r = (if r p = None then [(word_of_nat n, p)] else []) @ outstanding (n + 1) w r"

fun task_promise :: "amqp_task \<Rightarrow> nat option" where
  "task_promise (PublishTask b ct p) = p"
| "task_promise (FlushTask p) = Some p"
| "task_promise (CloseTask p) = Some p"

fun task_body :: "amqp_task \<Rightarrow> bytes option" where
  "task_body (PublishTask b ct p) = Some b"
| "task_body t = None"

definition promise_list :: "'a list \<Rightarrow> ('a \<Rightarrow> nat option) \<Rightarrow> nat list" where
  "promise_list xs f = List.map_filter f xs"

text \<open>The invariant, on the tasks still to run: the queue, or what is left of it while it is drained.\<close>

definition session_inv :: "amqp_task list \<Rightarrow> 'r amqp_impl \<Rightarrow> bool" where
  "session_inv ts i \<longleftrightarrow>
     connection i \<and> channel i \<and> dead_promises i = [] \<and> list_all (\<lambda>t. task_body t \<noteq> None) ts \<and>
     next_delivery_tag i = word_of_nat (length (wire_log i) + 1) \<and>
     pending_confirms i = outstanding 1 (wire_log i) (promises i) \<and>
     distinct (promise_list (wire_log i) snd @ promise_list ts task_promise) \<and>
     (\<forall>p \<in> set (promise_list (wire_log i) snd @ promise_list ts task_promise). p < next_promise i) \<and>
     (\<forall>p \<in> set (promise_list ts task_promise). promises i p = None) \<and>
     (\<forall>p. promises i p \<noteq> None \<longrightarrow> p < next_promise i)"

definition session_ok :: "'r amqp_impl \<Rightarrow> bool" where
  "session_ok i = session_inv (task_queue i) i"

definition bodies :: "amqp_task list \<Rightarrow> 'r amqp_impl \<Rightarrow> bytes list" where
  "bodies ts i = map (\<lambda>e. am_body (fst e)) (wire_log i) @ List.map_filter task_body ts"

section \<open>Lemmas\<close>

lemma promise_list_simps [simp]:
  "promise_list [] f = []" "promise_list (x # xs) f = (case f x of None \<Rightarrow> [] | Some p \<Rightarrow> [p]) @ promise_list xs f"
  "promise_list (xs @ ys) f = promise_list xs f @ promise_list ys f"
  by (simp_all add: promise_list_def List.map_filter_def split: option.splits)

lemma set_values:
  "dead_promises i = [] \<Longrightarrow> fold (\<lambda>e. set_value (snd e) ok) es i =
     i\<lparr>promises := (\<lambda>p. if p \<in> snd ` set es \<and> promises i p = None then Some ok else promises i p)\<rparr>"
proof (induction es arbitrary: i)
  case (Cons e es)
  then show ?case by (simp add: set_value_def) (auto simp: fun_eq_iff intro!: arg_cong [where f = "\<lambda>f. i\<lparr>promises := f\<rparr>"])
qed simp

lemma resolve_upto_eq:
  "resolve_upto tag ok es i =
     (filter (\<lambda>e. \<not> fst e \<le> tag) es, fold (\<lambda>e. set_value (snd e) ok) (filter (\<lambda>e. fst e \<le> tag) es) i)"
  by (induction tag ok es i rule: resolve_upto.induct) auto

lemma filter_key_map_of:
  "distinct (map fst es) \<Longrightarrow> filter (\<lambda>e. fst e = t) es = (case map_of es t of None \<Rightarrow> [] | Some p \<Rightarrow> [(t, p)])"
proof (induction es)
  case (Cons e es)
  then show ?case
    by (cases e) (auto simp: filter_empty_conv map_of_eq_None_iff split: option.splits dest: map_of_SomeD intro: rev_image_eqI)
qed simp

text \<open>Both forms of a confirm: the covered entries get the value and go.\<close>

definition covered :: "64 word \<Rightarrow> bool \<Rightarrow> 64 word \<Rightarrow> bool" where
  "covered tag multiple t = (if multiple then t \<le> tag else t = tag)"

lemma resolve_confirm_eq:
  assumes "dead_promises i = []" and "distinct (map fst (pending_confirms i))"
  shows "resolve_confirm tag multiple ok i =
    i\<lparr>promises := (\<lambda>p. if p \<in> snd ` set (filter (\<lambda>e. covered tag multiple (fst e)) (pending_confirms i)) \<and> promises i p = None
         then Some ok else promises i p),
      pending_confirms := filter (\<lambda>e. \<not> covered tag multiple (fst e)) (pending_confirms i)\<rparr>"
proof (cases multiple)
  case True
  then show ?thesis
    using assms by (simp add: resolve_confirm_def resolve_upto_eq set_values covered_def Let_def)
next
  case False
  have f: "filter (\<lambda>e. fst e = tag) (pending_confirms i) =
      (case map_of (pending_confirms i) tag of None \<Rightarrow> [] | Some p \<Rightarrow> [(tag, p)])"
    by (rule filter_key_map_of [OF assms(2)])
  have "map_of (pending_confirms i) tag = None \<Longrightarrow> filter (\<lambda>e. fst e \<noteq> tag) (pending_confirms i) = pending_confirms i"
    by (auto simp: map_of_eq_None_iff filter_id_conv)
  then show ?thesis
    using False assms(1) f
    by (cases "map_of (pending_confirms i) tag")
      (auto simp: resolve_confirm_def covered_def erase_tag_def set_value_def Let_def fun_eq_iff
        intro!: amqp_impl.equality)
qed

text \<open>The entries of a stretch of the log: their tags, their promises, and what an answer leaves of them.\<close>

lemma outstanding_mem:
  "(t, p) \<in> set (outstanding n w r) \<longleftrightarrow>
     (\<exists>k < length w. t = word_of_nat (n + k) \<and> snd (w ! k) = Some p \<and> r p = None)"
proof (induction n w r rule: outstanding.induct)
  case (2 n m w r)
  then show ?case by (auto simp: less_Suc_eq_0_disj)
next
  case (3 n m p' w r)
  then show ?case by (auto simp: less_Suc_eq_0_disj)
qed simp

lemma outstanding_append:
  "outstanding n (w @ w') r = outstanding n w r @ outstanding (n + length w) w' r"
  by (induction n w r rule: outstanding.induct) simp_all

lemma outstanding_promises: "snd ` set (outstanding n w r) \<subseteq> set (promise_list w snd)"
  by (induction n w r rule: outstanding.induct) auto

lemma outstanding_answer:
  assumes "\<And>t p. (t, p) \<in> set (outstanding n w r) \<Longrightarrow> (r' p = None) = (\<not> c t)"
    and "\<And>p. r p \<noteq> None \<Longrightarrow> r' p \<noteq> None"
  shows "outstanding n w r' = filter (\<lambda>e. \<not> c (fst e)) (outstanding n w r)"
  using assms
proof (induction n w r rule: outstanding.induct)
  case (3 n m p w r)
  then have "outstanding (n + 1) w r' = filter (\<lambda>e. \<not> c (fst e)) (outstanding (n + 1) w r)" by simp
  then show ?case using "3.prems"(1) [of "word_of_nat n" p] "3.prems"(2) [of p] by (cases "r p") auto
qed auto

lemma word_of_nat_inj64:
  "m < 2 ^ 64 \<Longrightarrow> n < 2 ^ 64 \<Longrightarrow> (word_of_nat m :: 64 word) = word_of_nat n \<longleftrightarrow> m = n"
  by (simp add: word_of_nat_eq_iff take_bit_nat_eq_self)

lemma outstanding_distinct:
  "n + length w \<le> 2 ^ 64 \<Longrightarrow> distinct (map fst (outstanding n w r))"
proof (induction n w r rule: outstanding.induct)
  case (3 n m p w r)
  have "(word_of_nat n :: 64 word) \<notin> fst ` set (outstanding (n + 1) w r)"
  proof
    assume "(word_of_nat n :: 64 word) \<in> fst ` set (outstanding (n + 1) w r)"
    then obtain k where "k < length w" "(word_of_nat n :: 64 word) = word_of_nat (n + 1 + k)"
      by (auto simp: outstanding_mem)
    then show False using "3.prems" by (simp add: word_of_nat_inj64 del: of_nat_add of_nat_Suc)
  qed
  then show ?case using 3 by auto
qed auto

lemma word_of_nat_less64: "m < n \<Longrightarrow> n < 2 ^ 64 \<Longrightarrow> (word_of_nat m :: 64 word) < word_of_nat n"
  by (simp add: word_less_nat_alt unsigned_of_nat take_bit_nat_eq_self)

lemma outstanding_below:
  "n + length w < 2 ^ 64 \<Longrightarrow> (t, p) \<in> set (outstanding n w r) \<Longrightarrow> t < word_of_nat (n + length w)"
  by (auto simp: outstanding_mem word_of_nat_less64 simp del: of_nat_add)

text \<open>No promise is outstanding twice.\<close>

lemma promise_once:
  assumes "distinct (promise_list w f)" and "j < length w" and "k < length w" and "f (w ! j) = Some p" and "f (w ! k) = Some p"
  shows "j = k"
  using assms
proof (induction w arbitrary: j k)
  case (Cons x w)
  have mem: "l < length w \<Longrightarrow> f (w ! l) = Some p \<Longrightarrow> p \<in> set (promise_list w f)" for l
    by (auto simp: promise_list_def List.map_filter_def in_set_conv_nth image_iff intro!: bexI [of _ "w ! l"])
  show ?case using Cons mem by (cases j; cases k) (auto split: option.splits)
qed simp

lemma session_parts:
  assumes "session_inv ts i"
  shows "connection i" "channel i" "dead_promises i = []" "next_delivery_tag i = word_of_nat (length (wire_log i) + 1)"
    "pending_confirms i = outstanding 1 (wire_log i) (promises i)" "distinct (promise_list (wire_log i) snd)"
    "\<And>p. p \<in> set (promise_list (wire_log i) snd) \<Longrightarrow> p \<notin> set (promise_list ts task_promise)"
  using assms by (auto simp: session_inv_def)

text \<open>An answer to part of the outstanding entries keeps the invariant.\<close>

lemma session_answer:
  assumes "session_inv ts i" and "pend = pending_confirms i"
    and "r' = (\<lambda>p. if p \<in> snd ` set (filter (\<lambda>e. c (fst e)) pend) \<and> promises i p = None then Some ok else promises i p)"
  shows "session_inv ts (i\<lparr>promises := r', pending_confirms := filter (\<lambda>e. \<not> c (fst e)) pend\<rparr>)"
proof -
  note inv = session_parts [OF assms(1)]
  have once: "t = t'" if "(t, p) \<in> set pend" "(t', p) \<in> set pend" for t t' p
    using that promise_once [OF inv(6)] by (auto simp: assms(2) inv(5) outstanding_mem)
  have "outstanding 1 (wire_log i) r' = filter (\<lambda>e. \<not> c (fst e)) pend"
    unfolding assms(2) inv(5)
  proof (rule outstanding_answer)
    fix t p
    assume tp: "(t, p) \<in> set (outstanding 1 (wire_log i) (promises i))"
    then have n: "promises i p = None" by (auto simp: outstanding_mem)
    have m: "(t, p) \<in> set pend" using tp by (simp add: assms(2) inv(5))
    have "p \<in> snd ` set (filter (\<lambda>e. c (fst e)) pend) \<longleftrightarrow> c t"
    proof
      assume "p \<in> snd ` set (filter (\<lambda>e. c (fst e)) pend)"
      then obtain t' where "(t', p) \<in> set pend" "c t'" by auto
      then show "c t" using once [OF m] by blast
    qed (use m in force)
    then show "(r' p = None) = (\<not> c t)" using n by (simp add: assms(3))
  qed (auto simp: assms(3))
  moreover have "r' p = None" if "p \<in> set (promise_list ts task_promise)" for p
  proof -
    have "p \<notin> snd ` set pend"
      using that inv(7) outstanding_promises [of 1 "wire_log i" "promises i"] by (auto simp: assms(2) inv(5))
    then show ?thesis using that assms(1) by (auto simp: assms(3) session_inv_def)
  qed
  moreover have "p < next_promise i" if "r' p \<noteq> None" for p
  proof -
    have "promises i p \<noteq> None \<or> p \<in> set (promise_list (wire_log i) snd)"
      using that outstanding_promises [of 1 "wire_log i" "promises i"] by (auto simp: assms(2,3) inv(5) split: if_splits)
    then show ?thesis using assms(1) by (auto simp: session_inv_def)
  qed
  ultimately show ?thesis using assms(1) by (simp add: session_inv_def)
qed

lemma session_confirm:
  assumes "session_inv ts i" and "length (wire_log i) + 1 \<le> 2 ^ 64"
  shows "session_inv ts (resolve_confirm tag m ok i)"
proof -
  note inv = session_parts [OF assms(1)]
  have d: "distinct (map fst (pending_confirms i))"
    using outstanding_distinct [of 1 "wire_log i"] assms(2) by (simp add: inv(5))
  show ?thesis
    unfolding resolve_confirm_eq [OF inv(3) d]
    by (rule session_answer [OF assms(1) refl refl, of "covered tag m"])
qed

lemma onError_eq:
  assumes "dead_promises i = []"
  shows "\<exists>j. onError msg i = j\<lparr>promises := (\<lambda>p. if p \<in> snd ` set (filter (\<lambda>e. True) (pending_confirms i)) \<and> promises i p = None
      then Some False else promises i p), pending_confirms := filter (\<lambda>e. \<not> True) (pending_confirms i)\<rparr> \<and>
    wire_log j = wire_log i \<and> promises j = promises i \<and> pending_confirms j = pending_confirms i \<and>
    amqp_cfg j = amqp_cfg i \<and> task_queue j = task_queue i \<and> (\<forall>ts. session_inv ts j = session_inv ts i)"
proof -
  let ?j = "(case msg of None \<Rightarrow> i\<lparr>error_seen := True\<rparr> | Some m \<Rightarrow> i\<lparr>error_seen := True, last_error := m\<rparr>)
    \<lparr>amqp_ready := True, amqp_connected := False\<rparr>"
  have "onError msg i = ?j\<lparr>promises := (\<lambda>p. if p \<in> snd ` set (pending_confirms i) \<and> promises i p = None
      then Some False else promises i p), pending_confirms := []\<rparr>"
    using assms by (cases msg) (simp_all add: onError_def Let_def set_values cong: if_cong)
  then show ?thesis by (intro exI [of _ ?j]) (cases msg; simp add: session_inv_def)
qed

lemma session_callback:
  assumes "session_inv ts i" and "length (wire_log i) + 1 \<le> 2 ^ 64"
  shows "session_inv ts (callback cb i) \<and> wire_log (callback cb i) = wire_log i \<and>
    amqp_cfg (callback cb i) = amqp_cfg i \<and> task_queue (callback cb i) = task_queue i"
proof (cases cb)
  case (CbError msg)
  obtain j where "onError msg i = j\<lparr>promises := (\<lambda>p. if p \<in> snd ` set (filter (\<lambda>e. True) (pending_confirms i)) \<and> promises i p = None
      then Some False else promises i p), pending_confirms := filter (\<lambda>e. \<not> True) (pending_confirms i)\<rparr>"
    "wire_log j = wire_log i" "promises j = promises i" "pending_confirms j = pending_confirms i" "session_inv ts j"
    "amqp_cfg j = amqp_cfg i" "task_queue j = task_queue i"
    using onError_eq [OF session_parts(3) [OF assms(1)], of msg] assms(1) by blast
  then show ?thesis using CbError session_answer [of ts j "pending_confirms i" _ "\<lambda>t. True" False] by (simp cong: if_cong)
next
  case (CbConfirm t m ok)
  note inv = session_parts [OF assms(1)]
  have "distinct (map fst (pending_confirms i))" using outstanding_distinct [of 1 "wire_log i"] assms(2) by (simp add: inv(5))
  then show ?thesis
    using CbConfirm session_confirm [OF assms] by (simp add: resolve_confirm_eq inv(3))
qed (use assms in \<open>simp_all add: session_inv_def monitor_def onReady_def onConnected_def onClosed_def onLost_def\<close>)

text \<open>Running one task of the queue, with a library that accepts it.\<close>

lemma emplace_last:
  assumes "\<And>e. e \<in> set es \<Longrightarrow> fst e < t"
  shows "emplace t p es = es @ [(t, p)]"
proof -
  have "insort_key fst (t, p) es = es @ [(t, p)]"
    using assms
  proof (induction es)
    case (Cons e es)
    then show ?case using leD [of t "fst e"] Cons.prems [of e] by auto
  qed simp
  moreover have "map_of es t = None" using assms by (force simp: map_of_eq_None_iff)
  ultimately show ?thesis by (simp add: emplace_def)
qed

lemma session_publish:
  assumes inv: "session_inv (PublishTask b ct p # ts) i" and acc: "A = (\<lambda>t m. Accepted)"
    and small: "length (wire_log i) + 2 \<le> 2 ^ 64"
  shows "session_inv ts (publish_task A b ct p i) \<and> bodies ts (publish_task A b ct p i) = bodies (PublishTask b ct p # ts) i \<and>
    length (wire_log (publish_task A b ct p i)) = length (wire_log i) + 1 \<and>
    amqp_cfg (publish_task A b ct p i) = amqp_cfg i \<and> task_queue (publish_task A b ct p i) = task_queue i"
proof -
  note parts = session_parts [OF inv]
  let ?n = "length (wire_log i) + 1"
  have tag: "word_of_nat ?n + 1 = (word_of_nat (?n + 1) :: 64 word)" by simp
  have below: "fst e < word_of_nat ?n" if "e \<in> set (pending_confirms i)" for e
    using that outstanding_below [of 1 "wire_log i" "fst e" "snd e" "promises i"] small
    by (simp add: parts(5) del: of_nat_add of_nat_Suc)
  show ?thesis
  proof (cases p)
    case None
    then show ?thesis
      using inv acc by (simp add: publish_task_def session_inv_def bodies_def outstanding_append List.map_filter_def)
  next
    case (Some q)
    have e: "emplace (word_of_nat ?n) q (pending_confirms i) = pending_confirms i @ [(word_of_nat ?n, q)]"
      by (rule emplace_last [OF below])
    have "promises i q = None" using inv Some by (simp add: session_inv_def)
    then show ?thesis
      using inv acc Some e
      by (auto simp: publish_task_def session_inv_def bodies_def outstanding_append List.map_filter_def Let_def)
  qed
qed

lemma session_drain:
  assumes "session_inv ts i" and "A = (\<lambda>t m. Accepted)" and "length (wire_log i) + length ts + 1 \<le> 2 ^ 64"
  shows "session_inv [] (fold (run_task A) ts i) \<and> bodies [] (fold (run_task A) ts i) = bodies ts i \<and>
    length (wire_log (fold (run_task A) ts i)) = length (wire_log i) + length ts \<and>
    amqp_cfg (fold (run_task A) ts i) = amqp_cfg i \<and> task_queue (fold (run_task A) ts i) = task_queue i"
  using assms(1,3)
proof (induction ts arbitrary: i)
  case (Cons t ts)
  then obtain b ct p where t: "t = PublishTask b ct p" by (cases t) (auto simp: session_inv_def)
  have "session_inv ts (run_task A t i) \<and> bodies ts (run_task A t i) = bodies (t # ts) i \<and>
      length (wire_log (run_task A t i)) = length (wire_log i) + 1 \<and>
      amqp_cfg (run_task A t i) = amqp_cfg i \<and> task_queue (run_task A t i) = task_queue i"
    using session_publish [OF Cons.prems(1) [unfolded t] assms(2)] Cons.prems(2) by (simp add: t)
  then show ?case using Cons.IH [of "run_task A t i"] Cons.prems(2) by simp
qed simp

lemma session_drain_tasks:
  assumes "session_ok i" and "A = (\<lambda>t m. Accepted)" and "length (wire_log i) + length (task_queue i) + 1 \<le> 2 ^ 64"
  shows "session_ok (drain_tasks A i) \<and> bodies (task_queue (drain_tasks A i)) (drain_tasks A i) = bodies (task_queue i) i \<and>
    length (wire_log (drain_tasks A i)) = length (wire_log i) + length (task_queue i) \<and>
    amqp_cfg (drain_tasks A i) = amqp_cfg i \<and> task_queue (drain_tasks A i) = []"
proof -
  let ?j = "i\<lparr>task_queue := []\<rparr>"
  have "session_inv (task_queue i) ?j" using assms(1) by (simp add: session_ok_def session_inv_def)
  then show ?thesis
    using session_drain [of "task_queue i" ?j A, OF _ assms(2)] assms(3)
    by (simp add: drain_tasks_def session_ok_def bodies_def)
qed

lemma session_callbacks:
  assumes "session_ok i" and "length (wire_log i) + 1 \<le> 2 ^ 64"
  shows "session_ok (fold callback cbs i) \<and> wire_log (fold callback cbs i) = wire_log i \<and>
    amqp_cfg (fold callback cbs i) = amqp_cfg i \<and> task_queue (fold callback cbs i) = task_queue i"
  using assms
proof (induction cbs arbitrary: i)
  case (Cons cb cbs)
  then show ?case
    using session_callback [of "task_queue i" i cb] Cons.IH [of "callback cb i"] by (simp add: session_ok_def)
qed simp

lemma session_turn:
  assumes "session_ok i" and "A = (\<lambda>t m. Accepted)" and "length (wire_log i) + length (task_queue i) + 1 \<le> 2 ^ 64"
  shows "session_ok (io_loop A [t] i) \<and> bodies (task_queue (io_loop A [t] i)) (io_loop A [t] i) = bodies (task_queue i) i \<and>
    length (wire_log (io_loop A [t] i)) + length (task_queue (io_loop A [t] i)) = length (wire_log i) + length (task_queue i) \<and>
    amqp_cfg (io_loop A [t] i) = amqp_cfg i"
proof -
  note d = session_drain_tasks [OF assms]
  have "length (wire_log (drain_tasks A i)) + 1 \<le> 2 ^ 64" using d assms(3) by simp
  from session_callbacks [OF conjunct1 [OF d] this]
  show ?thesis using d by (cases t) (auto simp: Let_def bodies_def)
qed

lemma session_dispatch:
  assumes "session_ok i"
  shows "session_ok (snd (amqp_dispatch P X v i)) \<and>
    bodies (task_queue (snd (amqp_dispatch P X v i))) (snd (amqp_dispatch P X v i)) =
      bodies (task_queue i) i @ (case encode_payload P X (amqp_format (amqp_cfg i)) v of Inl e \<Rightarrow> [] | Inr bs \<Rightarrow> [bs]) \<and>
    length (wire_log (snd (amqp_dispatch P X v i))) + length (task_queue (snd (amqp_dispatch P X v i))) \<le>
      length (wire_log i) + length (task_queue i) + 1 \<and>
    amqp_cfg (snd (amqp_dispatch P X v i)) = amqp_cfg i"
proof (cases "encode_payload P X (amqp_format (amqp_cfg i)) v")
  case (Inl e)
  then show ?thesis using assms by (simp add: amqp_dispatch_def)
next
  case (Inr bs)
  have c: "connection i" and n: "promises i (next_promise i) = None"
    and l: "\<And>p. p \<in> set (promise_list (wire_log i) snd @ promise_list (task_queue i) task_promise) \<Longrightarrow> p < next_promise i"
    using assms by (auto simp: session_ok_def session_inv_def)
  have f: "next_promise i \<notin> set (promise_list (wire_log i) snd)" "next_promise i \<notin> set (promise_list (task_queue i) task_promise)"
    using l [of "next_promise i"] by auto
  show ?thesis
    using Inr assms c n f
    by (auto simp: amqp_dispatch_def session_ok_def session_inv_def post_def new_promise_def bodies_def List.map_filter_def
        Let_def less_Suc_eq)
qed

lemma session_run:
  assumes "session_ok i" and "A = (\<lambda>t m. Accepted)"
    and "length (wire_log i) + length (task_queue i) + length evs + 1 \<le> 2 ^ 64" and "i' = fold (amqp_act P X A) evs i"
  shows "session_ok i' \<and> amqp_cfg i' = amqp_cfg i \<and>
    bodies (task_queue i') i' = bodies (task_queue i) i @ dispatched P X (amqp_format (amqp_cfg i)) evs \<and>
    length (wire_log i') + length (task_queue i') \<le> length (wire_log i) + length (task_queue i) + length evs"
  using assms
proof (induction evs arbitrary: i)
  case (Cons e evs)
  let ?j = "amqp_act P X A e i"
  have "session_ok ?j \<and> amqp_cfg ?j = amqp_cfg i \<and>
      bodies (task_queue ?j) ?j = bodies (task_queue i) i @ dispatched P X (amqp_format (amqp_cfg i)) [e] \<and>
      length (wire_log ?j) + length (task_queue ?j) \<le> length (wire_log i) + length (task_queue i) + 1"
  proof (cases e)
    case (EvDispatch v)
    then show ?thesis using session_dispatch [OF Cons.prems(1), of P X v] by simp
  next
    case (EvTurn t)
    then show ?thesis using session_turn [OF Cons.prems(1,2), of t] Cons.prems(3) by simp
  qed
  then show ?case using Cons.IH [of ?j] Cons.prems by (cases e) auto
qed simp

text \<open>A new adapter whose attach succeeded starts a session.\<close>

lemma session_declare:
  assumes "session_ok i" and "wire_log i = []" and "fold declare_step evs (st, p, i) = (st', p', i')"
  shows "session_ok i' \<and> wire_log i' = [] \<and> amqp_cfg i' = amqp_cfg i \<and> task_queue i' = task_queue i"
  using assms
proof (induction evs arbitrary: st p i)
  case (Cons e evs)
  obtain st1 p1 i1 where e: "declare_step e (st, p, i) = (st1, p1, i1)" by (metis prod_cases3)
  have "session_ok i1 \<and> wire_log i1 = [] \<and> amqp_cfg i1 = amqp_cfg i \<and> task_queue i1 = task_queue i"
  proof (cases e)
    case (OtherCallback cb)
    then show ?thesis
      using e Cons.prems(1,2) session_callback [of "task_queue i" i cb] by (auto simp: session_ok_def)
  qed (use e Cons.prems(1,2) in \<open>auto simp: session_ok_def session_inv_def split: if_splits\<close>)
  then show ?case using Cons.IH [of i1 st1 p1] Cons.prems(3) e by simp
qed simp

lemma session_starts:
  assumes "amqp_new tls pipe fresh cfg reg = Inr i" and "amqp_attach A co decl ts i = (None, i0)"
  shows "session_ok i0 \<and> wire_log i0 = [] \<and> task_queue i0 = [] \<and> amqp_format (amqp_cfg i0) = amqp_format cfg"
proof -
  let ?j = "start_io_thread (adapter_install i)"
  have new: "task_queue ?j = []" "wire_log ?j = []" "pending_confirms ?j = []" "dead_promises ?j = []"
    "promises ?j = (\<lambda>p. None)" "next_delivery_tag ?j = 1" "amqp_format (amqp_cfg ?j) = amqp_format cfg"
    using assms(1) by (auto simp: amqp_new_def start_io_thread_def adapter_install_def Let_def split: if_splits)
  let ?k = "?j\<lparr>task_queue := [], connection := True, channel := True, topology := declare_calls (?j\<lparr>task_queue := []\<rparr>)\<rparr>"
  have k: "session_ok ?k" using new by (simp add: session_ok_def session_inv_def)
  have c: "connect_and_declare A co decl ?j = (None, i0)"
    using assms(2) by (auto simp: amqp_attach_def split: prod.splits option.splits)
  then obtain err where t: "connect_task A co decl ?j = (Some err, i0)" "err = []"
    by (auto simp: connect_and_declare_def split: prod.splits option.splits if_splits)
  then have co: "co = ConnOk"
    by (cases co) (auto simp: connect_task_def connect_error_def Let_def split: if_splits)
  obtain st p i1 where f: "fold declare_step decl (Declaring, None, ?k) = (st, p, i1)" by (metis prod_cases3)
  have "i0 = i1" using t f co by (simp add: connect_task_def drain_tasks_def new(1) Let_def)
  then show ?thesis using session_declare [OF k _ f] new by simp
qed

section \<open>Properties\<close>

text \<open>
  C8: the publisher-confirm protocol of a newly attached AMQP adapter, as long as the library
  accepts every publish. However the dispatching threads and the IO thread interleave, the broker is given
  exactly the dispatched payloads, in dispatch order, the rest still being queued; the map of pending
  confirms holds exactly the messages the broker has not answered, under the numbers the broker
  gives them; so an acknowledgement or rejection, single or cumulative, resolves the promise of each message it
  covers with its verdict and of no other, a resolved promise keeps its value, and a connection
  error fails every promise that is still open.
\<close>

theorem amqp_confirm_protocol:
  assumes "amqp_new tls pipe fresh cfg reg = Inr i" and "amqp_attach A co decl ts i = (None, i0)"
    and "\<And>t m. A t m = Accepted" and "length evs + 1 \<le> 2 ^ 64" and "i' = fold (amqp_act P X A) evs i0"
  shows "map (\<lambda>e. am_body (fst e)) (wire_log i') @ List.map_filter task_body (task_queue i') =
      dispatched P X (amqp_format cfg) evs \<and>
    pending_confirms i' = outstanding 1 (wire_log i') (promises i') \<and>
    (\<forall>k p. k < length (wire_log i') \<and> snd (wire_log i' ! k) = Some p \<longrightarrow>
       promises (resolve_confirm tag multiple ok i') p =
         (case promises i' p of
            Some b \<Rightarrow> Some b
          | None \<Rightarrow> if (if multiple then k + 1 \<le> unat tag else k + 1 = unat tag) then Some ok else None) \<and>
       promises (onError msg i') p = (case promises i' p of Some b \<Rightarrow> Some b | None \<Rightarrow> Some False))"
proof -
  note s0 = session_starts [OF assms(1,2)]
  have A: "A = (\<lambda>t m. Accepted)" using assms(3) by (simp add: fun_eq_iff)
  have s: "session_ok i'" "bodies (task_queue i') i' = dispatched P X (amqp_format cfg) evs"
    "length (wire_log i') + length (task_queue i') \<le> length evs"
    using session_run [of i0 A evs i' P X] s0 A assms(4,5) by (auto simp: bodies_def List.map_filter_def)
  note inv = session_parts [OF s(1) [unfolded session_ok_def]]
  have len: "length (wire_log i') + 1 \<le> 2 ^ 64" using s(3) assms(4) by simp
  have d: "distinct (map fst (pending_confirms i'))"
    using outstanding_distinct [of 1 "wire_log i'"] len by (simp add: inv(5))
  have entry: "p \<in> snd ` set (filter (\<lambda>e. c (fst e)) (pending_confirms i')) \<longleftrightarrow> c (word_of_nat (k + 1))"
    if "k < length (wire_log i')" "snd (wire_log i' ! k) = Some p" "promises i' p = None" for k p c
  proof
    assume "p \<in> snd ` set (filter (\<lambda>e. c (fst e)) (pending_confirms i'))"
    then obtain t where "(t, p) \<in> set (pending_confirms i')" "c t" by auto
    then obtain j where "j < length (wire_log i')" "t = word_of_nat (1 + j)" "snd (wire_log i' ! j) = Some p"
      unfolding inv(5) outstanding_mem by blast
    then show "c (word_of_nat (k + 1))" using promise_once [OF inv(6) that(1) _ that(2)] \<open>c t\<close> by (simp add: add.commute)
  next
    assume c: "c (word_of_nat (k + 1))"
    have "(word_of_nat (k + 1), p) \<in> set (pending_confirms i')"
      unfolding inv(5) outstanding_mem using that by (intro exI [of _ k]) (simp add: add.commute)
    then show "p \<in> snd ` set (filter (\<lambda>e. c (fst e)) (pending_confirms i'))" using c by force
  qed
  have cov: "covered tag multiple (word_of_nat (k + 1)) = (if multiple then k + 1 \<le> unat tag else k + 1 = unat tag)"
    if "k < length (wire_log i')" for k
  proof -
    have "unat (word_of_nat (k + 1) :: 64 word) = k + 1"
      using that len by (simp add: unsigned_of_nat take_bit_nat_eq_self del: of_nat_Suc)
    then show ?thesis by (auto simp: covered_def word_le_nat_alt word_unat_eq_iff)
  qed
  have conf: "promises (resolve_confirm tag multiple ok i') p = (case promises i' p of Some b \<Rightarrow> Some b
      | None \<Rightarrow> if (if multiple then k + 1 \<le> unat tag else k + 1 = unat tag) then Some ok else None)"
    if "k < length (wire_log i')" "snd (wire_log i' ! k) = Some p" for k p
    using entry [OF that, of "covered tag multiple"] cov [OF that(1)]
    by (cases "promises i' p") (simp_all add: resolve_confirm_eq [OF inv(3) d])
  have err: "promises (onError msg i') p = (case promises i' p of Some b \<Rightarrow> Some b | None \<Rightarrow> Some False)"
    if "k < length (wire_log i')" "snd (wire_log i' ! k) = Some p" for k p
  proof -
    have m: "promises i' p = None \<Longrightarrow> p \<in> snd ` set (pending_confirms i')" using entry [OF that, of "\<lambda>t. True"] by simp
    have "promises (onError msg i') = (\<lambda>p. if p \<in> snd ` set (pending_confirms i') \<and> promises i' p = None then Some False
        else promises i' p)"
      using onError_eq [OF inv(3), of msg] by auto
    then show ?thesis using m by (cases "promises i' p") simp_all
  qed
  show ?thesis
  proof (intro conjI allI impI)
    show "map (\<lambda>e. am_body (fst e)) (wire_log i') @ List.map_filter task_body (task_queue i') =
        dispatched P X (amqp_format cfg) evs"
      using s(2) by (simp add: bodies_def)
    show "pending_confirms i' = outstanding 1 (wire_log i') (promises i')" by (rule inv(5))
  qed (elim conjE, erule (1) conf, elim conjE, erule (1) err)
qed

theorem amqp_confirm_protocol_witness:
  "\<exists>i i0 :: descriptor list amqp_impl.
     amqp_new False True ''01H'' (amqp_config_default ''amqp://h''\<lparr>publisher_confirms := True\<rparr>) None = Inr i \<and>
     amqp_attach (\<lambda>t m. Accepted) ConnOk [QueueDeclared ''q'', QueueBound, ConsumeStarted] [] i = (None, i0) \<and>
     promises (resolve_confirm 1 False True (fold (amqp_act example_parcel table_codec (\<lambda>t m. Accepted))
       [EvDispatch (Some ack_core), EvTurn PollIdle] i0)) 0 = Some True"
proof -
  let ?cfg = "amqp_config_default ''amqp://h''\<lparr>publisher_confirms := True\<rparr>" and ?A = "\<lambda>t m. Accepted"
  let ?ev = "[EvDispatch (Some ack_core), EvTurn PollIdle]"
  obtain i :: "descriptor list amqp_impl" where i: "amqp_new False True ''01H'' ?cfg None = Inr i"
    by (simp add: amqp_new_def amqp_config_default_def Let_def)
  obtain i0 where i0: "amqp_attach ?A ConnOk [QueueDeclared ''q'', QueueBound, ConsumeStarted] [] i = (None, i0)"
    and n: "next_promise i0 = 0" "confirms_enabled i0" "promises i0 = (\<lambda>p. None)"
    using i by (auto simp: amqp_new_def amqp_config_default_def amqp_attach_def connect_and_declare_def connect_task_def
        drain_tasks_def start_io_thread_def adapter_install_def declare_calls_def report_def Let_def)
  obtain bs where bs: "encode_payload example_parcel table_codec (amqp_format ?cfg) (Some ack_core) = Inr bs"
    using ack_core_encodes by (auto simp: amqp_config_default_def)
  let ?i' = "fold (amqp_act example_parcel table_codec ?A) ?ev i0"
  note s0 = session_starts [OF i i0]
  have w: "wants_ack (Some ack_core)" by (simp add: wants_ack_def ack_core_def)
  have e: "encode_payload example_parcel table_codec (amqp_format (amqp_cfg i0)) (Some ack_core) = Inr bs" using bs s0 by simp
  have c: "connection i0" "channel i0" using s0 by (auto simp: session_ok_def session_inv_def)
  have l: "length (wire_log ?i') = 1" "snd (wire_log ?i' ! 0) = Some 0" "promises ?i' 0 = None"
    using s0 c n e w
    by (simp_all add: amqp_dispatch_def new_promise_def post_def drain_tasks_def publish_task_def Let_def)
  show ?thesis
    using amqp_confirm_protocol [OF i i0 refl _ refl, of ?ev example_parcel table_codec 1 False True None] l i i0 by auto
qed

end
