(* ===== verification/AmqpLifecycle.thy ===== *)
theory AmqpLifecycle
  imports Amqp
begin

text \<open>
  Attaching, detaching and flushing the AMQP adapter: the outcomes of the asynchronous declaration, what
  of one session survives into the next, and what a flush guarantees.
\<close>

section \<open>What the callbacks leave alone\<close>

definition shell :: "'r amqp_impl \<Rightarrow> (amqp_config \<times> bool \<times> bool \<times> bool \<times> bool) \<times> topology_call list \<times> string \<times> bool \<times> 64 word \<times>
    amqp_task list \<times> nat list" where
  "shell i = ((amqp_cfg i, connection i, channel i, io_thread i, sink_set i), topology i, bound_queue i,
     confirms_enabled i, next_delivery_tag i, task_queue i, dead_promises i)"

lemma shell_eq:
  "shell i = shell j \<longleftrightarrow> amqp_cfg i = amqp_cfg j \<and> connection i = connection j \<and> channel i = channel j \<and>
     io_thread i = io_thread j \<and> sink_set i = sink_set j \<and> topology i = topology j \<and> bound_queue i = bound_queue j \<and>
     confirms_enabled i = confirms_enabled j \<and> next_delivery_tag i = next_delivery_tag j \<and>
     task_queue i = task_queue j \<and> dead_promises i = dead_promises j"
  by (auto simp: shell_def)

lemma set_value_frame [simp]:
  "shell (set_value p b i) = shell i" "pending_confirms (set_value p b i) = pending_confirms i"
  "error_seen (set_value p b i) = error_seen i" "next_promise (set_value p b i) = next_promise i"
  "amqp_connected (set_value p b i) = amqp_connected i" "dead_promises (set_value p b i) = dead_promises i"
  "task_queue (set_value p b i) = task_queue i" "wire_log (set_value p b i) = wire_log i"
  by (simp_all add: set_value_def shell_def)

lemma resolve_upto_frame:
  "shell (snd (resolve_upto tag ok es i)) = shell i \<and> error_seen (snd (resolve_upto tag ok es i)) = error_seen i"
  by (induction tag ok es i rule: resolve_upto.induct) (auto simp: split_beta)

lemma resolve_confirm_frame:
  "shell (resolve_confirm tag m ok i) = shell i \<and> error_seen (resolve_confirm tag m ok i) = error_seen i"
  using resolve_upto_frame [of tag ok "pending_confirms i" i]
  by (auto simp: resolve_confirm_def shell_def split_beta Let_def set_value_def split: option.splits)

lemma onError_frame: "shell (onError m i) = shell i \<and> error_seen (onError m i)"
proof -
  have f: "shell (fold (\<lambda>e. set_value (snd e) False) es j) = shell j \<and>
      error_seen (fold (\<lambda>e. set_value (snd e) False) es j) = error_seen j" for es and j :: "'a amqp_impl"
    by (induction es arbitrary: j) simp_all
  show ?thesis
    using f [of "pending_confirms i"] by (cases m) (simp_all add: onError_def Let_def shell_def)
qed

lemma callback_frame: "shell (callback cb i) = shell i \<and> (error_seen i \<longrightarrow> error_seen (callback cb i))"
proof (cases cb)
  case (CbError m)
  then show ?thesis using onError_frame [of m i] by simp
next
  case (CbConfirm t m ok)
  then show ?thesis using resolve_confirm_frame [of t m ok i] by simp
qed (simp_all add: monitor_def onReady_def onConnected_def onClosed_def onLost_def shell_def)

lemma callback_quiet:
  assumes "pending_confirms i = []"
  shows "pending_confirms (callback cb i) = []" "promises (callback cb i) = promises i"
    "next_promise (callback cb i) = next_promise i" "dead_promises (callback cb i) = dead_promises i"
    "task_queue (callback cb i) = task_queue i"
  using assms
  by (cases cb; simp add: monitor_def onReady_def onConnected_def onClosed_def onLost_def onError_def resolve_confirm_def
      Let_def split: option.splits)+

section \<open>Declaring the topology\<close>

text \<open>A failure the library reports with an empty text.\<close>

fun blank_failure :: "declare_event \<Rightarrow> bool" where
  "blank_failure (ChannelFailed m) = (m = Some [])"
| "blank_failure (ExchangeFailed m) = (m = Some [])"
| "blank_failure (QueueFailed m) = (m = Some [])"
| "blank_failure (BindFailed m) = (m = Some [])"
| "blank_failure (ConsumeFailed m) = (m = Some [])"
| "blank_failure ev = False"

fun stage_calls :: "stage \<Rightarrow> amqp_config \<Rightarrow> string \<Rightarrow> topology_call list" where
  "stage_calls Declaring c q = []"
| "stage_calls Binding c q = [BindQueue (exchange c) q (routing_key c)]"
| "stage_calls st c q = [BindQueue (exchange c) q (routing_key c), Consume q]"

definition declare_inv ::
  "bool \<Rightarrow> topology_call list \<Rightarrow> stage \<times> string option \<times> 'r amqp_impl \<Rightarrow> bool" where
  "declare_inv blank decls = (\<lambda>(st, p, i).
     topology i = decls @ stage_calls st (amqp_cfg i) (bound_queue i) \<and> (p = Some [] \<longrightarrow> st = Consuming \<or> blank))"

lemma declare_step_inv:
  assumes "declare_inv blank decls s" and "blank_failure ev \<Longrightarrow> blank"
  shows "declare_inv blank decls (declare_step ev s)"
proof -
  obtain st p i where s: "s = (st, p, i)" by (metis prod_cases3)
  show ?thesis
  proof (cases ev)
    case (OtherCallback cb)
    then show ?thesis
      using assms callback_frame [of cb i] by (simp add: s declare_inv_def shell_eq)
  qed (use assms in \<open>cases st; auto simp: s declare_inv_def report_def split: option.splits if_splits\<close>)+
qed

lemma declare_steps_inv:
  assumes "declare_inv blank decls s" and "\<And>ev. ev \<in> set evs \<Longrightarrow> blank_failure ev \<Longrightarrow> blank"
  shows "declare_inv blank decls (fold declare_step evs s)"
proof (rule fold_invariant_set)
  show "declare_inv blank decls s" by (rule assms(1))
  show "declare_inv blank decls (declare_step ev t)" if "ev \<in> set evs" "declare_inv blank decls t" for ev t
    by (rule declare_step_inv [OF that(2) assms(2) [OF that(1)]])
qed

lemma declare_step_frame:
  assumes "declare_step ev (st, p, i) = (st', p', i')"
  shows "amqp_cfg i' = amqp_cfg i \<and> connection i' = connection i \<and> channel i' = channel i \<and> io_thread i' = io_thread i \<and>
    sink_set i' = sink_set i \<and> confirms_enabled i' = confirms_enabled i \<and> next_delivery_tag i' = next_delivery_tag i \<and>
    (error_seen i \<longrightarrow> error_seen i')"
  using assms callback_frame by (cases ev) (auto simp: shell_eq split: if_splits)

lemma declare_steps_frame:
  assumes "fold declare_step evs (st, p, i) = (st', p', i')"
  shows "amqp_cfg i' = amqp_cfg i \<and> connection i' = connection i \<and> channel i' = channel i \<and> io_thread i' = io_thread i \<and>
    sink_set i' = sink_set i \<and> confirms_enabled i' = confirms_enabled i \<and> next_delivery_tag i' = next_delivery_tag i \<and>
    (error_seen i \<longrightarrow> error_seen i')"
  using assms
proof (induction evs arbitrary: st p i)
  case (Cons ev evs)
  obtain st1 p1 i1 where e: "declare_step ev (st, p, i) = (st1, p1, i1)" by (metis prod_cases3)
  then show ?case using declare_step_frame [OF e] Cons.IH [of st1 p1 i1] Cons.prems by auto
qed simp

text \<open>Tasks left over from before run against an adapter without a channel, or send what they hold.\<close>

lemma run_task_frame:
  "amqp_cfg (run_task A t i) = amqp_cfg i \<and> connection (run_task A t i) = connection i \<and> channel (run_task A t i) = channel i \<and>
   io_thread (run_task A t i) = io_thread i \<and> sink_set (run_task A t i) = sink_set i \<and>
   confirms_enabled (run_task A t i) = confirms_enabled i \<and> error_seen (run_task A t i) = error_seen i \<and>
   task_queue (run_task A t i) = task_queue i \<and> amqp_connected (run_task A t i) = amqp_connected i"
  by (cases t) (auto simp: publish_task_def Let_def set_value_def split: option.splits publish_outcome.splits)

lemma run_tasks_frame:
  "amqp_cfg (fold (run_task A) ts i) = amqp_cfg i \<and> connection (fold (run_task A) ts i) = connection i \<and>
   channel (fold (run_task A) ts i) = channel i \<and> io_thread (fold (run_task A) ts i) = io_thread i \<and>
   sink_set (fold (run_task A) ts i) = sink_set i \<and> confirms_enabled (fold (run_task A) ts i) = confirms_enabled i \<and>
   error_seen (fold (run_task A) ts i) = error_seen i \<and> task_queue (fold (run_task A) ts i) = task_queue i \<and>
   amqp_connected (fold (run_task A) ts i) = amqp_connected i"
  by (induction ts arbitrary: i) (simp_all add: run_task_frame)

lemma drain_frame:
  "amqp_cfg (drain_tasks A i) = amqp_cfg i" "connection (drain_tasks A i) = connection i" "channel (drain_tasks A i) = channel i"
  "io_thread (drain_tasks A i) = io_thread i" "sink_set (drain_tasks A i) = sink_set i"
  "confirms_enabled (drain_tasks A i) = confirms_enabled i" "error_seen (drain_tasks A i) = error_seen i"
  "task_queue (drain_tasks A i) = []" "amqp_connected (drain_tasks A i) = amqp_connected i"
  using run_tasks_frame [of A "task_queue i" "i\<lparr>task_queue := []\<rparr>"] by (simp_all add: drain_tasks_def)

lemma shutdown_off:
  "\<not> io_thread (amqp_shutdown A ts i) \<and> \<not> channel (amqp_shutdown A ts i) \<and> \<not> connection (amqp_shutdown A ts i)"
  by (simp add: amqp_shutdown_def split_beta Let_def)

lemma amqp_install_simps [simp]:
  "amqp_cfg (adapter_install i) = amqp_cfg i" "confirms_enabled (adapter_install i) = confirms_enabled i"
  "error_seen (adapter_install i) = error_seen i" "channel (adapter_install i) = channel i"
  "task_queue (adapter_install i) = task_queue i" "next_delivery_tag (adapter_install i) = next_delivery_tag i"
  "pending_confirms (adapter_install i) = pending_confirms i" "promises (adapter_install i) = promises i"
  "next_promise (adapter_install i) = next_promise i" "dead_promises (adapter_install i) = dead_promises i"
  by (simp_all add: adapter_install_def Let_def)

lemma connect_task_ok:
  assumes "connect_task A co decl i = (Some [], i')"
  shows "co = ConnOk \<and> amqp_cfg i' = amqp_cfg i \<and> connection i' \<and> channel i' \<and> io_thread i' = io_thread i \<and>
    sink_set i' = sink_set i \<and> (error_seen i \<longrightarrow> error_seen i') \<and>
    ((\<exists>ev \<in> set decl. blank_failure ev) \<or>
     topology i' = declare_calls i @ [BindQueue (exchange (amqp_cfg i)) (bound_queue i') (routing_key (amqp_cfg i)), Consume (bound_queue i')])"
proof -
  have co: "co = ConnOk"
    using assms by (cases co) (auto simp: connect_task_def connect_error_def Let_def split: if_splits)
  let ?k = "(drain_tasks A i)\<lparr>connection := True, channel := True, topology := declare_calls (drain_tasks A i)\<rparr>"
  let ?b = "\<exists>ev \<in> set decl. blank_failure ev"
  have dc: "declare_calls (drain_tasks A i) = declare_calls i" by (simp add: declare_calls_def drain_frame)
  obtain st where f: "fold declare_step decl (Declaring, None, ?k) = (st, Some [], i')"
    using assms co by (cases "fold declare_step decl (Declaring, None, ?k)") (auto simp: connect_task_def Let_def)
  have "declare_inv ?b (declare_calls i) (Declaring, None, ?k)" by (simp add: declare_inv_def dc)
  then have "declare_inv ?b (declare_calls i) (st, Some [], i')"
    using declare_steps_inv [of ?b "declare_calls i" "(Declaring, None, ?k)" decl] f by auto
  then show ?thesis
    using co declare_steps_frame [OF f] by (auto simp: declare_inv_def drain_frame)
qed

lemma declare_error_seen:
  assumes "fold declare_step evs (st, p, i) = (st', p', i')" and "OtherCallback (CbError m) \<in> set evs"
  shows "error_seen i'"
  using assms
proof (induction evs arbitrary: st p i)
  case (Cons ev evs)
  obtain st1 p1 i1 where e: "declare_step ev (st, p, i) = (st1, p1, i1)" by (metis prod_cases3)
  then have f: "fold declare_step evs (st1, p1, i1) = (st', p', i')" using Cons.prems(1) by simp
  show ?case
  proof (cases "ev = OtherCallback (CbError m)")
    case True
    then have "error_seen i1" using e by (auto simp: onError_frame)
    then show ?thesis using declare_steps_frame [OF f] by simp
  next
    case False
    then show ?thesis using Cons.IH [OF f] Cons.prems(2) by auto
  qed
qed simp

lemma connect_task_error:
  assumes "connect_task A co decl i = (Some [], i')" and "OtherCallback (CbError m) \<in> set decl"
  shows "error_seen i'"
proof -
  let ?k = "(drain_tasks A i)\<lparr>connection := True, channel := True, topology := declare_calls (drain_tasks A i)\<rparr>"
  have "co = ConnOk" using connect_task_ok [OF assms(1)] by simp
  then obtain st where "fold declare_step decl (Declaring, None, ?k) = (st, Some [], i')"
    using assms(1) by (cases "fold declare_step decl (Declaring, None, ?k)") (auto simp: connect_task_def Let_def)
  then show ?thesis using assms(2) by (rule declare_error_seen)
qed

lemma amqp_attach_sink:
  assumes "amqp_attach A co decl ts i = (None, i')"
  shows "sink_set i'"
proof -
  let ?j = "start_io_thread (adapter_install i)"
  have "connect_task A co decl ?j = (Some [], i')"
    using assms by (auto simp: amqp_attach_def connect_and_declare_def split: prod.splits option.splits if_splits)
  then show ?thesis using connect_task_ok [of A co decl ?j i'] by (simp add: start_io_thread_def Let_def)
qed

interpretation amqp: adapter_sink "\<lambda>(co, decl, ts). amqp_attach A co decl ts" "amqp_detach A turns" sink_set for A turns
  by unfold_locales (auto simp: amqp_attach_sink amqp_detach_def adapter_uninstall_def)

section \<open>Properties\<close>

text \<open>
  C28: the outcomes of an AMQP attach. It either returns, and then the connection and the channel exist,
  the IO thread runs, no connection error has been seen on this adapter, before or during the attach, and the topology was declared completely (exchange, queue,
  confirms if asked for, binding with the routing key, consumer on the bound queue), unless the
  library reported a failure with an empty text; or it throws \<^verbatim>\<open>AmqpError\<close> and the thread, channel and connection are gone and a
  dispatch does nothing. In particular an adapter that once saw a connection error can never be
  attached again.
\<close>

theorem amqp_attach_outcomes:
  "case amqp_attach A co decl ts i of
     (None, i') \<Rightarrow>
       co = ConnOk \<and> connection i' \<and> channel i' \<and> io_thread i' \<and> sink_set i' \<and> \<not> error_seen i \<and> \<not> error_seen i' \<and>
       (\<forall>m. OtherCallback (CbError m) \<notin> set decl) \<and>
       ((\<exists>ev \<in> set decl. blank_failure ev) \<or>
        topology i' =
          [DeclareExchange (exchange (amqp_cfg i)) (exchange_kind_of (exchange_type (amqp_cfg i)))
             (exchange_durable (amqp_cfg i)) (exchange_auto_delete (amqp_cfg i)),
           DeclareQueue (amqp_queue (amqp_cfg i)) (queue_durable (amqp_cfg i)) (queue_exclusive (amqp_cfg i))
             (queue_auto_delete (amqp_cfg i))] @
          (if confirms_enabled i then [ConfirmSelect] else []) @
          [BindQueue (exchange (amqp_cfg i)) (bound_queue i') (routing_key (amqp_cfg i)), Consume (bound_queue i')])
   | (Some e, i') \<Rightarrow>
       exn_kind e = AmqpError \<and> \<not> io_thread i' \<and> \<not> channel i' \<and> \<not> connection i' \<and>
       amqp_dispatch P X v i' = (None, i')"
proof -
  let ?j = "start_io_thread (adapter_install i)"
  have j: "amqp_cfg ?j = amqp_cfg i" "declare_calls ?j = declare_calls i" "io_thread ?j" "sink_set ?j"
    "error_seen ?j = error_seen i"
    by (simp_all add: start_io_thread_def declare_calls_def Let_def)
  obtain r i1 where c: "connect_and_declare A co decl ?j = (r, i1)" by fastforce
  show ?thesis
  proof (cases r)
    case None
    then have t: "connect_task A co decl ?j = (Some [], i1)" and e: "\<not> error_seen i1"
      using c by (auto simp: connect_and_declare_def split: prod.splits option.splits if_splits)
    show ?thesis
      using None c e connect_task_ok [OF t] connect_task_error [OF t] j
      by (auto simp: amqp_attach_def declare_calls_def Let_def)
  next
    case (Some e)
    then have "exn_kind e = AmqpError"
      using c by (auto simp: connect_and_declare_def split: prod.splits option.splits if_splits)
    then show ?thesis using Some c shutdown_off [of A ts i1] by (simp add: amqp_attach_def amqp_dispatch_def)
  qed
qed

theorem amqp_attach_outcomes_witness:
  "\<exists>i i' :: descriptor list amqp_impl.
     amqp_new False True ''01H'' (amqp_config_default ''amqp://h'') None = Inr i \<and>
     amqp_attach (\<lambda>t m. Accepted) ConnOk [QueueDeclared ''q'', QueueBound, ConsumeStarted] [] i = (None, i') \<and>
     topology i' = [DeclareExchange ''conduit'' ExTopic True False, DeclareQueue [] False True True,
       BindQueue ''conduit'' ''q'' ''conduit.envelope'', Consume ''q'']"
proof -
  obtain i :: "descriptor list amqp_impl" where i: "amqp_new False True ''01H'' (amqp_config_default ''amqp://h'') None = Inr i"
    by (simp add: amqp_new_def amqp_config_default_def Let_def)
  obtain i' where i': "amqp_attach (\<lambda>t m. Accepted) ConnOk [QueueDeclared ''q'', QueueBound, ConsumeStarted] [] i = (None, i')"
    and q: "bound_queue i' = ''q''"
    using i by (auto simp: amqp_new_def amqp_config_default_def amqp_attach_def connect_and_declare_def connect_task_def
        drain_tasks_def start_io_thread_def adapter_install_def report_def Let_def)
  have d: "amqp_cfg i = (amqp_config_default ''amqp://h'')\<lparr>connection_name := ''conduit-'' @ ''01H''\<rparr>" "\<not> confirms_enabled i"
    using i by (auto simp: amqp_new_def amqp_config_default_def Let_def)
  show ?thesis
    using amqp_attach_outcomes [where A = "\<lambda>t m. Accepted" and co = ConnOk and i = i and ts = "[]" and P = example_parcel
        and decl = "[QueueDeclared ''q'', QueueBound, ConsumeStarted]" and X = table_codec and v = "Some example_core"]
      i i' q d by (auto simp: amqp_config_default_def exchange_kind_of_def)
qed

lemma declare_steps_quiet:
  assumes "fold declare_step evs (st, p, i) = (st', p', i')" and "pending_confirms i = []"
  shows "pending_confirms i' = [] \<and> promises i' = promises i \<and> next_promise i' = next_promise i \<and> task_queue i' = task_queue i"
  using assms
proof (induction evs arbitrary: st p i)
  case (Cons ev evs)
  obtain st1 p1 i1 where e: "declare_step ev (st, p, i) = (st1, p1, i1)" by (metis prod_cases3)
  have "pending_confirms i1 = [] \<and> promises i1 = promises i \<and> next_promise i1 = next_promise i \<and> task_queue i1 = task_queue i"
    using e Cons.prems(2) callback_quiet [OF Cons.prems(2)] by (cases ev) (auto split: if_splits)
  then show ?case using Cons.IH [of st1 p1 i1] Cons.prems(1) e by simp
qed simp

lemma reattach_keeps:
  assumes "amqp_attach A co decl ts i = (None, i1)" and "task_queue i = []" and "pending_confirms i = []"
  shows "next_delivery_tag i1 = next_delivery_tag i \<and> pending_confirms i1 = [] \<and> promises i1 = promises i \<and>
    next_promise i1 = next_promise i \<and> task_queue i1 = [] \<and> connection i1 \<and> channel i1 \<and>
    confirms_enabled i1 = confirms_enabled i \<and> amqp_cfg i1 = amqp_cfg i"
proof -
  let ?j = "start_io_thread (adapter_install i)"
  have c: "connect_task A co decl ?j = (Some [], i1)"
    using assms(1) by (auto simp: amqp_attach_def connect_and_declare_def split: prod.splits option.splits if_splits)
  have d: "drain_tasks A ?j = ?j" using assms(2) by (simp add: drain_tasks_def start_io_thread_def)
  let ?k = "?j\<lparr>connection := True, channel := True, topology := declare_calls ?j\<rparr>"
  have "co = ConnOk" using connect_task_ok [OF c] by simp
  then obtain st where f: "fold declare_step decl (Declaring, None, ?k) = (st, Some [], i1)"
    using c d by (cases "fold declare_step decl (Declaring, None, ?k)") (auto simp: connect_task_def Let_def)
  show ?thesis
    using declare_steps_frame [OF f] declare_steps_quiet [OF f] assms(2,3) by (simp add: start_io_thread_def)
qed

text \<open>
  C29: the delivery-tag counter survives a reattach. An adapter that has numbered messages in one session
  and is attached again goes on counting, while the broker numbers the messages of the new channel
  from one: the first message published after the reattach waits under the old counter, and the
  broker's acknowledgement of it, number one, resolves nothing.
\<close>

theorem amqp_reattach_miscounts:
  assumes "amqp_attach A co decl ts i = (None, i1)" and "task_queue i = []" and "pending_confirms i = []"
    and "promises i (next_promise i) = None" and "confirms_enabled i" and "wants_ack v"
    and "encode_payload P X (amqp_format (amqp_cfg i)) v = Inr bs" and "\<And>t m. A t m = Accepted"
    and "next_delivery_tag i \<noteq> 1" and "i2 = drain_tasks A (snd (amqp_dispatch P X v i1))"
  shows "(\<exists>m. wire_log i2 = wire_log i1 @ [(m, Some (next_promise i))] \<and> am_body m = bs) \<and>
    pending_confirms i2 = [(next_delivery_tag i, next_promise i)] \<and>
    promises (resolve_confirm 1 False ok i2) (next_promise i) = None"
proof -
  note r = reattach_keeps [OF assms(1-3)]
  have i2: "i2 = publish_task A bs (content_type_of (amqp_format (amqp_cfg i))) (Some (next_promise i))
      (i1\<lparr>next_promise := next_promise i + 1, task_queue := []\<rparr>)"
    using r assms(5-7) by (simp add: assms(10) amqp_dispatch_def new_promise_def post_def drain_tasks_def Let_def)
  show ?thesis
    using r assms(4,8,9) by (simp add: i2 publish_task_def emplace_def resolve_confirm_def Let_def)
qed

theorem amqp_reattach_miscounts_witness:
  "\<exists>(i :: descriptor list amqp_impl) i1.
     amqp_new False True ''01H'' (amqp_config_default ''amqp://h''\<lparr>publisher_confirms := True\<rparr>) None = Inr i \<and>
     amqp_attach (\<lambda>t m. Accepted) ConnOk [QueueDeclared ''q'', QueueBound, ConsumeStarted] [] (i\<lparr>next_delivery_tag := 4\<rparr>) = (None, i1) \<and>
     promises (resolve_confirm 1 False True (drain_tasks (\<lambda>t m. Accepted)
       (snd (amqp_dispatch example_parcel table_codec (Some ack_core) i1)))) 0 = None"
proof -
  obtain i :: "descriptor list amqp_impl"
    where i: "amqp_new False True ''01H'' (amqp_config_default ''amqp://h''\<lparr>publisher_confirms := True\<rparr>) None = Inr i"
      "task_queue i = []" "pending_confirms i = []" "promises i = (\<lambda>p. None)" "next_promise i = 0" "confirms_enabled i"
      "amqp_format (amqp_cfg i) = Cbor"
    by (simp add: amqp_new_def amqp_config_default_def Let_def)
  let ?i = "i\<lparr>next_delivery_tag := 4\<rparr>"
  obtain i1 where i1: "amqp_attach (\<lambda>t m. Accepted) ConnOk [QueueDeclared ''q'', QueueBound, ConsumeStarted] [] ?i = (None, i1)"
    using i(1) by (auto simp: amqp_new_def amqp_config_default_def amqp_attach_def connect_and_declare_def connect_task_def
        drain_tasks_def start_io_thread_def adapter_install_def report_def Let_def)
  obtain bs where bs: "encode_payload example_parcel table_codec Cbor (Some ack_core) = Inr bs" using ack_core_encodes by blast
  have w: "wants_ack (Some ack_core)" by (simp add: wants_ack_def ack_core_def)
  show ?thesis
    using amqp_reattach_miscounts [OF i1 _ _ _ _ w, of example_parcel table_codec bs _ True] i i1 bs by auto
qed

lemma run_task_dead: "dead_promises (run_task A t i) = dead_promises i"
  by (cases t) (auto simp: publish_task_def Let_def set_value_def split: option.splits publish_outcome.splits)

lemma io_loop_drains: "ts \<noteq> [] \<or> task_queue i = [] \<Longrightarrow> task_queue (io_loop A ts i) = []"
proof (induction A ts i rule: io_loop.induct)
  case (5 A revents cbs ts i)
  have "task_queue (fold callback cbs j) = task_queue j" for j :: "'a amqp_impl"
    by (rule fold_keeps_field) (use callback_frame in \<open>auto simp: shell_eq\<close>)
  then show ?case using 5 by (simp add: Let_def drain_frame)
qed (simp_all add: drain_frame Let_def)

text \<open>
  C30: what a flush of the AMQP adapter guarantees. If the IO thread makes a turn within the second the
  caller waits, every task posted before is done when the flush returns. Otherwise, and always when
  the adapter is not attached, the flush returns with its own task still queued, and the next time the queue is drained that
  task writes to a promise that no longer exists.
\<close>

theorem amqp_flush_effect:
  "if io_thread i \<and> ts \<noteq> [] then task_queue (amqp_flush A ts i) = []
   else next_promise i \<in> set (dangling_writes (drain_tasks B (amqp_flush A ts i)))"
proof (cases "io_thread i \<and> ts \<noteq> []")
  case True
  then show ?thesis
    using io_loop_drains [of ts "i\<lparr>next_promise := next_promise i + 1, task_queue := task_queue i @ [FlushTask (next_promise i)]\<rparr>" A]
    by (simp add: amqp_flush_def new_promise_def post_def Let_def)
next
  case False
  let ?p = "next_promise i"
  let ?j = "i\<lparr>next_promise := ?p + 1, task_queue := task_queue i @ [FlushTask ?p], dead_promises := ?p # dead_promises i\<rparr>"
  have "amqp_flush A ts i = ?j"
    using False by (cases ts) (auto simp: amqp_flush_def new_promise_def post_def Let_def)
  moreover have "dead_promises (fold (run_task B) us k) = dead_promises k" for us and k :: "'a amqp_impl"
    by (rule fold_keeps_field) (rule run_task_dead)
  ultimately show ?thesis using False by (auto simp: drain_tasks_def set_value_def)
qed

end
