(* ===== verification/AmqpWakeup.thy ===== *)
theory AmqpWakeup
  imports Amqp
begin

text \<open>
  \<^verbatim>\<open>transports/amqp/src/transport.cpp\<close>: how a posted task wakes the IO thread. Posting appends to the
  queue under the lock and then writes a byte to a non-blocking pipe; the IO thread drains the queue,
  polls the pipe and the connection, and empties the pipe. The theory interleaves any number of posting threads
  with the IO thread, one step per critical section or system call, and shows that no task has to wait
  for the poll's timeout.
\<close>

section \<open>The pipe\<close>

text \<open>
  \<open>n\<close> is the number of bytes in the pipe and \<open>cap\<close> what it holds. \<^verbatim>\<open>wake\<close> repeats the write as often as it is
  interrupted, here \<open>k\<close> times; a write to a full pipe fails with \<^verbatim>\<open>EAGAIN\<close>, which ends the loop too.
\<close>

definition write_byte :: "nat \<Rightarrow> nat \<Rightarrow> nat" where
  "write_byte cap n = (if n < cap then n + 1 else n)"

fun wake :: "bool \<Rightarrow> nat \<Rightarrow> nat \<Rightarrow> nat \<Rightarrow> nat" where
  "wake pipe_open cap 0 n = (if \<not> pipe_open then n else write_byte cap n)"
| "wake pipe_open cap (Suc k) n = (if \<not> pipe_open then n else wake pipe_open cap k n)"

text \<open>One \<^verbatim>\<open>read\<close> into the buffer of 64 bytes, and the loop with no writer in between.\<close>

definition read_chunk :: "nat \<Rightarrow> nat" where
  "read_chunk n = n - min 64 n"

function drain_wakeup_pipe :: "nat \<Rightarrow> nat" where
  "drain_wakeup_pipe n = (if n = 0 then 0 else drain_wakeup_pipe (read_chunk n))"
  by pat_completeness auto
termination by (relation "measure id") (auto simp: read_chunk_def)

section \<open>Posting threads and the IO thread\<close>

text \<open>
  Where the IO thread is: before the swap in \<^verbatim>\<open>drain_tasks\<close>, running the swapped-out tasks, in \<^verbatim>\<open>poll\<close>, emptying
  the pipe, or out of the loop.
\<close>

datatype 'x io_place = AtSwap | Running "'x list" | AtPoll | AtRead | Left

record 'x wakeup =
  task_list :: "'x list"
  pipe_bytes :: nat
  waking :: nat
  place :: "'x io_place"
  stopping :: bool
  poll_failed :: bool
  posted :: "'x list"
  ran :: "'x list"

definition wakeup_start :: "'x wakeup" where
  "wakeup_start = \<lparr>task_list = [], pipe_bytes = 0, waking = 0, place = AtSwap, stopping = False, poll_failed = False,
     posted = [], ran = []\<rparr>"

text \<open>
  The steps that need no timer: a poster's write after its push, and all of the IO thread's own. \<open>waking\<close> counts the
  threads between the two halves of \<^verbatim>\<open>post\<close>, or between \<^verbatim>\<open>request_stop\<close> and its \<^verbatim>\<open>wake\<close>.
\<close>

inductive io_step :: "nat \<Rightarrow> 'x wakeup \<Rightarrow> 'x wakeup \<Rightarrow> bool" for cap where
  wake_up: "0 < waking s \<Longrightarrow> io_step cap s (s\<lparr>waking := waking s - 1, pipe_bytes := wake True cap k (pipe_bytes s)\<rparr>)"
| swap: "place s = AtSwap \<Longrightarrow> \<not> stopping s \<Longrightarrow> io_step cap s (s\<lparr>place := Running (task_list s), task_list := []\<rparr>)"
| loop_ends: "place s = AtSwap \<Longrightarrow> stopping s \<Longrightarrow> io_step cap s (s\<lparr>place := Left\<rparr>)"
| run: "place s = Running (x # xs) \<Longrightarrow> io_step cap s (s\<lparr>place := Running xs, ran := ran s @ [x]\<rparr>)"
| ran_all: "place s = Running [] \<Longrightarrow> \<not> stopping s \<Longrightarrow> io_step cap s (s\<lparr>place := AtPoll\<rparr>)"
| stop_seen: "place s = Running [] \<Longrightarrow> stopping s \<Longrightarrow> io_step cap s (s\<lparr>place := Left\<rparr>)"
| poll_in: "place s = AtPoll \<Longrightarrow> 0 < pipe_bytes s \<Longrightarrow> io_step cap s (s\<lparr>place := AtRead\<rparr>)"
| read: "place s = AtRead \<Longrightarrow> 0 < pipe_bytes s \<Longrightarrow> io_step cap s (s\<lparr>pipe_bytes := read_chunk (pipe_bytes s)\<rparr>)"
| read_empty: "place s = AtRead \<Longrightarrow> pipe_bytes s = 0 \<Longrightarrow> io_step cap s (s\<lparr>place := AtSwap\<rparr>)"

text \<open>
  What comes from outside: a push, a request to stop, the timeout or the connection ending a poll, a signal
  interrupting a poll or a read, and a poll that fails for good.
\<close>

inductive env_step :: "'x wakeup \<Rightarrow> 'x wakeup \<Rightarrow> bool" where
  push: "env_step s (s\<lparr>task_list := task_list s @ [x], posted := posted s @ [x], waking := waking s + 1\<rparr>)"
| request_stop: "env_step s (s\<lparr>stopping := True, waking := waking s + 1\<rparr>)"
| poll_other: "place s = AtPoll \<Longrightarrow> pipe_bytes s = 0 \<Longrightarrow> env_step s (s\<lparr>place := AtSwap\<rparr>)"
| poll_interrupted: "place s = AtPoll \<Longrightarrow> env_step s (s\<lparr>place := AtSwap\<rparr>)"
| poll_fails: "place s = AtPoll \<Longrightarrow> env_step s (s\<lparr>place := Left, poll_failed := True\<rparr>)"
| read_interrupted: "place s = AtRead \<Longrightarrow> env_step s (s\<lparr>place := AtSwap\<rparr>)"

inductive_cases io_stepE: "io_step cap s s'"
inductive_cases env_stepE: "env_step s s'"

definition wakeup_step :: "nat \<Rightarrow> 'x wakeup \<Rightarrow> 'x wakeup \<Rightarrow> bool" where
  "wakeup_step cap s s' \<longleftrightarrow> io_step cap s s' \<or> env_step s s'"

section \<open>The invariant and the work left\<close>

fun batch :: "'x io_place \<Rightarrow> 'x list" where
  "batch (Running xs) = xs"
| "batch p = []"

text \<open>Work the IO thread does not know of yet announces itself through the pipe.\<close>

definition wakeup_ok :: "'x wakeup \<Rightarrow> bool" where
  "wakeup_ok s \<longleftrightarrow>
     posted s = ran s @ batch (place s) @ task_list s \<and>
     (task_list s \<noteq> [] \<and> (place s = AtPoll \<or> batch (place s) \<noteq> [] \<or> place s = Running []) \<longrightarrow> 0 < waking s \<or> 0 < pipe_bytes s) \<and>
     (stopping s \<and> place s = AtPoll \<longrightarrow> 0 < waking s \<or> 0 < pipe_bytes s) \<and>
     (place s = Left \<longrightarrow> stopping s \<or> poll_failed s)"

fun place_rank :: "bool \<Rightarrow> 'x io_place \<Rightarrow> nat" where
  "place_rank full Left = 0"
| "place_rank full AtRead = (if full then 1 else 4)"
| "place_rank full AtPoll = (if full then 2 else 0)"
| "place_rank full (Running xs) = (if full then 3 else 2) + length xs"
| "place_rank full AtSwap = (if full then 4 else 3)"

definition wakeup_work :: "'x wakeup \<Rightarrow> nat" where
  "wakeup_work s = 20 * waking s + 10 * pipe_bytes s + place_rank (0 < pipe_bytes s) (place s) + length (task_list s)"

section \<open>Lemmas\<close>

lemma wake_eq: "wake pipe_open cap k n = (if pipe_open then write_byte cap n else n)"
  by (induction k) auto

declare wake.simps [simp del]

lemma drain_wakeup_pipe_empties: "drain_wakeup_pipe n = 0"
  by (induction n rule: drain_wakeup_pipe.induct) simp

declare drain_wakeup_pipe.simps [simp del]

lemma io_step_ok: "0 < cap \<Longrightarrow> io_step cap s s' \<Longrightarrow> wakeup_ok s \<Longrightarrow> wakeup_ok s'"
  by (erule io_stepE) (auto simp: wakeup_ok_def wake_eq write_byte_def)

lemma env_step_ok: "env_step s s' \<Longrightarrow> wakeup_ok s \<Longrightarrow> wakeup_ok s'"
  by (erule env_stepE) (auto simp: wakeup_ok_def)

lemma io_step_work:
  assumes "io_step cap s s'"
  shows "wakeup_work s' < wakeup_work s"
  using assms
proof (cases rule: io_step.cases)
  case (wake_up k)
  then show ?thesis by (cases "place s") (auto simp: wakeup_work_def wake_eq write_byte_def)
qed (auto simp: wakeup_work_def read_chunk_def)

lemma wakeup_reach_ok:
  assumes "0 < cap" and "(wakeup_step cap)\<^sup>*\<^sup>* wakeup_start s"
  shows "wakeup_ok s"
  using assms(2)
proof (induction rule: rtranclp_induct)
  case base
  then show ?case by (simp add: wakeup_ok_def wakeup_start_def)
next
  case (step s s')
  then show ?case using io_step_ok [OF assms(1)] env_step_ok by (auto simp: wakeup_step_def)
qed

lemma io_steps_keep:
  "(io_step cap)\<^sup>*\<^sup>* s s' \<Longrightarrow> posted s' = posted s \<and> stopping s' = stopping s \<and> poll_failed s' = poll_failed s"
  by (induction rule: rtranclp_induct) (auto elim!: io_stepE)

lemma io_steps_ok: "(io_step cap)\<^sup>*\<^sup>* s s' \<Longrightarrow> 0 < cap \<Longrightarrow> wakeup_ok s \<Longrightarrow> wakeup_ok s'"
  by (induction rule: rtranclp_induct) (auto intro: io_step_ok)

lemma io_settles: "\<exists>s'. (io_step cap)\<^sup>*\<^sup>* s s' \<and> \<not> (\<exists>s''. io_step cap s' s'')"
proof (induction "wakeup_work s" arbitrary: s rule: less_induct)
  case less
  show ?case
  proof (cases "\<exists>s1. io_step cap s s1")
    case True
    then obtain s1 where s1: "io_step cap s s1" by blast
    then show ?thesis using less [OF io_step_work [OF s1]] by (meson converse_rtranclp_into_rtranclp)
  qed blast
qed

lemma io_settled:
  assumes "\<not> (\<exists>s'. io_step cap s s')" and "wakeup_ok s"
  shows "waking s = 0 \<and> (place s = Left \<or> place s = AtPoll \<and> task_list s = [] \<and> \<not> stopping s)"
proof -
  have w: "waking s = 0" using assms(1) wake_up by blast
  consider "place s = Left" | "place s = AtPoll" "pipe_bytes s = 0"
    using assms(1) by (cases "place s") (metis io_step.intros neq0_conv list.exhaust)+
  then show ?thesis using w assms(2) by cases (auto simp: wakeup_ok_def)
qed

section \<open>Properties\<close>

text \<open>
  C9: no wake-up of the AMQP IO thread is lost. However posting threads, stop requests, timeouts, signals and
  connection events interleave, tasks run in the order they were posted; when the IO thread sits in \<^verbatim>\<open>poll\<close> with an
  empty pipe and no poster is between its push and its write, there is no task and no stop request it has not seen.
  Without any timeout the thread settles after finitely many steps, whichever are taken, and then it has run every posted task, or has
  left the loop if it was told to stop.
\<close>

theorem amqp_no_lost_wakeup:
  assumes "0 < cap" and "(wakeup_step cap)\<^sup>*\<^sup>* wakeup_start s"
  shows "posted s = ran s @ batch (place s) @ task_list s \<and>
    (place s = AtPoll \<and> pipe_bytes s = 0 \<and> waking s = 0 \<longrightarrow> task_list s = [] \<and> \<not> stopping s) \<and>
    (\<forall>s1 s2. io_step cap s1 s2 \<longrightarrow> wakeup_work s2 < wakeup_work s1) \<and>
    (\<exists>s'. (io_step cap)\<^sup>*\<^sup>* s s' \<and> \<not> (\<exists>s''. io_step cap s' s'')) \<and>
    (\<forall>s'. (io_step cap)\<^sup>*\<^sup>* s s' \<and> \<not> (\<exists>s''. io_step cap s' s'') \<longrightarrow>
       (stopping s \<longrightarrow> place s' = Left) \<and> (\<not> stopping s \<and> \<not> poll_failed s \<longrightarrow> ran s' = posted s))"
proof -
  have ok: "wakeup_ok s" by (rule wakeup_reach_ok [OF assms])
  have settled: "(stopping s \<longrightarrow> place s' = Left) \<and> (\<not> stopping s \<and> \<not> poll_failed s \<longrightarrow> ran s' = posted s)"
    if "(io_step cap)\<^sup>*\<^sup>* s s'" "\<not> (\<exists>s''. io_step cap s' s'')" for s'
    using io_settled [OF that(2) io_steps_ok [OF that(1) assms(1) ok]] io_steps_ok [OF that(1) assms(1) ok]
      io_steps_keep [OF that(1)]
    by (auto simp: wakeup_ok_def)
  show ?thesis
    by (intro conjI allI impI settled io_settles io_step_work) (use ok in \<open>auto simp: wakeup_ok_def\<close>)
qed

theorem amqp_no_lost_wakeup_witness:
  "\<exists>s'. (io_step 65536)\<^sup>*\<^sup>* (wakeup_start\<lparr>task_list := [7 :: nat], posted := [7], waking := 1\<rparr>) s' \<and> ran s' = [7]"
proof -
  let ?s = "wakeup_start\<lparr>task_list := [7 :: nat], posted := [7], waking := 1\<rparr>"
  have "(wakeup_step 65536)\<^sup>*\<^sup>* wakeup_start ?s"
    using env_step.push [of wakeup_start "7 :: nat"] by (intro r_into_rtranclp) (simp add: wakeup_step_def wakeup_start_def)
  moreover have "(0 :: nat) < 65536" by simp
  ultimately show ?thesis
    using amqp_no_lost_wakeup [of 65536 ?s] by (auto simp: wakeup_start_def)
qed

end
