(* ===== verification/Platform.thy ===== *)
theory Platform
  imports Registry
begin

text \<open>
  What the example programs use besides the library: the parcel library, clock and ULIDs they run with, what
  \<^verbatim>\<open>operator<<\<close> and \<^verbatim>\<open>std::to_string\<close> print, and the members of the events they define.
\<close>

section \<open>The platform\<close>

text \<open>Printed are ULIDs, JSON documents and floating-point numbers (mantissa and decimal exponent).\<close>

record 'r platform =
  lib :: "'r parcel_lib"
  clock_at :: "nat \<Rightarrow> time_point"
  fresh_ulid :: "env \<Rightarrow> ulid"
  ulid_text :: "ulid \<Rightarrow> string"
  json_text :: "json \<Rightarrow> string"
  double_text :: "int \<Rightarrow> int \<Rightarrow> string"

text \<open>\<^verbatim>\<open>std::cout << n\<close> for an \<^verbatim>\<open>int\<close>.\<close>

fun show_nat :: "nat \<Rightarrow> string" where
  "show_nat n = (if n < 10 then [char_of (48 + n)] else show_nat (n div 10) @ [char_of (48 + n mod 10)])"

declare show_nat.simps [simp del]

definition show_int :: "int \<Rightarrow> string" where
  "show_int i = (if i < 0 then CHR ''-'' # show_nat (nat (- i)) else show_nat (nat i))"

text \<open>The members of a payload.\<close>

definition member_of :: "string \<Rightarrow> cell \<Rightarrow> json" where
  "member_of k c = (case contents c of JObject m \<Rightarrow> (case map_of m k of Some j \<Rightarrow> j | None \<Rightarrow> JNull) | _ \<Rightarrow> JNull)"

definition text_member :: "string \<Rightarrow> cell \<Rightarrow> string" where
  "text_member k c = (case member_of k c of JString x \<Rightarrow> x | _ \<Rightarrow> [])"

definition int_member :: "string \<Rightarrow> cell \<Rightarrow> int" where
  "int_member k c = (case member_of k c of JInt i \<Rightarrow> i | _ \<Rightarrow> 0)"

definition double_member :: "'r platform \<Rightarrow> string \<Rightarrow> cell \<Rightarrow> string" where
  "double_member E k c = (case member_of k c of JFloat m e \<Rightarrow> double_text E m e | _ \<Rightarrow> [])"

text \<open>An event type with no default flags, named by its C++ type and its event name.\<close>

definition plain_event :: "string \<Rightarrow> string \<Rightarrow> event_type" where
  "plain_event T n = \<lparr>type_id = T, event_name_v = n, traits_default_flags = [], mixin_default_flags = None\<rparr>"

end
