(* ===== verification/Examples.thy ===== *)
theory Examples
  imports LocalBus Relay Subscribers Platform
begin

text \<open>
  The programs under \<^verbatim>\<open>examples/\<close>, run on the model: the bus, the local transport in its three modes, the relay and the
  filtered transport, middleware and subscribers, put together as each \<^verbatim>\<open>main\<close> does and down to the destructors
  at its end. What a program writes to \<^verbatim>\<open>std::cout\<close> is a list of lines in the state.
\<close>

section \<open>The lambdas and classes of the programs\<close>

datatype fn =
    PrintHello
  | PrintThread
  | CountHit
  | AddJob
  | PrintTick
  | PrintSaw
  | PrintCreated
  | PrintShipped
  | PrintOrder
  | ThrowOnZero

datatype mw = LoggingMW | DropAll

datatype leaf = LocalLeaf | FakeRemote | RelayLeaf

datatype pred = OrderNames

datatype cb = PrintRelayedName | PrintRelayedJson

text \<open>
  The state of a program: the bus and its wiring, the output, the counters its lambdas capture by reference, whether
  the current thread is a pool worker, and the members of its relay transport.
\<close>

record 'r program = "(fn, mw, leaf, pred, 'r) pooled" +
  stdout :: "string list"
  counter :: int
  remote_count :: int
  on_worker :: bool
  relay_routes :: "cb Route list"
  relay_next_id :: "64 word"

definition print :: "string \<Rightarrow> 'r program \<Rightarrow> 'r program" where
  "print line s = s\<lparr>stdout := stdout s @ [line]\<rparr>"

fun call_with_payload :: "'r platform \<Rightarrow> fn \<Rightarrow> cell \<Rightarrow> 'r program \<Rightarrow> exn option \<times> 'r program" where
  "call_with_payload E PrintHello c s = (None, print (''hello, '' @ text_member ''who'' c) s)"
| "call_with_payload E PrintThread c s = (None, print (if \<not> on_worker s then ''inline'' else ''background'') s)"
| "call_with_payload E CountHit c s = (None, s\<lparr>counter := counter s + 1\<rparr>)"
| "call_with_payload E AddJob c s = (None, s\<lparr>counter := counter s + int_member ''id'' c\<rparr>)"
| "call_with_payload E PrintTick c s = (None, print (''   n='' @ show_int (int_member ''n'' c)) s)"
| "call_with_payload E PrintCreated c s = (None, print (''created '' @ text_member ''id'' c) s)"
| "call_with_payload E PrintShipped c s = (None, print (''shipped '' @ text_member ''id'' c) s)"
| "call_with_payload E ThrowOnZero c s =
     (if int_member ''id'' c = 0 then Some (Exn ForeignStdException ''boom'') else None, s)"
| "call_with_payload E _ c s = (None, s)"

fun call_with_envelope :: "'r platform \<Rightarrow> fn \<Rightarrow> env \<Rightarrow> 'r program \<Rightarrow> exn option \<times> 'r program" where
  "call_with_envelope E PrintSaw v s = (None, print (''saw '' @ name_of v s) s)"
| "call_with_envelope E PrintOrder v s =
     (case payload_as (\<lambda>a b. a = b) (plain_event ''OrderCreated'' ''order.created'') (cores s v) of
        Some p \<Rightarrow> (None, print (''id='' @ ulid_text E (core_id (core_at v s)) @ '' order_id='' @ text_member ''order_id'' p @
          '' total='' @ double_member E ''total'' p) s)
      | None \<Rightarrow> (None, s))"
| "call_with_envelope E _ v s = (None, s)"

fun before_mw :: "'r platform \<Rightarrow> mw \<Rightarrow> env \<Rightarrow> 'r program \<Rightarrow> bool throws \<times> env \<times> 'r program" where
  "before_mw E LoggingMW v s =
     (Inr True, v, print (''>> '' @ name_of v s @ '' id='' @ ulid_text E (core_id (core_at v s))) s)"
| "before_mw E DropAll v s = (Inr False, v, s)"

fun after_mw :: "'r platform \<Rightarrow> mw \<Rightarrow> env \<Rightarrow> 'r program \<Rightarrow> exn option \<times> env \<times> 'r program" where
  "after_mw E LoggingMW v s = (None, v, print (''<< '' @ name_of v s) s)"
| "after_mw E DropAll v s = (None, v, s)"

text \<open>The relay transport of a program, as a view on its state.\<close>

definition relay_view :: "'r program \<Rightarrow> (cb, 'r program) relay_scheme" where
  "relay_view s = \<lparr>cores = cores s, heap_next = heap_next s, metrics = metrics s, clock = clock s,
     routes = relay_routes s, route_next_id = relay_next_id s, \<dots> = s\<rparr>"

definition relay_callback :: "'r platform \<Rightarrow> (cb, 'r program) callback" where
  "relay_callback E f v r =
     (None, relay.more_update (\<lambda>s.
        (case f of
           PrintRelayedName \<Rightarrow> print (''relayed: '' @ name_of v s) s
         | PrintRelayedJson \<Rightarrow> (case encode_json (lib E) (cores s v) of
              Inr j \<Rightarrow> print (''relayed: '' @ json_text E j) s
            | Inl e \<Rightarrow> s))) r)"

definition make_relay :: "string option \<Rightarrow> cb \<Rightarrow> 'r program \<Rightarrow> (leaf, pred) transport throws \<times> 'r program" where
  "make_relay pat f s =
     (let r = (case pat of None \<Rightarrow> relay_new f (relay_view s) | Some p \<Rightarrow> relay_new_pattern p f (relay_view s))
      in (Inr (Leaf RelayLeaf), s\<lparr>relay_routes := routes r, relay_next_id := route_next_id r\<rparr>))"

definition make_leaf :: "leaf \<Rightarrow> 'r program \<Rightarrow> (leaf, pred) transport throws \<times> 'r program" where
  "make_leaf l s = (Inr (Leaf l), s)"

section \<open>The host\<close>

definition program_leaves :: "'r platform \<Rightarrow> ('r program, leaf, pred) leaf_ops" where
  "program_leaves E =
     \<lparr>call_predicate = (\<lambda>p v s. (Inr (glob_match ''order.*'' (name_of v s)), s)),
      leaf_scope = (\<lambda>l. if l = FakeRemote then Remote else Local),
      leaf_attach = base_attach_with_sink,
      leaf_dispatch = (\<lambda>l v s. case l of
          RelayLeaf \<Rightarrow> (None, relay.more (relay_dispatch (relay_callback E) v (relay_view s)))
        | FakeRemote \<Rightarrow> (None, s\<lparr>remote_count := remote_count s + 1\<rparr>)
        | LocalLeaf \<Rightarrow> (None, s)),
      leaf_flush = (\<lambda>l s. (None, s)),
      leaf_detach = (\<lambda>l s. s)\<rparr>"

text \<open>Insertion by priority; every lambda and class of the programs has the default priority.\<close>

definition callbacks :: "'r platform \<Rightarrow> ('r program, fn, mw, (leaf, pred) transport, 'r) host" where
  "callbacks E =
     \<lparr>parcel = lib E, now = clock_at E, generate_ulid = fresh_ulid E,
      derives = (\<lambda>a b. a = b), default_priority = 0,
      insert_transport = (\<lambda>t ts. ts @ [t]), insert_middleware = (\<lambda>m ms. ms @ [m]),
      insert_listener = (\<lambda>p e es. takeWhile (\<lambda>x. listener_priority x \<le> p) es @ e #
         dropWhile (\<lambda>x. listener_priority x \<le> p) es),
      invocable_payload = (\<lambda>T f. f \<notin> {PrintSaw, PrintOrder}), invocable_envelope = (\<lambda>f. f \<in> {PrintSaw, PrintOrder}),
      has_priority = (\<lambda>f. False), handler_null = (\<lambda>f. False), handler_priority = (\<lambda>f. 0),
      call_payload = call_with_payload E, call_envelope = call_with_envelope E,
      call_on_event = (\<lambda>f c s. (None, s)),
      before_dispatch = before_mw E, after_dispatch = after_mw E,
      on_error = (\<lambda>m v e s. (None, v, s)), on_transport_error = (\<lambda>m n e s. (None, s)),
      t_scope = transport_scope (program_leaves E), t_attach = transport_attach (program_leaves E),
      t_dispatch = (\<lambda>t v s. (None, s)), t_flush = (\<lambda>t s. (None, s)), t_detach = (\<lambda>t s. s)\<rparr>"

text \<open>A pool worker runs a task; \<^verbatim>\<open>flush\<close> waits until the workers have run them all, and so does \<^verbatim>\<open>detach\<close>.\<close>

definition run_worker :: "'r platform \<Rightarrow> nat \<Rightarrow> 'r program \<Rightarrow> 'r program" where
  "run_worker E k s =
     (run_pool_task (program_leaves E) (callbacks E) LocalLeaf k (s\<lparr>on_worker := True\<rparr>))\<lparr>on_worker := False\<rparr>"

definition wait_drained :: "'r platform \<Rightarrow> (leaf, pred) transport \<Rightarrow> 'r program \<Rightarrow> 'r program" where
  "wait_drained E t s = (if leaf_of t = LocalLeaf then fold (\<lambda>v. run_worker E 0) (tasks s LocalLeaf) s else s)"

definition program_host ::
  "'r platform \<Rightarrow> ThreadPoolOptions local_transport \<Rightarrow> ('r program, fn, mw, (leaf, pred) transport, 'r) host" where
  "program_host E t = (with_local [LocalLeaf \<mapsto> t] (program_leaves E) (callbacks E))
     \<lparr>t_flush := (\<lambda>t s. (None, wait_drained E t s)), t_detach := wait_drained E\<rparr>"

definition program_start :: "'r platform \<Rightarrow> 'r program" where
  "program_start E = Bus_new (lib E) None \<lparr>bus_ptr = (\<lambda>l. False), sink_of = (\<lambda>l. NullSink), tasks = (\<lambda>l. []),
     stdout = [], counter = 0, remote_count = 0, on_worker = False, relay_routes = [], relay_next_id = 0\<rparr>"

definition direct_mode :: "ThreadPoolOptions local_transport" where
  "direct_mode = local_new ''threadman'' DirectExec \<lparr>min_workers = 0, max_workers = 0, max_queue_size = 0, pool_name = ''threadman''\<rparr>"

section \<open>Statements\<close>

text \<open>
  The statements the programs are made of. The locals of a \<^verbatim>\<open>main\<close> that own registrations are its subscription handles
  and its subscriber; leaving \<^verbatim>\<open>main\<close> destroys them, and then the bus. \<open>Worker k\<close> is a pool worker running the task at
  position \<open>k\<close> of the queue at that moment.
\<close>

datatype stmt =
    UseTransport leaf
  | UseRelay "string option" cb
  | UseFilteredRelay cb pred
  | UseMiddleware mw
  | Listen event_type fn
  | ListenPattern string fn
  | RegisterSubscriber "fn on_call list"
  | PublishBuilt event_type json "builder_call list"
  | ReportTransportError string exn
  | Drain
  | Worker nat
  | PrintCounters "int \<Rightarrow> int \<Rightarrow> string"

type_synonym 'r frame = "Subscription list \<times> EventSubscriber \<times> 'r program"

definition publish_built ::
  "'r platform \<Rightarrow> ('r program, fn, mw, (leaf, pred) transport, 'r) host \<Rightarrow> EventBuilder \<Rightarrow> 'r program \<Rightarrow> 'r program" where
  "publish_built E H b s = (case build (fresh_ulid E (heap_next s)) (clock_at E) b s of (v, s) \<Rightarrow> publish_envelope H v s)"

fun exec :: "'r platform \<Rightarrow> ThreadPoolOptions local_transport \<Rightarrow> stmt \<Rightarrow> 'r frame \<Rightarrow> 'r frame" where
  "exec E t (UseTransport l) (hs, sb, s) = (hs, sb, snd (use_transport_make (program_host E t) (make_leaf l) s))"
| "exec E t (UseRelay pat f) (hs, sb, s) = (hs, sb, snd (use_transport_make (program_host E t) (make_relay pat f) s))"
| "exec E t (UseFilteredRelay f p) (hs, sb, s) =
     (case make_relay None f s of
        (Inr r, s) \<Rightarrow> (hs, sb, snd (use_transport_make (program_host E t) (\<lambda>s. (Inr (FilteredTransport r (Some p) None), s)) s))
      | (Inl e, s) \<Rightarrow> (hs, sb, s))"
| "exec E t (UseMiddleware m) (hs, sb, s) = (hs, sb, use_middleware (program_host E t) m s)"
| "exec E t (Listen T f) (hs, sb, s) = (case listen_typed (program_host E t) T f 0 s of (h, s) \<Rightarrow> (hs @ [h], sb, s))"
| "exec E t (ListenPattern pat f) (hs, sb, s) = (case listen_pattern (program_host E t) pat f 0 s of (h, s) \<Rightarrow> (hs @ [h], sb, s))"
| "exec E t (RegisterSubscriber cs) (hs, sb, s) =
     (case register_subscriber (register_to (program_host E t) cs) sb s of (sb, s) \<Rightarrow> (hs, sb, s))"
| "exec E t (PublishBuilt T x cs) (hs, sb, s) =
     (hs, sb, publish_built E (program_host E t)
        (fold (builder_step (flag_insert (wire (lib E))) (\<lambda>k x md. md @ [(k, x)])) cs (event (flag_insert (wire (lib E))) T x)) s)"
| "exec E t (ReportTransportError n e) (hs, sb, s) = (hs, sb, report_transport_error (program_host E t) n e s)"
| "exec E t Drain (hs, sb, s) = (hs, sb, snd (drain (program_host E t) s))"
| "exec E t (Worker k) (hs, sb, s) = (hs, sb, run_worker E k s)"
| "exec E t (PrintCounters f) (hs, sb, s) = (hs, sb, print (f (counter s) (remote_count s)) s)"

definition leave_main :: "'r platform \<Rightarrow> ThreadPoolOptions local_transport \<Rightarrow> 'r frame \<Rightarrow> 'r program" where
  "leave_main E t fr = (case fr of (hs, sb, s) \<Rightarrow>
     Bus_destroy (program_host E t) (subscriber_destroy release sb (fold (subscription_destroy release) (rev hs) s)))"

definition run_main :: "'r platform \<Rightarrow> ThreadPoolOptions local_transport \<Rightarrow> stmt list \<Rightarrow> 'r program" where
  "run_main E t body = leave_main E t (fold (exec E t) body ([], \<lparr>subscriber_priority = 0, subscriptions = []\<rparr>, program_start E))"

section \<open>The programs\<close>

definition Greeted :: event_type where "Greeted = plain_event ''Greeted'' ''greeted''"

definition main_hello :: "stmt list" where
  "main_hello =
     [UseTransport LocalLeaf,
      Listen Greeted PrintHello,
      PublishBuilt Greeted (JObject [(''who'', JString ''world'')]) []]"

definition Beep :: event_type where "Beep = plain_event ''Beep'' ''beep''"

definition queue_mode_default :: "ThreadPoolOptions local_transport" where
  "queue_mode_default = local_new ''threadman'' QueueExec \<lparr>min_workers = 1, max_workers = 8, max_queue_size = 0, pool_name = ''threadman''\<rparr>"

text \<open>\<^verbatim>\<open>flags_direct.cpp\<close>: the queue's worker gets to the first envelope before the second publish, or only in \<^verbatim>\<open>drain\<close>.\<close>

definition main_flags_direct :: "bool \<Rightarrow> stmt list" where
  "main_flags_direct early =
     [UseTransport LocalLeaf,
      Listen Beep PrintThread,
      PublishBuilt Beep (JObject []) []] @
     (if early then [Worker 0] else []) @
     [PublishBuilt Beep (JObject []) [CallFlag (flag_name Direct)],
      Drain]"

definition AppConfigReloadEvent :: event_type where
  "AppConfigReloadEvent =
     (plain_event ''AppConfigReloadEvent'' ''app.config.reload'')\<lparr>mixin_default_flags := Some [flag_name LocalOnly]\<rparr>"

definition main_local_only_event :: "stmt list" where
  "main_local_only_event =
     [UseTransport LocalLeaf,
      UseTransport FakeRemote,
      Listen AppConfigReloadEvent CountHit,
      PublishBuilt AppConfigReloadEvent (JObject [(''source_path'', JString ''/etc/app.toml'')]) [],
      PrintCounters (\<lambda>local_hits remote. ''local_hits='' @ show_int local_hits @ '' remote_count='' @ show_int remote)]"

definition Order :: event_type where "Order = plain_event ''Order'' ''order.created''"

definition main_metrics :: "stmt list" where
  "main_metrics =
     [Listen Order ThrowOnZero] @
     map (\<lambda>i. PublishBuilt Order (JObject [(''id'', JInt i)]) []) [0, 1, 2] @
     [ReportTransportError ''demo'' (Exn ForeignStdException ''decode failed''),
      UseMiddleware DropAll,
      PublishBuilt Order (JObject [(''id'', JInt 42)]) [],
      Drain]"

definition Tick :: event_type where "Tick = plain_event ''Tick'' ''tick''"

definition main_middleware_logging :: "stmt list" where
  "main_middleware_logging =
     [UseTransport LocalLeaf,
      UseMiddleware LoggingMW,
      Listen Tick PrintTick,
      PublishBuilt Tick (JObject [(''n'', JInt 7)]) []]"

definition OrderCreated :: event_type where "OrderCreated = plain_event ''OrderCreated'' ''order.created''"

definition OrderShipped :: event_type where "OrderShipped = plain_event ''OrderShipped'' ''order.shipped''"

definition main_pattern_listener :: "stmt list" where
  "main_pattern_listener =
     [UseTransport LocalLeaf,
      ListenPattern ''order.*'' PrintSaw,
      PublishBuilt OrderCreated (JObject []) [],
      PublishBuilt OrderShipped (JObject []) []]"

definition Audit :: event_type where "Audit = plain_event ''Audit'' ''audit.recorded''"

definition main_relay_to_callback :: "stmt list" where
  "main_relay_to_callback =
     [UseTransport LocalLeaf,
      UseRelay (Some ''order.*'') PrintRelayedJson,
      PublishBuilt Order (JObject [(''id'', JString ''O-9'')]) [],
      PublishBuilt Audit (JObject []) []]"

definition AuditLog :: event_type where "AuditLog = plain_event ''AuditLog'' ''audit.log''"

definition main_filtered_transport :: "stmt list" where
  "main_filtered_transport =
     [UseFilteredRelay PrintRelayedName OrderNames,
      PublishBuilt OrderCreated (JObject [(''id'', JString ''ord-1'')]) [],
      PublishBuilt AuditLog (JObject [(''msg'', JString ''hidden'')]) []]"

text \<open>\<^verbatim>\<open>OrderProjection::register_to\<close>.\<close>

definition OrderProjection :: "fn on_call list" where
  "OrderProjection = [OnType OrderCreated PrintCreated, OnType OrderShipped PrintShipped]"

definition main_subscriber :: "stmt list" where
  "main_subscriber =
     [UseTransport LocalLeaf,
      RegisterSubscriber OrderProjection,
      PublishBuilt OrderCreated (JObject [(''id'', JString ''O-1'')]) [],
      PublishBuilt OrderShipped (JObject [(''id'', JString ''O-1'')]) []]"

definition main_typed_listener :: "stmt list" where
  "main_typed_listener =
     [UseTransport LocalLeaf,
      Listen OrderCreated PrintOrder,
      PublishBuilt OrderCreated (JObject [(''order_id'', JString ''abc''), (''total'', JFloat 4999 (- 2))])
        [CallMetadata ''tenant'' (MdString ''acme'')]]"

text \<open>\<^verbatim>\<open>threadpool_local.cpp\<close>: between the publishes, and before \<^verbatim>\<open>drain\<close>, the four workers run whatever tasks \<open>sched\<close> says.\<close>

definition Job :: event_type where "Job = plain_event ''Job'' ''job''"

definition pool_mode :: "ThreadPoolOptions local_transport" where
  "pool_mode = local_new ''threadman'' ThreadPoolExec \<lparr>min_workers = 4, max_workers = 4, max_queue_size = 0, pool_name = ''threadman''\<rparr>"

definition main_threadpool_local :: "(int \<Rightarrow> nat list) \<Rightarrow> stmt list" where
  "main_threadpool_local sched =
     [UseTransport LocalLeaf,
      Listen Job AddJob] @
     concat (map (\<lambda>i. PublishBuilt Job (JObject [(''id'', JInt i)]) [] # map Worker (sched i)) [1..100]) @
     [Drain,
      PrintCounters (\<lambda>count remote. ''sum='' @ show_int count)]"

text \<open>
  \<^verbatim>\<open>serialization_roundtrip.cpp\<close> uses no bus: an envelope is built, encoded both ways, and decoded from JSON by a
  registry that knows its type.
\<close>

definition Telemetry :: event_type where "Telemetry = plain_event ''Telemetry'' ''telemetry''"

definition telemetry_core :: "'r platform \<Rightarrow> EnvelopeCore" where
  "telemetry_core E = core_at 0 (snd (build (fresh_ulid E 0) (clock_at E)
     (builder_metadata (\<lambda>k x md. md @ [(k, x)]) ''source'' (MdString ''sensor-3'')
       (event (flag_insert (wire (lib E))) Telemetry (JObject [(''id'', JString ''t-1''), (''value'', JFloat 5 (- 1))])))
     (program_start E)))"

definition main_serialization_roundtrip :: "'r platform \<Rightarrow> string list throws" where
  "main_serialization_roundtrip E =
     (case encode_json (lib E) (Some (telemetry_core E)) of
        Inl e \<Rightarrow> Inl e
      | Inr j \<Rightarrow>
     (case encode_cbor (lib E) (Some (telemetry_core E)) of
        Inl e \<Rightarrow> Inl e
      | Inr bytes \<Rightarrow>
     (case decode_json (lib E) (registry_add (lib E) Telemetry (EventRegistry_new (lib E))) j of
        Inl e \<Rightarrow> Inl e
      | Inr round \<Rightarrow>
     (case payload_as (\<lambda>a b. a = b) Telemetry (Some round) of
        None \<Rightarrow> Inl (Exn ForeignException ''null dereference'')
      | Some recovered \<Rightarrow>
          Inr [''json size='' @ show_int (int (length (json_text E j))) @ '' cbor size='' @ show_int (int (length bytes)),
            ''recovered id='' @ text_member ''id'' recovered @ '' value='' @ double_member E ''value'' recovered]))))"

text \<open>A platform with any ULIDs and any printed forms.\<close>

definition demo_platform ::
  "(env \<Rightarrow> ulid) \<Rightarrow> (ulid \<Rightarrow> string) \<Rightarrow> string \<Rightarrow> (int \<Rightarrow> int \<Rightarrow> string) \<Rightarrow> descriptor list platform" where
  "demo_platform g u j d = \<lparr>lib = example_parcel, clock_at = int, fresh_ulid = g, ulid_text = u,
     json_text = (\<lambda>x. j), double_text = d\<rparr>"

section \<open>Runs\<close>

lemma hello_run: "stdout (run_main (demo_platform g u j d) direct_mode main_hello) = [''hello, world'']"
  by code_simp

lemma flags_direct_early_run:
  "stdout (run_main (demo_platform g u j d) queue_mode_default (main_flags_direct True)) = [''background'', ''inline'']"
  by code_simp

lemma flags_direct_late_run:
  "stdout (run_main (demo_platform g u j d) queue_mode_default (main_flags_direct False)) = [''inline'', ''background'']"
  by code_simp

lemma local_only_run:
  "stdout (run_main (demo_platform g u j d) direct_mode main_local_only_event) = [''local_hits=1 remote_count=0'']"
  by code_simp

lemma middleware_logging_run:
  "stdout (run_main (demo_platform g u j d) direct_mode main_middleware_logging) =
     [''>> tick id='' @ u (g 0), ''   n=7'', ''<< tick'']"
  by code_simp

lemma pattern_listener_run:
  "stdout (run_main (demo_platform g u j d) direct_mode main_pattern_listener) = [''saw order.created'', ''saw order.shipped'']"
  by code_simp

lemma relay_run:
  "stdout (run_main (demo_platform g u j d) direct_mode main_relay_to_callback) = [''relayed: '' @ j]"
  by code_simp

lemma filtered_run:
  "stdout (run_main (demo_platform g u j d) direct_mode main_filtered_transport) = [''relayed: order.created'']"
  by code_simp

lemma subscriber_run:
  "stdout (run_main (demo_platform g u j d) direct_mode main_subscriber) = [''created O-1'', ''shipped O-1'']"
  by code_simp

lemma typed_listener_run:
  "stdout (run_main (demo_platform g u j d) direct_mode main_typed_listener) =
     [''id='' @ u (g 0) @ '' order_id=abc total='' @ d 4999 (- 2)]"
  by code_simp

lemma metrics_run:
  "let cs = metrics (run_main (demo_platform g u j d) direct_mode main_metrics); series = (\<lambda>m. series_value m [(''event'', ''order.created'')] cs)
   in map series [events_published, listener_invocations, listener_errors, events_dropped, listeners_gauge] = [4, 3, 1, 1, 0] \<and>
      series_value transport_errors [(''transport'', ''demo'')] cs = 1"
  by code_simp

lemma serialization_run:
  assumes "wire_lib_laws (wire (lib E))"
    and "codecs_invert (wire (lib E)) (registry_ptr (registry_add (lib E) Telemetry (EventRegistry_new (lib E)))) (telemetry_core E)"
  shows "\<exists>sizes. main_serialization_roundtrip E = Inr [sizes, ''recovered id=t-1 value='' @ double_text E 5 (- 1)]"
proof -
  let ?c = "telemetry_core E" and ?x = "JObject [(''id'', JString ''t-1''), (''value'', JFloat 5 (- 1))]"
  obtain j c' where j: "to_json (wire (lib E)) (Some ?c) = Inr j"
    "from_json (wire (lib E)) (registry_ptr (registry_add (lib E) Telemetry (EventRegistry_new (lib E)))) j = Inr c'"
    "payload_cell c' = payload_cell ?c"
    using roundtrip_aux [OF assms] by auto
  have "payload_cell ?c = Some (event_cell Telemetry ?x)"
    by (simp add: telemetry_core_def build_def event_def builder_new_def builder_metadata_def alloc_core_def read_clock_def
        envelope_of_core_def core_at_def program_start_def Bus_new_def Telemetry_def plain_event_def)
  then have "payload_as (\<lambda>a b. a = b) Telemetry (Some c') = Some (event_cell Telemetry ?x)"
    using j(3) by (simp add: payload_as_def event_cell_def)
  then show ?thesis
    using j(1,2)
    by (simp add: main_serialization_roundtrip_def encode_json_def encode_cbor_def decode_json_def registry_snapshot_def
        text_member_def double_member_def member_of_def event_cell_def)
qed

section \<open>The thread pool program\<close>

text \<open>
  After publishes whose ids sum up to \<open>n\<close>: what the listener has added and what the queued tasks carry sum up to \<open>n\<close>.
\<close>

definition job_entry :: "fn ListenerEntry" where
  "job_entry = \<lparr>entry_id = 1, handler = WrapPayload Job AddJob, name_or_pattern = ''job'', is_pattern = False, listener_priority = 0\<rparr>"

definition is_job :: "'r program \<Rightarrow> env \<Rightarrow> int \<Rightarrow> bool" where
  "is_job s v i \<longleftrightarrow> v < heap_next s \<and>
     (\<exists>c. cores s v = Some c \<and> payload_cell c = Some (event_cell Job (JObject [(''id'', JInt i)])) \<and> core_flags c = [])"

definition jobs_ok :: "int \<Rightarrow> 'r program \<Rightarrow> bool" where
  "jobs_ok n s \<longleftrightarrow> transports s = [Leaf LocalLeaf] \<and> middleware s = [] \<and> sink_of s LocalLeaf = BusSink \<and>
     listeners s = [job_entry] \<and> stdout s = [] \<and> \<not> shutdown_flag s \<and>
     (\<exists>js. list_all2 (is_job s) (tasks s LocalLeaf) js \<and> counter s + sum_list js = n)"

lemma is_job_frame:
  "cores s' = cores s \<Longrightarrow> heap_next s' = heap_next s \<Longrightarrow> is_job s' = is_job s"
  by (intro ext) (simp add: is_job_def)

lemma job_member: "int_member ''id'' (event_cell Job (JObject [(''id'', JInt i)])) = i"
  by (simp add: int_member_def member_of_def event_cell_def)

lemma job_name: "payload_cell c = Some (event_cell Job x) \<Longrightarrow> env_name (Some c) = ''job''"
  by (simp add: env_name_def event_cell_def kind_id_def Job_def plain_event_def)

lemma job_event_name [simp]: "event_name_v Job = ''job''"
  by (simp add: Job_def plain_event_def)

lemma deliver_job:
  assumes "is_job s v i" and "listeners s = [job_entry]"
  shows "deliver_to_listeners (callbacks E) v s =
    (meter (Inc listener_invocations (event_labels ''job'')) s)\<lparr>counter := counter s + i\<rparr>"
proof -
  obtain c where c: "cores s v = Some c" "payload_cell c = Some (event_cell Job (JObject [(''id'', JInt i)]))"
    using assms(1) by (auto simp: is_job_def)
  have n: "name_of v s = ''job''" using c job_name by (simp add: name_of_def)
  have "payload_as (\<lambda>a b. a = b) Job (Some c) = Some (event_cell Job (JObject [(''id'', JInt i)]))"
    using c(2) by (simp add: payload_as_def event_cell_def)
  then show ?thesis
    using assms(2) c n job_member
    by (simp add: deliver_to_listeners_def deliver_one_def entry_matches_def job_entry_def callbacks_def meter_def Let_def)
qed

lemmas publish_run = publish_impl_def begin_publish_def read_clock_def check_conflict_def route_def dispatch_one_def
  program_host_def with_local_def callbacks_def program_leaves_def local_dispatch_def goes_direct_def pool_mode_def
  local_new_def update_timestamps_def update_core_def meter_def core_at_def record_elapsed_def Let_def

lemma publish_job:
  fixes E :: "'r platform" and s :: "'r program"
  assumes "is_job s v i" and "transports s = [Leaf LocalLeaf]" and "middleware s = []"
  defines "p \<equiv> publish_impl (program_host E pool_mode) v s"
  shows "tasks p = (tasks s)(LocalLeaf := tasks s LocalLeaf @ [v])" "is_job p = is_job s"
    "transports p = transports s" "middleware p = middleware s" "sink_of p = sink_of s" "listeners p = listeners s"
    "stdout p = stdout s" "counter p = counter s" "shutdown_flag p = shutdown_flag s"
proof -
  obtain c where c: "cores s v = Some c" "core_flags c = []" using assms(1) by (auto simp: is_job_def)
  show "tasks p = (tasks s)(LocalLeaf := tasks s LocalLeaf @ [v])" "transports p = transports s" "middleware p = middleware s"
    "sink_of p = sink_of s" "listeners p = listeners s" "stdout p = stdout s" "counter p = counter s"
    "shutdown_flag p = shutdown_flag s"
    using assms(2,3) c unfolding p_def by (simp_all add: publish_run)
  have "cores p = (cores s)(v \<mapsto> c\<lparr>core_timestamps := (core_timestamps c)\<lparr>published_at := Some (clock_at E (clock s))\<rparr>\<rparr>)"
    "heap_next p = heap_next s"
    using assms(2,3) c unfolding p_def by (simp_all add: publish_run)
  then show "is_job p = is_job s" using c by (intro ext) (auto simp: is_job_def)
qed

lemma jobs_publish:
  assumes "jobs_ok n s"
  shows "jobs_ok (n + i) (publish_built E (program_host E pool_mode) (event ins Job (JObject [(''id'', JInt i)])) s)"
proof -
  let ?x = "JObject [(''id'', JInt i)]"
  define s1 where "s1 = snd (build (fresh_ulid E (heap_next s)) (clock_at E) (event ins Job ?x) s)"
  have b: "build (fresh_ulid E (heap_next s)) (clock_at E) (event ins Job ?x) s = (heap_next s, s1)"
    by (simp add: s1_def build_def event_def builder_new_def alloc_core_def read_clock_def)
  have f: "transports s1 = transports s" "middleware s1 = middleware s" "sink_of s1 = sink_of s" "listeners s1 = listeners s"
    "stdout s1 = stdout s" "counter s1 = counter s" "shutdown_flag s1 = shutdown_flag s" "tasks s1 = tasks s"
    "heap_next s1 = Suc (heap_next s)" "is_job s1 (heap_next s) i"
    "\<And>v. v < heap_next s \<Longrightarrow> cores s1 v = cores s v"
    by (simp_all add: s1_def build_def event_def builder_new_def alloc_core_def read_clock_def is_job_def envelope_of_core_def
        empty_core_def collect_default_flags_def Job_def plain_event_def)
  have old: "is_job s v j \<Longrightarrow> is_job s1 v j" for v j using f(9,11) by (auto simp: is_job_def)
  obtain js where js: "list_all2 (is_job s) (tasks s LocalLeaf) js" "counter s + sum_list js = n"
    using assms by (auto simp: jobs_ok_def)
  have "list_all2 (is_job s1) (tasks s LocalLeaf @ [heap_next s]) (js @ [i])"
    using list_all2_mono [OF js(1), of "is_job s1"] old f(10) by (intro list_all2_appendI) auto
  moreover have "transports s1 = [Leaf LocalLeaf]" "middleware s1 = []" using assms f by (simp_all add: jobs_ok_def)
  note p = publish_job [OF f(10) this, of E]
  ultimately show ?thesis
    using assms js(2) b by (auto simp: jobs_ok_def publish_built_def publish_envelope_def p f intro!: exI [of _ "js @ [i]"])
qed

lemma jobs_worker:
  assumes "jobs_ok n s"
  shows "jobs_ok n (run_worker E k s)"
    and "tasks (run_worker E k s) LocalLeaf = take k (tasks s LocalLeaf) @ drop (Suc k) (tasks s LocalLeaf)"
proof -
  let ?q = "take k (tasks s LocalLeaf) @ drop (Suc k) (tasks s LocalLeaf)"
  obtain js where js: "list_all2 (is_job s) (tasks s LocalLeaf) js" "counter s + sum_list js = n"
    using assms by (auto simp: jobs_ok_def)
  have "jobs_ok n (run_worker E k s) \<and> tasks (run_worker E k s) LocalLeaf = ?q"
  proof (cases "k < length (tasks s LocalLeaf)")
    case True
    let ?v = "tasks s LocalLeaf ! k" and ?s = "s\<lparr>on_worker := True, tasks := (tasks s)(LocalLeaf := ?q)\<rparr>"
    have k: "k < length js" "is_job s ?v (js ! k)"
      using js(1) True by (auto simp: list_all2_lengthD list_all2_nthD)
    then have "is_job ?s ?v (js ! k)" by (simp add: is_job_def)
    then have r: "run_worker E k s = (meter (Inc listener_invocations (event_labels ''job'')) ?s)
        \<lparr>counter := counter s + js ! k, on_worker := False\<rparr>"
      using assms True deliver_job [of ?s ?v "js ! k" E]
      by (simp add: run_worker_def run_pool_task_def deliver_inbound_def jobs_ok_def)
    have "sum_list js = js ! k + sum_list (take k js @ drop (Suc k) js)"
      by (subst id_take_nth_drop [OF k(1)]) simp
    moreover have "list_all2 (is_job s) ?q (take k js @ drop (Suc k) js)"
      using js(1) by (intro list_all2_appendI list_all2_takeI list_all2_dropI)
    moreover have "is_job (run_worker E k s) = is_job s"
      unfolding r by (rule is_job_frame) (simp_all add: meter_def)
    ultimately show ?thesis
      using assms js(2) unfolding jobs_ok_def r by (auto simp: meter_def intro!: exI [of _ "take k js @ drop (Suc k) js"])
  next
    case False
    then have r: "run_worker E k s = s\<lparr>on_worker := False\<rparr>" by (simp add: run_worker_def run_pool_task_def)
    have "is_job (s\<lparr>on_worker := False\<rparr>) = is_job s" by (rule is_job_frame) simp_all
    then show ?thesis using assms False by (auto simp: r jobs_ok_def)
  qed
  then show "jobs_ok n (run_worker E k s)" "tasks (run_worker E k s) LocalLeaf = ?q" by simp_all
qed

lemma jobs_workers:
  assumes "jobs_ok n s"
  shows "\<exists>s'. fold (exec E pool_mode) (map Worker ks) (hs, sb, s) = (hs, sb, s') \<and> jobs_ok n s'"
  using assms by (induction ks arbitrary: s) (auto dest: jobs_worker(1))

lemma jobs_published:
  assumes "jobs_ok n s"
  shows "\<exists>s'. fold (exec E pool_mode) (concat (map (\<lambda>i. PublishBuilt Job (JObject [(''id'', JInt i)]) [] # map Worker (sched i)) xs))
    (hs, sb, s) = (hs, sb, s') \<and> jobs_ok (n + sum_list xs) s'"
  using assms
proof (induction xs arbitrary: n s)
  case (Cons i xs)
  let ?s = "publish_built E (program_host E pool_mode) (event (flag_insert (wire (lib E))) Job (JObject [(''id'', JInt i)])) s"
  obtain s1 where s1: "fold (exec E pool_mode) (map Worker (sched i)) (hs, sb, ?s) = (hs, sb, s1)" "jobs_ok (n + i) s1"
    using jobs_workers [OF jobs_publish [OF Cons.prems]] by blast
  show ?case using Cons.IH [OF s1(2)] s1(1) by (simp add: add.assoc)
qed simp

lemma jobs_drained:
  assumes "jobs_ok n s"
  shows "jobs_ok n (wait_drained E (Leaf LocalLeaf) s) \<and> tasks (wait_drained E (Leaf LocalLeaf) s) LocalLeaf = []"
proof -
  have "jobs_ok n s \<Longrightarrow> length vs = length (tasks s LocalLeaf) \<Longrightarrow>
      jobs_ok n (fold (\<lambda>v. run_worker E 0) vs s) \<and> tasks (fold (\<lambda>v. run_worker E 0) vs s) LocalLeaf = []" for vs :: "env list"
    by (induction vs arbitrary: s) (simp_all add: jobs_worker)
  then show ?thesis using assms by (simp add: wait_drained_def)
qed

lemma stdout_meter [simp]: "stdout (meter c s) = stdout s"
  by (simp add: meter_def)

lemma stdout_meters [simp]: "stdout (fold (\<lambda>e. meter (f e)) es s) = stdout s"
  by (induction es arbitrary: s) simp_all

lemma stdout_release [simp]: "stdout (release i s) = stdout s" "tasks (release i s) = tasks s"
  by (simp_all add: release_def meter_def split: option.split)

lemma leave_quiet:
  assumes "tasks s LocalLeaf = []"
  shows "stdout (leave_main E t (hs, sb, s)) = stdout s"
proof -
  let ?H = "program_host E t" and ?out = "\<lambda>s'. stdout s' = stdout s \<and> tasks s' LocalLeaf = []"
  have d: "?out (fold (subscription_destroy release) hs s')" if "?out s'" for hs s'
    by (rule fold_invariant_set [where P = ?out]) (use that in \<open>auto simp: subscription_destroy_def subscription_release_def\<close>)
  have "t_detach ?H u (snd (t_flush ?H u s')) = s'" if "?out s'" for u s'
    using that by (simp add: program_host_def wait_drained_def)
  then have w: "?out (fold (\<lambda>u s. t_detach ?H u (snd (t_flush ?H u s))) us s')" if "?out s'" for us s'
    by (intro fold_invariant_set [where P = ?out]) (use that in auto)
  have "?out (shutdown ?H s')" if "?out s'" for s' using w that by (simp add: shutdown_def Let_def)
  then have "?out s' \<Longrightarrow> stdout (Bus_destroy ?H s') = stdout s" for s' by (simp add: Bus_destroy_def Let_def)
  moreover have "?out (fold (subscription_destroy release) (subscriptions sb) (fold (subscription_destroy release) (rev hs) s))"
    by (intro d) (use assms in simp)
  ultimately show ?thesis by (simp add: leave_main_def subscriber_destroy_def)
qed

lemma threadpool_run:
  "stdout (run_main E pool_mode (main_threadpool_local sched)) = [''sum=5050'']"
proof -
  let ?sb = "\<lparr>subscriber_priority = 0, subscriptions = []\<rparr>" and ?hs = "[subscription_new 1]"
  let ?fr = "fold (exec E pool_mode) [UseTransport LocalLeaf, Listen Job AddJob] ([], ?sb, program_start E)"
  have "\<exists>s. ?fr = (?hs, ?sb, s) \<and> jobs_ok 0 s"
    by (simp add: program_start_def Bus_new_def use_transport_make_def use_transport_def make_leaf_def program_host_def
        with_local_def callbacks_def program_leaves_def base_attach_with_sink_def listen_typed_def
        register_listener_for_name_def register_event_def derive_listener_priority_def wrap_typed_handler_def
        shared_from_this_safe_def meter_def jobs_ok_def job_entry_def Let_def)
  then obtain s0 where s0: "?fr = (?hs, ?sb, s0)" "jobs_ok 0 s0" by blast
  obtain s1 where s1: "fold (exec E pool_mode) (concat (map (\<lambda>i. PublishBuilt Job (JObject [(''id'', JInt i)]) [] # map Worker (sched i)) [1..100]))
      (?hs, ?sb, s0) = (?hs, ?sb, s1)" "jobs_ok (0 + sum_list [1..100]) s1"
    using jobs_published [OF s0(2)] by blast
  define s2 where "s2 = wait_drained E (Leaf LocalLeaf) s1"
  have "sum_list [1..100 :: int] = 5050" by code_simp
  then have s2: "jobs_ok 5050 s2" "tasks s2 LocalLeaf = []" using jobs_drained [OF s1(2), of E] by (simp_all add: s2_def)
  then have c: "counter s2 = 5050" "stdout s2 = []" by (auto simp: jobs_ok_def)
  have "snd (drain (program_host E pool_mode) s1) = s2"
    using s1(2) by (simp add: drain_def jobs_ok_def program_host_def s2_def)
  moreover have "''sum='' @ show_int 5050 = ''sum=5050''"
  proof -
    have d: "char_of (48 :: nat) = CHR ''0''" "char_of (53 :: nat) = CHR ''5''" by code_simp+
    show ?thesis
      by (simp add: show_int_def show_nat.simps [of 5050] show_nat.simps [of 505] show_nat.simps [of 50] show_nat.simps [of 5] d)
  qed
  ultimately have "fold (exec E pool_mode) (main_threadpool_local sched) ([], ?sb, program_start E) = (?hs, ?sb, print ''sum=5050'' s2)"
    unfolding main_threadpool_local_def fold_append comp_def s0(1) s1(1) by (simp add: c)
  then show ?thesis using leave_quiet [of "print ''sum=5050'' s2"] s2(2) c by (simp add: run_main_def print_def)
qed

section \<open>Property\<close>


end
