(* ===== verification/Pipes.thy ===== *)
theory Pipes
  imports Mqtt Redis Nats Zmq AmqpLifecycle Platform
begin

text \<open>
  The broker adapters behind one bus. The five \<^verbatim>\<open>Transport\<close> classes become one type with the virtual methods of the
  base class; a pipe is such an object together with what it has handed to its client library, and a node is a bus whose
  leaves are pipes. The interface \<open>outbound_pipe\<close> says what a sender relies on, whichever the adapter.
\<close>

section \<open>Adapters of any kind\<close>

datatype 'r remote =
    MqttT "'r mqtt_impl"
  | RedisT "'r redis_impl"
  | NatsT "'r nats_impl"
  | ZmqT "'r zmq_impl"
  | AmqpT "'r amqp_impl"

text \<open>
  What an adapter meets outside the program: how the calls of its client library come out, which is built with TLS or
  CURVE, and the turns the AMQP IO thread makes while its owner sleeps, flushes or detaches.
\<close>

record net =
  fresh_text :: string
  mqtt_net :: mqtt_lib
  mqtt_stays :: bool
  redis_net :: "bool \<times> redis_lib"
  nats_net :: "bool \<times> nats_lib"
  zmq_net :: "bool \<times> (zmq_call \<Rightarrow> exn option)"
  amqp_tls_built :: bool
  amqp_pipe_ok :: bool
  amqp_net :: "64 word \<Rightarrow> amqp_message \<Rightarrow> publish_outcome"
  amqp_connects :: connect_outcome
  amqp_reports :: "declare_event list"
  amqp_turns :: "io_turn list"

definition remote_scope :: "'r remote \<Rightarrow> TransportScope" where
  "remote_scope r = Remote"

fun remote_attach :: "net \<Rightarrow> 'r remote \<Rightarrow> exn option \<times> 'r remote" where
  "remote_attach N (MqttT i) = map_prod id MqttT (mqtt_attach (mqtt_net N) i)"
| "remote_attach N (RedisT i) = map_prod id RedisT (redis_attach (redis_net N) i)"
| "remote_attach N (NatsT i) = map_prod id NatsT (nats_attach (nats_net N) i)"
| "remote_attach N (ZmqT i) = map_prod id ZmqT (zmq_attach (zmq_net N) i)"
| "remote_attach N (AmqpT i) =
     map_prod id AmqpT (amqp_attach (amqp_net N) (amqp_connects N) (amqp_reports N) (amqp_turns N) i)"

fun remote_detach :: "net \<Rightarrow> 'r remote \<Rightarrow> 'r remote" where
  "remote_detach N (MqttT i) = MqttT (mqtt_detach (mqtt_stays N) i)"
| "remote_detach N (RedisT i) = RedisT (redis_detach i)"
| "remote_detach N (NatsT i) = NatsT (nats_detach i)"
| "remote_detach N (ZmqT i) = ZmqT (zmq_detach i)"
| "remote_detach N (AmqpT i) = AmqpT (amqp_detach (amqp_net N) (amqp_turns N) i)"

fun remote_destroy :: "net \<Rightarrow> 'r remote \<Rightarrow> 'r remote" where
  "remote_destroy N (MqttT i) = MqttT (mqtt_destroy (mqtt_stays N) i)"
| "remote_destroy N (RedisT i) = RedisT (redis_destroy i)"
| "remote_destroy N (NatsT i) = NatsT (nats_destroy i)"
| "remote_destroy N (ZmqT i) = ZmqT (zmq_destroy i)"
| "remote_destroy N (AmqpT i) = AmqpT (amqp_destroy (amqp_net N) (amqp_turns N) i)"

text \<open>Only the AMQP \<^verbatim>\<open>flush\<close> changes anything; those of MQTT, Redis and ZeroMQ are empty, that of NATS waits.\<close>

fun remote_flush :: "net \<Rightarrow> 'r remote \<Rightarrow> 'r remote" where
  "remote_flush N (AmqpT i) = AmqpT (amqp_flush (amqp_net N) (amqp_turns N) i)"
| "remote_flush N r = r"

text \<open>Where a ZeroMQ adapter sends to: the address its outbound socket is bound or connected to.\<close>

definition zmq_peer :: "'r zmq_impl \<Rightarrow> string" where
  "zmq_peer i = (case zsocks i Outbound of None \<Rightarrow> [] | Some x \<Rightarrow> (case leg_of x of None \<Rightarrow> [] | Some (t, role, ep) \<Rightarrow> ep))"

fun nats_sent :: "nats_effect \<Rightarrow> (string \<times> bytes) list" where
  "nats_sent (NatsPublish s bs len) = [(s, bs)]"
| "nats_sent (NatsFlush ms) = []"

text \<open>\<^verbatim>\<open>dispatch\<close>: the exception, and the messages handed to the client library, each with its topic, channel, subject or address.\<close>

fun remote_dispatch ::
  "'r parcel_lib \<Rightarrow> text_codec \<Rightarrow> net \<Rightarrow> EnvelopeCore option \<Rightarrow> 'r remote \<Rightarrow> exn option \<times> (string \<times> bytes) list \<times> 'r remote" where
  "remote_dispatch P X N v (MqttT i) =
     (case mqtt_dispatch P X (mqtt_net N) i v of (e, m) \<Rightarrow>
        (e, (case m of None \<Rightarrow> [] | Some m \<Rightarrow> [(msg_topic m, msg_payload m)]), MqttT i))"
| "remote_dispatch P X N v (RedisT i) =
     (case redis_dispatch P X i v of (e, m) \<Rightarrow> (e, (case m of None \<Rightarrow> [] | Some m \<Rightarrow> [m]), RedisT i))"
| "remote_dispatch P X N v (NatsT i) =
     (case nats_dispatch P X i v of (e, fx) \<Rightarrow> (e, concat (map nats_sent fx), NatsT i))"
| "remote_dispatch P X N v (ZmqT i) =
     (case zmq_dispatch P X i v of (e, m) \<Rightarrow> (e, (case m of None \<Rightarrow> [] | Some bs \<Rightarrow> [(zmq_peer i, bs)]), ZmqT i))"
| "remote_dispatch P X N v (AmqpT i) = (case amqp_dispatch P X v i of (e, i) \<Rightarrow> (e, [], AmqpT i))"

text \<open>Whether something can arrive: a subscription on a live client, or the thread that receives.\<close>

fun receiving :: "'r remote \<Rightarrow> bool" where
  "receiving (MqttT i) = (client_up i \<and> subscribed i \<noteq> None)"
| "receiving (RedisT i) = subscriber_thread i"
| "receiving (NatsT i) = (nats_sub i \<noteq> None)"
| "receiving (ZmqT i) = worker i"
| "receiving (AmqpT i) = (io_thread i \<and> channel i)"

text \<open>What each adapter does with a message.\<close>

fun remote_receive ::
  "(('f, 'm, 'l, 'p, 'r, 'z) wired_scheme, 'l, 'p) leaf_ops \<Rightarrow> ('f, 'm, 'l, 'p, 'r, 'z) wired_host \<Rightarrow> text_codec \<Rightarrow>
     'l \<Rightarrow> 'r remote \<Rightarrow> bytes \<Rightarrow> ('f, 'm, 'l, 'p, 'r, 'z) wired_scheme \<Rightarrow> ('f, 'm, 'l, 'p, 'r, 'z) wired_scheme" where
  "remote_receive L H X l (MqttT i) bs s = message_arrived L H X l i bs s"
| "remote_receive L H X l (RedisT i) bs s = redis_deliver L H X l i (redis_channel (redis_cfg i)) bs s"
| "remote_receive L H X l (NatsT i) bs s = msg_handler L H X l (Some i) (Some (Some bs, word_of_nat (length bs))) s"
| "remote_receive L H X l (ZmqT i) bs s = zmq_deliver_bytes L H X l i bs s"
| "remote_receive L H X l (AmqpT i) bs s = deliver_message L H X l i bs s"

text \<open>The members all adapters have.\<close>

fun remote_base :: "'r remote \<Rightarrow> 'r adapter" where
  "remote_base (MqttT i) = adapter.truncate i"
| "remote_base (RedisT i) = adapter.truncate i"
| "remote_base (NatsT i) = adapter.truncate i"
| "remote_base (ZmqT i) = adapter.truncate i"
| "remote_base (AmqpT i) = adapter.truncate i"

section \<open>Pipes\<close>

record 'r pipe =
  obj :: "'r remote"
  handed :: "(string \<times> bytes) list"

definition pipe_dispatch ::
  "'r parcel_lib \<Rightarrow> text_codec \<Rightarrow> net \<Rightarrow> EnvelopeCore option \<Rightarrow> 'r pipe \<Rightarrow> exn option \<times> 'r pipe" where
  "pipe_dispatch P X N v p =
     (case remote_dispatch P X N v (obj p) of (e, ms, r) \<Rightarrow> (e, p\<lparr>obj := r, handed := handed p @ ms\<rparr>))"

text \<open>While the program sleeps, the IO thread of an AMQP adapter runs.\<close>

fun remote_settle :: "net \<Rightarrow> 'r remote \<Rightarrow> 'r remote" where
  "remote_settle N (AmqpT i) = AmqpT (if io_thread i then io_loop (amqp_net N) (amqp_turns N) i else i)"
| "remote_settle N r = r"

definition pipe_settle :: "net \<Rightarrow> 'r pipe \<Rightarrow> 'r pipe" where
  "pipe_settle N p = p\<lparr>obj := remote_settle N (obj p)\<rparr>"

text \<open>Everything a pipe has given to its broker, and what still waits for the IO thread.\<close>

definition pipe_log :: "'r pipe \<Rightarrow> (string \<times> bytes) list" where
  "pipe_log p = (case obj p of
     AmqpT i \<Rightarrow> map (\<lambda>(m, ack). (am_routing_key m, am_body m)) (wire_log i)
   | _ \<Rightarrow> handed p)"

fun task_message :: "string \<Rightarrow> amqp_task \<Rightarrow> (string \<times> bytes) list" where
  "task_message k (PublishTask body ct ack) = [(k, body)]"
| "task_message k (FlushTask n) = []"
| "task_message k (CloseTask n) = []"

definition pipe_queue :: "'r pipe \<Rightarrow> (string \<times> bytes) list" where
  "pipe_queue p = (case obj p of
     AmqpT i \<Rightarrow> concat (map (task_message (routing_key (amqp_cfg i))) (task_queue i))
   | _ \<Rightarrow> [])"

text \<open>The topic, channel, subject, routing key or address everything on a pipe goes to, and where it listens.\<close>

fun remote_dest :: "'r remote \<Rightarrow> string" where
  "remote_dest (MqttT i) = topic (mqtt_cfg i)"
| "remote_dest (RedisT i) = redis_channel (redis_cfg i)"
| "remote_dest (NatsT i) = subject (nats_cfg i)"
| "remote_dest (ZmqT i) = (case outbound_leg (zmq_cfg i) of None \<Rightarrow> [] | Some (t, role, ep) \<Rightarrow> ep)"
| "remote_dest (AmqpT i) = routing_key (amqp_cfg i)"

fun remote_source :: "'r remote \<Rightarrow> string" where
  "remote_source (MqttT i) = topic (mqtt_cfg i)"
| "remote_source (RedisT i) = redis_channel (redis_cfg i)"
| "remote_source (NatsT i) = subject (nats_cfg i)"
| "remote_source (ZmqT i) = (case inbound_leg (zmq_cfg i) of None \<Rightarrow> [] | Some (t, role, ep) \<Rightarrow> ep)"
| "remote_source (AmqpT i) = routing_key (amqp_cfg i)"

fun remote_format :: "'r remote \<Rightarrow> Format" where
  "remote_format (MqttT i) = mqtt_format (mqtt_cfg i)"
| "remote_format (RedisT i) = redis_format (redis_cfg i)"
| "remote_format (NatsT i) = nats_format (nats_cfg i)"
| "remote_format (ZmqT i) = zmq_format (zmq_cfg i)"
| "remote_format (AmqpT i) = amqp_format (amqp_cfg i)"

section \<open>The contract of a sender\<close>

text \<open>
  A pipe that sends takes every message it can form, in order, and when it settles it has given all of them to the
  broker; a message it cannot form is an exception and changes nothing.
\<close>

locale outbound_pipe =
  fixes dispatch :: "'v \<Rightarrow> 'i \<Rightarrow> exn option \<times> 'i"
    and settle :: "'i \<Rightarrow> 'i"
    and sends :: "'i \<Rightarrow> bool"
    and log :: "'i \<Rightarrow> 'm list"
    and queue :: "'i \<Rightarrow> 'm list"
    and message :: "'i \<Rightarrow> 'v \<Rightarrow> 'm throws"
  assumes dispatch_ok: "sends i \<Longrightarrow> message i v = Inr m \<Longrightarrow> \<exists>i'. dispatch v i = (None, i') \<and> sends i' \<and>
      log i' @ queue i' = log i @ queue i @ [m] \<and> message i' = message i"
    and dispatch_throws: "sends i \<Longrightarrow> message i v = Inl e \<Longrightarrow> dispatch v i = (Some e, i)"
    and settled: "sends i \<Longrightarrow> sends (settle i) \<and> log (settle i) = log i @ queue i \<and> queue (settle i) = [] \<and>
      message (settle i) = message i"
begin

definition formed :: "'i \<Rightarrow> 'v \<Rightarrow> 'm list" where
  "formed i v = (case message i v of Inr m \<Rightarrow> [m] | Inl e \<Rightarrow> [])"

lemma dispatch_one_carries:
  assumes "sends i"
  shows "sends (snd (dispatch v i)) \<and> log (snd (dispatch v i)) @ queue (snd (dispatch v i)) = log i @ queue i @ formed i v \<and>
    message (snd (dispatch v i)) = message i"
proof (cases "message i v")
  case (Inl e)
  then show ?thesis using assms dispatch_throws [of i v e] by (simp add: formed_def)
next
  case (Inr m)
  then show ?thesis using assms dispatch_ok [of i v m] by (auto simp: formed_def)
qed

lemma carries:
  assumes "sends i"
  shows "log (settle (fold (\<lambda>v i. snd (dispatch v i)) vs i)) = log i @ queue i @ concat (map (formed i) vs)"
proof -
  have "sends (fold (\<lambda>v i. snd (dispatch v i)) vs i) \<and>
      log (fold (\<lambda>v i. snd (dispatch v i)) vs i) @ queue (fold (\<lambda>v i. snd (dispatch v i)) vs i) =
        log i @ queue i @ concat (map (formed i) vs)"
    using assms
  proof (induction vs arbitrary: i)
    case (Cons v vs)
    note c = dispatch_one_carries [OF Cons.prems, of v]
    then have "formed (snd (dispatch v i)) = formed i" by (intro ext) (simp add: formed_def)
    then show ?case using c Cons.IH [of "snd (dispatch v i)"] by simp
  qed simp
  then show ?thesis using settled by simp
qed

end

text \<open>When an adapter sends, given what its client library does from now on.\<close>

definition accepting :: "64 word \<Rightarrow> amqp_message \<Rightarrow> publish_outcome" where
  "accepting tag m = Accepted"

fun live_turn :: "io_turn \<Rightarrow> bool" where
  "live_turn PollIdle = True"
| "live_turn (PollReady revents cbs) = True"
| "live_turn t = False"

fun remote_sends :: "net \<Rightarrow> 'r remote \<Rightarrow> bool" where
  "remote_sends N (MqttT i) = (publish_wait (mqtt_net N) = None \<and>
     (\<forall>bs. client_publish (mqtt_net N) (topic (mqtt_cfg i)) bs (qos (mqtt_cfg i)) = None))"
| "remote_sends N (RedisT i) = (publisher i \<noteq> None)"
| "remote_sends N (NatsT i) = (nats_conn i \<noteq> None)"
| "remote_sends N (ZmqT i) = (\<exists>x. zsocks i Outbound = Some x \<and> leg_of x = outbound_leg (zmq_cfg i))"
| "remote_sends N (AmqpT i) = (connection i \<and> channel i \<and> io_thread i \<and> amqp_net N = accepting \<and>
     amqp_turns N \<noteq> [] \<and> list_all live_turn (amqp_turns N))"

definition pipe_sends :: "net \<Rightarrow> 'r pipe \<Rightarrow> bool" where
  "pipe_sends N p = remote_sends N (obj p)"

definition pipe_message :: "'r parcel_lib \<Rightarrow> text_codec \<Rightarrow> 'r pipe \<Rightarrow> EnvelopeCore option \<Rightarrow> (string \<times> bytes) throws" where
  "pipe_message P X p v = and_then (encode_payload P X (remote_format (obj p)) v) (\<lambda>bs. Inr (remote_dest (obj p), bs))"

section \<open>Lemmas\<close>

lemma callback_wire_log: "wire_log (callback cb i) = wire_log i"
proof -
  have s: "wire_log (set_value p b j) = wire_log j" for p b and j :: "'a amqp_impl"
    by (simp add: set_value_def)
  have f: "wire_log (fold (\<lambda>e. set_value (snd e) False) es j) = wire_log j" for es and j :: "'a amqp_impl"
    by (induction es arbitrary: j) (simp_all add: s)
  have u: "wire_log (snd (resolve_upto tag ok es j)) = wire_log j" for tag ok es and j :: "'a amqp_impl"
    by (induction tag ok es j rule: resolve_upto.induct) (auto simp: split_beta s)
  show ?thesis
  proof (cases cb)
    case (CbConfirm tag m ok)
    then show ?thesis
      using u [of tag ok "pending_confirms i" i] by (auto simp: resolve_confirm_def split_beta Let_def s split: option.splits)
  next
    case (CbError m)
    then show ?thesis by (simp add: onError_def Let_def f split: option.splits)
  qed (simp_all add: monitor_def onReady_def onConnected_def onClosed_def onLost_def)
qed

lemma run_task_sends:
  assumes "channel i"
  shows "map (\<lambda>(m, ack). (am_routing_key m, am_body m)) (wire_log (run_task accepting t i)) =
    map (\<lambda>(m, ack). (am_routing_key m, am_body m)) (wire_log i) @ task_message (routing_key (amqp_cfg i)) t"
  using assms by (cases t) (auto simp: accepting_def publish_task_def Let_def set_value_def split: option.splits)

lemma drain_sends:
  fixes i :: "'a amqp_impl"
  assumes "channel i"
  shows "map (\<lambda>(m, ack). (am_routing_key m, am_body m)) (wire_log (drain_tasks accepting i)) =
    map (\<lambda>(m, ack). (am_routing_key m, am_body m)) (wire_log i) @
    concat (map (task_message (routing_key (amqp_cfg i))) (task_queue i))"
proof -
  have "map (\<lambda>(m, ack). (am_routing_key m, am_body m)) (wire_log (fold (run_task accepting) ts j)) =
      map (\<lambda>(m, ack). (am_routing_key m, am_body m)) (wire_log j) @ concat (map (task_message (routing_key (amqp_cfg j))) ts)"
    if "channel j" for ts and j :: "'a amqp_impl"
    using that by (induction ts arbitrary: j) (simp_all add: run_task_sends run_task_frame)
  then show ?thesis using assms by (simp add: drain_tasks_def)
qed

lemma callbacks_keep:
  "amqp_cfg (fold callback cbs i) = amqp_cfg i \<and> connection (fold callback cbs i) = connection i \<and>
   channel (fold callback cbs i) = channel i \<and> io_thread (fold callback cbs i) = io_thread i \<and>
   task_queue (fold callback cbs i) = task_queue i \<and> wire_log (fold callback cbs i) = wire_log i"
proof (induction cbs arbitrary: i)
  case (Cons cb cbs)
  show ?case using Cons [of "callback cb i"] callback_frame [of cb i] callback_wire_log [of cb i] by (simp add: shell_eq)
qed simp

lemma io_loop_sends:
  assumes "list_all live_turn ts" and "channel i" and "ts \<noteq> []"
  shows "task_queue (io_loop accepting ts i) = [] \<and> amqp_cfg (io_loop accepting ts i) = amqp_cfg i \<and> connection (io_loop accepting ts i) = connection i \<and>
    channel (io_loop accepting ts i) \<and> io_thread (io_loop accepting ts i) = io_thread i \<and>
    map (\<lambda>(m, ack). (am_routing_key m, am_body m)) (wire_log (io_loop accepting ts i)) =
      map (\<lambda>(m, ack). (am_routing_key m, am_body m)) (wire_log i) @
      concat (map (task_message (routing_key (amqp_cfg i))) (task_queue i))"
  using assms
proof (induction ts arbitrary: i)
  case (Cons t ts)
  define j where "j = (case t of PollReady revents cbs \<Rightarrow>
      (if watches_amqp (drain_tasks accepting i) \<and> revents \<and> connection (drain_tasks accepting i) then fold callback cbs (drain_tasks accepting i)
       else drain_tasks accepting i) | _ \<Rightarrow> drain_tasks accepting i)"
  have step: "io_loop accepting (t # ts) i = io_loop accepting ts j"
    using Cons.prems(1) by (cases t) (auto simp: j_def Let_def)
  have keep: "amqp_cfg j = amqp_cfg i \<and> connection j = connection i \<and> channel j \<and> io_thread j = io_thread i \<and>
      task_queue j = [] \<and> wire_log j = wire_log (drain_tasks accepting i)"
    using Cons.prems(2) callbacks_keep
    by (auto simp: j_def drain_frame split: io_turn.splits)
  show ?case
  proof (cases "ts = []")
    case True
    then show ?thesis using keep step drain_sends [OF Cons.prems(2)] by simp
  next
    case False
    then show ?thesis using Cons.IH [of j] Cons.prems keep step drain_sends [OF Cons.prems(2)] by simp
  qed
qed simp

lemma encode_message:
  "pipe_message P X p v = Inr m \<longleftrightarrow> (\<exists>bs. encode_payload P X (remote_format (obj p)) v = Inr bs \<and> m = (remote_dest (obj p), bs))"
  "pipe_message P X p v = Inl e \<longleftrightarrow> encode_payload P X (remote_format (obj p)) v = Inl e"
  by (auto simp: pipe_message_def and_then_def split: sum.splits)

lemma pipe_message_cong:
  "remote_format (obj p') = remote_format (obj p) \<Longrightarrow> remote_dest (obj p') = remote_dest (obj p) \<Longrightarrow>
     pipe_message P X p' = pipe_message P X p"
  by (intro ext) (simp add: pipe_message_def)

lemma zmq_peer_leg:
  "zsocks i Outbound = Some x \<Longrightarrow> leg_of x = outbound_leg (zmq_cfg i) \<Longrightarrow> zmq_peer i = remote_dest (ZmqT i)"
  by (simp add: zmq_peer_def)

lemma amqp_dispatch_posts:
  assumes "connection i" and "encode_payload P X (amqp_format (amqp_cfg i)) v = Inr bs"
  shows "\<exists>i'. amqp_dispatch P X v i = (None, i') \<and> amqp_cfg i' = amqp_cfg i \<and> connection i' = connection i \<and>
    channel i' = channel i \<and> io_thread i' = io_thread i \<and> wire_log i' = wire_log i \<and>
    concat (map (task_message k) (task_queue i')) = concat (map (task_message k) (task_queue i)) @ [(k, bs)]"
  using assms by (simp add: amqp_dispatch_def new_promise_def post_def Let_def)

lemmas remote_dispatch_defs = pipe_dispatch_def mqtt_dispatch_def redis_dispatch_def nats_dispatch_def zmq_dispatch_def

lemma pipe_dispatch_ok:
  assumes "pipe_sends N p" and "pipe_message P X p v = Inr m"
  shows "\<exists>p'. pipe_dispatch P X N v p = (None, p') \<and> pipe_sends N p' \<and>
    pipe_log p' @ pipe_queue p' = pipe_log p @ pipe_queue p @ [m] \<and> pipe_message P X p' = pipe_message P X p"
proof -
  obtain bs where bs: "encode_payload P X (remote_format (obj p)) v = Inr bs" "m = (remote_dest (obj p), bs)"
    using assms(2) by (auto simp: encode_message)
  show ?thesis
  proof (cases "obj p")
    case (AmqpT i)
    then obtain i' where i': "amqp_dispatch P X v i = (None, i')" "amqp_cfg i' = amqp_cfg i" "connection i' = connection i"
        "channel i' = channel i" "io_thread i' = io_thread i" "wire_log i' = wire_log i"
        "concat (map (task_message (routing_key (amqp_cfg i))) (task_queue i')) =
           concat (map (task_message (routing_key (amqp_cfg i))) (task_queue i)) @ [(routing_key (amqp_cfg i), bs)]"
      using assms(1) bs(1) amqp_dispatch_posts [of i P X v bs "routing_key (amqp_cfg i)"] by (auto simp: pipe_sends_def)
    then show ?thesis
      using AmqpT assms(1) bs
      by (auto simp: pipe_dispatch_def pipe_sends_def pipe_log_def pipe_queue_def intro: pipe_message_cong)
  next
    case (ZmqT i)
    then show ?thesis
      using assms(1) bs
      by (auto simp: remote_dispatch_defs pipe_sends_def pipe_log_def pipe_queue_def pipe_message_def zmq_peer_leg)
  qed (use assms(1) bs in \<open>auto simp: remote_dispatch_defs pipe_sends_def pipe_log_def pipe_queue_def pipe_message_def\<close>)
qed

lemma pipe_dispatch_throws:
  assumes "pipe_sends N p" and "pipe_message P X p v = Inl e"
  shows "pipe_dispatch P X N v p = (Some e, p)"
  using assms
  by (cases "obj p") (auto simp: encode_message remote_dispatch_defs amqp_dispatch_def pipe_sends_def)

lemma pipe_settled:
  assumes "pipe_sends N p"
  shows "pipe_sends N (pipe_settle N p) \<and> pipe_log (pipe_settle N p) = pipe_log p @ pipe_queue p \<and>
    pipe_queue (pipe_settle N p) = [] \<and> pipe_message P X (pipe_settle N p) = pipe_message P X p"
proof (cases "obj p")
  case (AmqpT i)
  then have i: "connection i" "channel i" "io_thread i" "amqp_net N = accepting" "amqp_turns N \<noteq> []" "list_all live_turn (amqp_turns N)"
    using assms by (simp_all add: pipe_sends_def)
  then show ?thesis
    using AmqpT io_loop_sends [of "amqp_turns N" i]
    by (auto simp: pipe_sends_def pipe_settle_def pipe_log_def pipe_queue_def intro: pipe_message_cong)
qed (use assms in \<open>auto simp: pipe_sends_def pipe_settle_def pipe_log_def pipe_queue_def intro: pipe_message_cong\<close>)

interpretation pipe: outbound_pipe "pipe_dispatch P X N" "pipe_settle N" "pipe_sends N" pipe_log pipe_queue "pipe_message P X"
  for P :: "'r parcel_lib" and X and N
  by unfold_locales (rule pipe_dispatch_ok pipe_dispatch_throws pipe_settled; assumption)+

section \<open>Attaching to a reachable broker\<close>

text \<open>Every call of the client libraries succeeds, and the AMQP IO thread runs while its owner waits.\<close>

definition net_up :: "net \<Rightarrow> bool" where
  "net_up N \<longleftrightarrow>
     (\<forall>u c. client_new (mqtt_net N) u c = None) \<and> (\<forall>c t. client_connect (mqtt_net N) c t = None) \<and> up_after_connect (mqtt_net N) \<and>
     (\<forall>t q. client_subscribe (mqtt_net N) t q = None) \<and> (\<forall>t bs q. client_publish (mqtt_net N) t bs q = None) \<and>
     publish_wait (mqtt_net N) = None \<and>
     (\<forall>u. \<exists>opts. parse_uri (snd (redis_net N)) u = Inr opts) \<and>
     (\<forall>opts. redis_open (snd (redis_net N)) opts = None \<and> redis_ping (snd (redis_net N)) opts = None \<and>
        redis_make_subscriber (snd (redis_net N)) opts = None) \<and>
     (\<forall>c. redis_subscribe (snd (redis_net N)) c = None) \<and>
     options_create (snd (nats_net N)) = (NATS_OK, True) \<and> (\<forall>opt. options_set (snd (nats_net N)) opt = NATS_OK) \<and>
     (\<forall>os. connection_connect (snd (nats_net N)) os = (NATS_OK, True)) \<and>
     (\<forall>c q. connection_subscribe (snd (nats_net N)) c q = (NATS_OK, True)) \<and>
     (\<forall>c. snd (zmq_net N) c = None) \<and>
     amqp_pipe_ok N \<and> amqp_connects N = ConnOk \<and> (\<exists>q. amqp_reports N = [QueueDeclared q, QueueBound, ConsumeStarted]) \<and>
     amqp_net N = accepting \<and> amqp_turns N \<noteq> [] \<and> list_all live_turn (amqp_turns N)"

text \<open>An adapter as its constructor leaves it, without TLS.\<close>

fun remote_fresh :: "'r remote \<Rightarrow> bool" where
  "remote_fresh (MqttT i) = True"
| "remote_fresh (RedisT i) = (redis_tls (redis_cfg i) = None)"
| "remote_fresh (NatsT i) = (nats_tls (nats_cfg i) = None)"
| "remote_fresh (ZmqT i) = (zsocks i = (\<lambda>k. None) \<and> \<not> worker i)"
| "remote_fresh (AmqpT i) = (\<not> error_seen i \<and> task_queue i = [] \<and> wire_log i = [])"

fun has_outbound :: "'r remote \<Rightarrow> bool" where
  "has_outbound (ZmqT i) = (outbound_leg (zmq_cfg i) \<noteq> None)"
| "has_outbound r = True"

fun has_inbound :: "'r remote \<Rightarrow> bool" where
  "has_inbound (ZmqT i) = (inbound_leg (zmq_cfg i) \<noteq> None)"
| "has_inbound r = True"

text \<open>What stays of an adapter when it is attached, and what the attach adds.\<close>

definition attached_as :: "net \<Rightarrow> 'r remote \<Rightarrow> 'r remote \<Rightarrow> bool" where
  "attached_as N r r' \<longleftrightarrow> remote_dest r' = remote_dest r \<and> remote_source r' = remote_source r \<and> remote_format r' = remote_format r \<and>
     remote_base r' = adapter_install (remote_base r) \<and> (has_outbound r \<longrightarrow> remote_sends N r') \<and> (\<not> has_outbound r \<longrightarrow> (\<exists>i. r' = ZmqT i)) \<and>
     receiving r' = has_inbound r \<and>
     (\<forall>h. pipe_log \<lparr>obj = r', handed = h\<rparr> @ pipe_queue \<lparr>obj = r', handed = h\<rparr> =
        pipe_log \<lparr>obj = r, handed = h\<rparr> @ pipe_queue \<lparr>obj = r, handed = h\<rparr>)"

lemma truncate_eq:
  "adapter.truncate i = adapter.truncate j \<longleftrightarrow> adapter_format i = adapter_format j \<and> adapter_registry i = adapter_registry j \<and>
     sink_set i = sink_set j \<and> error_sink_set i = error_sink_set j"
  by (auto simp: adapter.defs)

lemma truncate_install: "adapter.truncate (adapter_install i) = adapter_install (adapter.truncate i)"
  by (simp add: adapter_install_def adapter.defs Let_def)

lemma mqtt_attached:
  assumes "net_up N"
  shows "\<exists>r'. remote_attach N (MqttT i) = (None, r') \<and> attached_as N (MqttT i) r'"
  using assms
  by (simp add: net_up_def mqtt_attach_def connect_blocking_def attached_as_def pipe_log_def pipe_queue_def
      truncate_install [symmetric] truncate_eq)

lemma redis_attached:
  assumes "net_up N" and "redis_tls (redis_cfg i) = None"
  shows "\<exists>r'. remote_attach N (RedisT i) = (None, r') \<and> attached_as N (RedisT i) r'"
proof -
  obtain opts where "parse_uri (snd (redis_net N)) (normalise_url (redis_url (redis_cfg i))) = Inr opts"
    using assms(1) unfolding net_up_def by blast
  then obtain opts where "to_connection_options (fst (redis_net N)) (snd (redis_net N)) (redis_cfg i) = Inr opts"
    using assms(2) by (auto simp: to_connection_options_def Let_def)
  then have "\<exists>i'. redis_connect_body (fst (redis_net N)) (snd (redis_net N)) (adapter_install i) = (None, i') \<and>
      redis_cfg i' = redis_cfg i \<and> publisher i' \<noteq> None \<and> adapter.truncate i' = adapter.truncate (adapter_install i)"
    using assms(1) by (simp add: redis_connect_body_def Let_def net_up_def truncate_eq)
  then obtain i' where "redis_connect_body (fst (redis_net N)) (snd (redis_net N)) (adapter_install i) = (None, i')"
      "redis_cfg i' = redis_cfg i" "publisher i' \<noteq> None" "adapter.truncate i' = adapter.truncate (adapter_install i)" by blast
  then show ?thesis
    by (auto simp: redis_attach_def attached_as_def pipe_log_def pipe_queue_def truncate_install [symmetric] truncate_eq)
qed

lemma nats_attached:
  assumes "net_up N" and "nats_tls (nats_cfg i) = None"
  shows "\<exists>r'. remote_attach N (NatsT i) = (None, r') \<and> attached_as N (NatsT i) r'"
proof -
  have "nats_accepts (nats_net N) (nats_cfg i)" using assms by (simp add: nats_accepts_def net_up_def)
  from nats_attach_ok [OF this] show ?thesis
    by (simp add: attached_as_def pipe_log_def pipe_queue_def truncate_install [symmetric] truncate_eq)
qed

lemma zmq_attach_base:
  assumes "zmq_attach env i = (None, i')"
  shows "adapter.truncate i' = adapter.truncate (adapter_install i) \<and> zmq_cfg i' = zmq_cfg i"
proof -
  have a: "adapter.truncate (zmq_apply c j) = adapter.truncate j" for c and j :: "'a zmq_impl"
    by (cases c) (simp_all add: truncate_eq)
  have r: "adapter.truncate (snd (zmq_run f cs j)) = adapter.truncate j" for f cs and j :: "'a zmq_impl"
    by (induction cs arbitrary: j) (simp_all add: a split: option.split)
  have b: "adapter.truncate (snd (zmq_connect_body cb f j)) = adapter.truncate j" for cb f and j :: "'a zmq_impl"
    using r [of f "open_calls cb (zmq_cfg j)" j] r [of f pair_calls "snd (zmq_run f (open_calls cb (zmq_cfg j)) j)"]
    by (auto simp: zmq_connect_body_def truncate_eq split: prod.splits option.splits)
  show ?thesis
    using assms b [of "fst env" "snd env" "adapter_install i"] zmq_attach_ok [OF assms]
    by (auto simp: zmq_attach_def truncate_eq split: prod.splits option.splits if_splits)
qed

lemma zmq_attached:
  assumes "net_up N" and "zsocks i = (\<lambda>k. None)" and "\<not> worker i"
  shows "\<exists>r'. remote_attach N (ZmqT i) = (None, r') \<and> attached_as N (ZmqT i) r'"
proof -
  have "snd (zmq_net N) c = None" for c using assms(1) by (simp add: net_up_def)
  then obtain i' where i': "zmq_attach (zmq_net N) i = (None, i')" "worker i' = (inbound_leg (zmq_cfg i) \<noteq> None)"
      "Option.bind (zsocks i' Outbound) leg_of = outbound_leg (zmq_cfg i)"
    using zmq_attach_runs [OF assms(2,3), of "fst (zmq_net N)" "snd (zmq_net N)"] by auto
  have "\<exists>x. zsocks i' Outbound = Some x \<and> leg_of x = outbound_leg (zmq_cfg i)" if "outbound_leg (zmq_cfg i) \<noteq> None"
    using i'(3) that by (cases "zsocks i' Outbound") auto
  then show ?thesis
    using i'(1,2) zmq_attach_base [OF i'(1)]
    by (auto simp: attached_as_def pipe_log_def pipe_queue_def truncate_install [symmetric])
qed

lemma amqp_attached:
  assumes "net_up N" and "\<not> error_seen i" and "task_queue i = []"
  shows "\<exists>r'. remote_attach N (AmqpT i) = (None, r') \<and> attached_as N (AmqpT i) r'"
proof -
  obtain q where q: "amqp_reports N = [QueueDeclared q, QueueBound, ConsumeStarted]" "amqp_connects N = ConnOk"
    "amqp_net N = accepting" "amqp_turns N \<noteq> []" "list_all live_turn (amqp_turns N)"
    using assms(1) by (auto simp: net_up_def)
  have d: "drain_tasks accepting (start_io_thread (adapter_install i)) = start_io_thread (adapter_install i)"
    using assms(3) by (simp add: drain_tasks_def start_io_thread_def)
  show ?thesis
    using q assms(2,3)
    by (simp add: amqp_attach_def connect_and_declare_def connect_task_def d report_def Let_def attached_as_def pipe_log_def
        pipe_queue_def truncate_install [symmetric] truncate_eq)
      (auto simp: start_io_thread_def adapter_install_def Let_def truncate_eq)
qed

lemma attach_reaches:
  assumes "net_up N" and "remote_fresh r"
  shows "\<exists>r'. remote_attach N r = (None, r') \<and> attached_as N r r'"
  using assms
  by (cases r) (simp_all del: remote_attach.simps add: mqtt_attached redis_attached nats_attached zmq_attached amqp_attached)

end
