(* ===== verification/Node.thy ===== *)
theory Node
  imports Pipes
begin

text \<open>
  A process with one bus over broker adapters, as the programs under \<^verbatim>\<open>transports/*/examples/\<close> set it up: the bus and its
  filtered transports, the pipes behind them, and what the process writes to \<^verbatim>\<open>std::cout\<close> and \<^verbatim>\<open>std::cerr\<close>. Messages that arrive are given
  to the adapter of the pipe they arrive on.
\<close>

section \<open>State\<close>

text \<open>The lambdas the programs listen with; the predicates of their filters are \<^verbatim>\<open>Glob::match(pattern, v.name())\<close>, named by the pattern.\<close>

datatype lam = PrintDevice | PrintChat string | PrintPicked string | PrintPulled

record 'r node = "(lam, unit, string, string, 'r) wired" +
  pipes :: "string \<Rightarrow> 'r pipe option"
  cout :: "string list"
  cerr :: "string list"
  hits :: int

text \<open>What a process runs with: the platform, the text codec, and for each of its adapters what that meets outside.\<close>

record 'r setting =
  plat :: "'r platform"
  codec :: text_codec
  nets :: "string \<Rightarrow> net"

definition put :: "string \<Rightarrow> 'r node \<Rightarrow> 'r node" where
  "put line s = s\<lparr>cout := cout s @ [line]\<rparr>"

definition put_err :: "string \<Rightarrow> 'r node \<Rightarrow> 'r node" where
  "put_err line s = s\<lparr>cerr := cerr s @ [line]\<rparr>"

text \<open>What each lambda prints for an event.\<close>

fun lambda_line :: "lam \<Rightarrow> cell \<Rightarrow> string" where
  "lambda_line PrintDevice c = ''received device_id='' @ text_member ''device_id'' c"
| "lambda_line (PrintChat me) c =
     ''['' @ me @ ''] '' @ (if text_member ''from'' c = me then ''(self) '' else []) @ text_member ''from'' c @ '' #'' @
     show_int (int_member ''seq'' c) @ '': '' @ text_member ''text'' c"
| "lambda_line (PrintPicked me) c = ''['' @ me @ ''] picked task '' @ text_member ''id'' c @ '': '' @ text_member ''payload'' c"
| "lambda_line PrintPulled c = ''[pull] received task '' @ show_int (int_member ''id'' c) @ '': '' @ text_member ''payload'' c"

definition call_lambda :: "lam \<Rightarrow> cell \<Rightarrow> 'r node \<Rightarrow> exn option \<times> 'r node" where
  "call_lambda f c s = (None, (put (lambda_line f c) s)\<lparr>hits := (if f = PrintDevice then hits s + 1 else hits s)\<rparr>)"

section \<open>The bus over its pipes\<close>

definition on_pipe :: "string \<Rightarrow> ('r pipe \<Rightarrow> 'r pipe) \<Rightarrow> 'r node \<Rightarrow> 'r node" where
  "on_pipe l f s = s\<lparr>pipes := (pipes s)(l := map_option f (pipes s l))\<rparr>"

definition node_attach :: "'r setting \<Rightarrow> string \<Rightarrow> string inbound_sink \<Rightarrow> 'r node \<Rightarrow> exn option \<times> 'r node" where
  "node_attach G l sink s =
     (case base_attach_with_sink l sink s of (r, s) \<Rightarrow>
      (case pipes s l of
         None \<Rightarrow> (None, s)
       | Some p \<Rightarrow> (case remote_attach (nets G l) (obj p) of (e, r) \<Rightarrow> (e, s\<lparr>pipes := (pipes s)(l \<mapsto> p\<lparr>obj := r\<rparr>)\<rparr>))))"

definition node_dispatch :: "'r setting \<Rightarrow> string \<Rightarrow> env \<Rightarrow> 'r node \<Rightarrow> exn option \<times> 'r node" where
  "node_dispatch G l v s =
     (case pipes s l of
        None \<Rightarrow> (None, s)
      | Some p \<Rightarrow> (case pipe_dispatch (lib (plat G)) (codec G) (nets G l) (cores s v) p of (e, p) \<Rightarrow>
          (e, s\<lparr>pipes := (pipes s)(l \<mapsto> p)\<rparr>)))"

definition node_leaves :: "'r setting \<Rightarrow> ('r node, string, string) leaf_ops" where
  "node_leaves G =
     \<lparr>call_predicate = (\<lambda>pat v s. (Inr (glob_match pat (name_of v s)), s)),
      leaf_scope = (\<lambda>l. Remote),
      leaf_attach = node_attach G,
      leaf_dispatch = node_dispatch G,
      leaf_flush = (\<lambda>l s. (None, on_pipe l (\<lambda>p. p\<lparr>obj := remote_flush (nets G l) (obj p)\<rparr>) s)),
      leaf_detach = (\<lambda>l. on_pipe l (\<lambda>p. p\<lparr>obj := remote_detach (nets G l) (obj p)\<rparr>))\<rparr>"

text \<open>Every transport, and every lambda, has the default priority.\<close>

definition node_host :: "'r setting \<Rightarrow> ('r node, lam, unit, (string, string) transport, 'r) host" where
  "node_host G =
     \<lparr>parcel = lib (plat G), now = clock_at (plat G), generate_ulid = fresh_ulid (plat G),
      derives = (\<lambda>a b. a = b), default_priority = 0,
      insert_transport = (\<lambda>t ts. ts @ [t]), insert_middleware = (\<lambda>m ms. ms @ [m]),
      insert_listener = (\<lambda>p e es. takeWhile (\<lambda>x. listener_priority x \<le> p) es @ e #
         dropWhile (\<lambda>x. listener_priority x \<le> p) es),
      invocable_payload = (\<lambda>T f. True), invocable_envelope = (\<lambda>f. False),
      has_priority = (\<lambda>f. False), handler_null = (\<lambda>f. False), handler_priority = (\<lambda>f. 0),
      call_payload = call_lambda, call_envelope = (\<lambda>f v s. (None, s)), call_on_event = (\<lambda>f c s. (None, s)),
      before_dispatch = (\<lambda>m v s. (Inr True, v, s)), after_dispatch = (\<lambda>m v s. (None, v, s)),
      on_error = (\<lambda>m v e s. (None, v, s)), on_transport_error = (\<lambda>m n e s. (None, s)),
      t_scope = transport_scope (node_leaves G), t_attach = transport_attach (node_leaves G),
      t_dispatch = transport_dispatch (node_leaves G), t_flush = transport_flush (node_leaves G),
      t_detach = transport_detach (node_leaves G)\<rparr>"

definition node_new :: "'r setting \<Rightarrow> 'r node" where
  "node_new G = Bus_new (lib (plat G)) None \<lparr>bus_ptr = (\<lambda>l. False), sink_of = (\<lambda>l. NullSink), pipes = (\<lambda>l. None),
     cout = [], cerr = [], hits = 0\<rparr>"

text \<open>\<^verbatim>\<open>bus.publish(conduit::event(x).build())\<close>.\<close>

definition node_publish :: "'r setting \<Rightarrow> event_type \<Rightarrow> json \<Rightarrow> 'r node \<Rightarrow> 'r node" where
  "node_publish G T x s =
     (case build (fresh_ulid (plat G) (heap_next s)) (clock_at (plat G)) (event (flag_insert (wire (lib (plat G)))) T x) s of
        (v, s) \<Rightarrow> publish_envelope (node_host G) v s)"

text \<open>A message arrives on pipe \<open>l\<close>.\<close>

definition node_receive :: "'r setting \<Rightarrow> string \<Rightarrow> bytes \<Rightarrow> 'r node \<Rightarrow> 'r node" where
  "node_receive G l bs s =
     (case pipes s l of
        None \<Rightarrow> s
      | Some p \<Rightarrow> if receiving (obj p) then remote_receive (node_leaves G) (node_host G) (codec G) l (obj p) bs s else s)"

text \<open>\<^verbatim>\<open>std::this_thread::sleep_for\<close>: the IO threads run.\<close>

definition node_sleep :: "'r setting \<Rightarrow> 'r node \<Rightarrow> 'r node" where
  "node_sleep G s = s\<lparr>pipes := (\<lambda>l. map_option (pipe_settle (nets G l)) (pipes s l))\<rparr>"

text \<open>\<^verbatim>\<open>std::make_shared<Transport>(cfg)\<close>, with what the constructor gave.\<close>

definition make_transport :: "string \<Rightarrow> 'r remote throws \<Rightarrow> 'r node \<Rightarrow> exn option \<times> 'r node" where
  "make_transport l r s =
     (case r of Inl e \<Rightarrow> (Some e, s) | Inr r \<Rightarrow> (None, s\<lparr>pipes := (pipes s)(l \<mapsto> \<lparr>obj = r, handed = []\<rparr>)\<rparr>))"

text \<open>\<^verbatim>\<open>bus.use_transport<Transport>(cfg)\<close> and \<^verbatim>\<open>bus.use_transport<FilteredTransport>(inner, outbound)\<close>.\<close>

definition throws_of :: "'a throws \<times> 's \<Rightarrow> exn option \<times> 's" where
  "throws_of r = (case r of (Inl e, s) \<Rightarrow> (Some e, s) | (Inr x, s) \<Rightarrow> (None, s))"

definition use_leaf :: "'r setting \<Rightarrow> string \<Rightarrow> 'r remote throws \<Rightarrow> 'r node \<Rightarrow> exn option \<times> 'r node" where
  "use_leaf G l r s = throws_of (use_transport_make (node_host G)
     (\<lambda>s. case make_transport l r s of (Some e, s) \<Rightarrow> (Inl e, s) | (None, s) \<Rightarrow> (Inr (Leaf l), s)) s)"

definition use_filtered :: "'r setting \<Rightarrow> string \<Rightarrow> string \<Rightarrow> 'r node \<Rightarrow> exn option \<times> 'r node" where
  "use_filtered G l pat s = throws_of (use_transport_make (node_host G)
     (\<lambda>s. (Inr (FilteredTransport (Leaf l) (Some pat) None), s)) s)"

text \<open>
  Leaving \<^verbatim>\<open>main\<close>: the subscriptions, the bus, and with it its adapters, are destroyed.
\<close>

definition node_leave :: "'r setting \<Rightarrow> Subscription list \<Rightarrow> 'r node \<Rightarrow> 'r node" where
  "node_leave G hs s =
     (let s = Bus_destroy (node_host G) (fold (subscription_destroy release) (rev hs) s)
      in s\<lparr>pipes := (\<lambda>l. map_option (\<lambda>p. p\<lparr>obj := remote_destroy (nets G l) (obj p)\<rparr>) (pipes s l))\<rparr>)"

section \<open>Publishing\<close>

text \<open>Whether all filters of a stack of wrappers let a name out.\<close>

definition lets_out :: "(string, string) transport \<Rightarrow> string \<Rightarrow> bool" where
  "lets_out t name = list_all (\<lambda>p. case p of None \<Rightarrow> True | Some pat \<Rightarrow> glob_match pat name) (outbound_stack t)"

lemma node_ask_all:
  "ask_all (node_leaves G) ps v s =
     (list_all (\<lambda>p. case p of None \<Rightarrow> True | Some pat \<Rightarrow> glob_match pat (name_of v s)) ps, s)"
  by (induction ps) (auto simp: allowed_def node_leaves_def split: option.split)

definition send_on :: "'r setting \<Rightarrow> EnvelopeCore option \<Rightarrow> (string, string) transport \<Rightarrow> 'r node \<Rightarrow> 'r node" where
  "send_on G c t s = (if lets_out t (env_name c)
     then on_pipe (leaf_of t) (\<lambda>p. snd (pipe_dispatch (lib (plat G)) (codec G) (nets G (leaf_of t)) c p)) s else s)"

lemma node_host_simps [simp]:
  "t_scope (node_host G) t = Remote" "t_dispatch (node_host G) = transport_dispatch (node_leaves G)"
  "now (node_host G) = clock_at (plat G)" "parcel (node_host G) = lib (plat G)" "derives (node_host G) a b = (a = b)"
  "call_payload (node_host G) = call_lambda" "t_flush (node_host G) = transport_flush (node_leaves G)"
  "t_detach (node_host G) = transport_detach (node_leaves G)" "t_attach (node_host G) = transport_attach (node_leaves G)"
  "insert_transport (node_host G) u us = us @ [u]" "generate_ulid (node_host G) = fresh_ulid (plat G)"
  by (simp_all add: node_host_def forwards node_leaves_def)

lemma node_leaves_simps [simp]:
  "leaf_dispatch (node_leaves G) = node_dispatch G" "leaf_attach (node_leaves G) = node_attach G"
  "leaf_flush (node_leaves G) l s = (None, on_pipe l (\<lambda>p. p\<lparr>obj := remote_flush (nets G l) (obj p)\<rparr>) s)"
  "leaf_detach (node_leaves G) l = on_pipe l (\<lambda>p. p\<lparr>obj := remote_detach (nets G l) (obj p)\<rparr>)"
  by (simp_all add: node_leaves_def)

lemma dispatch_one_node:
  assumes "middleware s = []"
  shows "dispatch_one (node_host G) False ro v t s = send_on G (cores s v) t s"
proof -
  have "s\<lparr>pipes := (pipes s)(l := None)\<rparr> = s" if "pipes s l = None" for l using that fun_upd_idem [of "pipes s" l] by simp
  moreover have "name_of v s = env_name (cores s v)" by (simp add: name_of_def)
  ultimately show ?thesis
    using assms
    by (auto simp: dispatch_one_def dispatch_asks node_ask_all send_on_def lets_out_def on_pipe_def node_dispatch_def
        run_on_error_def split: prod.split option.split)
qed

lemma send_on_frame [simp]:
  "cores (send_on G c t s) = cores s" "middleware (send_on G c t s) = middleware s" "transports (send_on G c t s) = transports s"
  "heap_next (send_on G c t s) = heap_next s" "listeners (send_on G c t s) = listeners s" "cout (send_on G c t s) = cout s"
  "cerr (send_on G c t s) = cerr s" "hits (send_on G c t s) = hits s" "shutdown_flag (send_on G c t s) = shutdown_flag s"
  "registry (send_on G c t s) = registry s" "sink_of (send_on G c t s) = sink_of s" "bus_ptr (send_on G c t s) = bus_ptr s"
  by (simp_all add: send_on_def on_pipe_def)

lemma fold_send_frame [simp]:
  fixes s :: "'r node"
  shows "cores (fold (send_on G c) ts s) = cores s" "middleware (fold (send_on G c) ts s) = middleware s"
    "transports (fold (send_on G c) ts s) = transports s" "heap_next (fold (send_on G c) ts s) = heap_next s"
    "listeners (fold (send_on G c) ts s) = listeners s" "cout (fold (send_on G c) ts s) = cout s" "cerr (fold (send_on G c) ts s) = cerr s"
    "hits (fold (send_on G c) ts s) = hits s" "shutdown_flag (fold (send_on G c) ts s) = shutdown_flag s"
    "registry (fold (send_on G c) ts s) = registry s" "sink_of (fold (send_on G c) ts s) = sink_of s"
    "bus_ptr (fold (send_on G c) ts s) = bus_ptr s"
  by (induction ts arbitrary: s) simp_all

lemma route_node:
  assumes "middleware s = []"
  shows "fold (dispatch_one (node_host G) False ro v) ts s = fold (send_on G (cores s v)) ts s"
  using assms
proof (induction ts arbitrary: s)
  case (Cons t ts)
  then show ?case using Cons.IH [of "send_on G (cores s v) t s"] by (simp add: dispatch_one_node)
qed simp

lemma pipes_send_cong:
  fixes s s' :: "'r node"
  shows "pipes s' = pipes s \<Longrightarrow> pipes (fold (send_on G c) ts s') = pipes (fold (send_on G c) ts s)"
proof (induction ts arbitrary: s s')
  case (Cons t ts)
  show ?case using Cons.IH [of "send_on G c t s'" "send_on G c t s"] Cons.prems by (simp add: send_on_def on_pipe_def)
qed simp

text \<open>One publish: a fresh stamped envelope, offered to the transports in order; the rest of the process is as before.\<close>

lemma node_publish_effect:
  fixes s :: "'r node" and G :: "'r setting" and x :: json
  assumes "middleware s = []" and "transports s \<noteq> []"
    and "\<not> contains_flag (collect_default_flags (flag_insert (wire (lib (plat G)))) T) LocalOnly"
  defines "p \<equiv> node_publish G T x s" and "c \<equiv> published_core (node_host G) T x s"
  shows "cores p = (cores s)(heap_next s \<mapsto> c)" "heap_next p = Suc (heap_next s)"
    "pipes p = pipes (fold (send_on G (Some c)) (transports s) s)"
    "transports p = transports s" "middleware p = []" "listeners p = listeners s" "cout p = cout s" "cerr p = cerr s"
    "hits p = hits s" "shutdown_flag p = shutdown_flag s" "registry p = registry s" "sink_of p = sink_of s" "bus_ptr p = bus_ptr s"
proof -
  let ?c0 = "c\<lparr>core_timestamps := empty_timestamps\<lparr>created_at := clock_at (plat G) (clock s)\<rparr>\<rparr>"
  define s1 where "s1 = s\<lparr>clock := Suc (clock s), cores := (cores s)(heap_next s \<mapsto> ?c0), heap_next := Suc (heap_next s)\<rparr>"
  have b: "p = publish_impl (node_host G) (heap_next s) s1"
    by (simp add: p_def c_def s1_def node_publish_def build_def event_def builder_new_def alloc_core_def read_clock_def
        envelope_of_core_def publish_envelope_def published_core_def empty_core_def Let_def)
  obtain t s2 where s2: "begin_publish (node_host G) (heap_next s) s1 = (t, s2)" by fastforce
  have f: "middleware s2 = []" "transports s2 = transports s" "cores s2 = (cores s)(heap_next s \<mapsto> c)" "pipes s2 = pipes s"
    "heap_next s2 = Suc (heap_next s)" "listeners s2 = listeners s" "cout s2 = cout s" "cerr s2 = cerr s" "hits s2 = hits s"
    "shutdown_flag s2 = shutdown_flag s" "registry s2 = registry s" "sink_of s2 = sink_of s" "bus_ptr s2 = bus_ptr s"
    using s2 assms(1)
    by (auto simp: s1_def c_def begin_publish_def read_clock_def update_timestamps_def update_core_def meter_def published_core_def
        empty_core_def Let_def)
  have lo: "\<not> contains_flag (core_flags (core_at (heap_next s) s1)) LocalOnly"
    using assms(3) by (simp add: s1_def c_def core_at_def published_core_def)
  have "p = record_elapsed (node_host G) t (heap_next s) (fold (send_on G (Some c)) (transports s) s2)"
    using lo f(1,3) assms(2) unfolding b publish_impl_def s2
    by (simp add: Let_def check_conflict_def route_def route_node f(2))
  then have q: "(\<exists>k. p = (fold (send_on G (Some c)) (transports s) s2)\<lparr>clock := k\<rparr>) \<or>
      (\<exists>k m. p = (fold (send_on G (Some c)) (transports s) s2)\<lparr>clock := k, metrics := m\<rparr>)"
    by (auto simp: record_elapsed_def read_clock_def meter_def Let_def)
  have "pipes (fold (send_on G (Some c)) (transports s) s2) = pipes (fold (send_on G (Some c)) (transports s) s)"
    by (rule pipes_send_cong) (rule f(4))
  then show "cores p = (cores s)(heap_next s \<mapsto> c)" "heap_next p = Suc (heap_next s)"
    "pipes p = pipes (fold (send_on G (Some c)) (transports s) s)"
    "transports p = transports s" "middleware p = []" "listeners p = listeners s" "cout p = cout s" "cerr p = cerr s"
    "hits p = hits s" "shutdown_flag p = shutdown_flag s" "registry p = registry s" "sink_of p = sink_of s" "bus_ptr p = bus_ptr s"
    using q f by auto
qed

section \<open>What leaves on which pipe\<close>

text \<open>Every transport of the bus is a pipe that sends, behind any stack of filters, each pipe used once.\<close>

definition node_sends :: "'r setting \<Rightarrow> 'r node \<Rightarrow> bool" where
  "node_sends G s \<longleftrightarrow> middleware s = [] \<and> transports s \<noteq> [] \<and> distinct (map leaf_of (transports s)) \<and>
     list_all (\<lambda>t. case pipes s (leaf_of t) of None \<Rightarrow> False | Some p \<Rightarrow> pipe_sends (nets G (leaf_of t)) p) (transports s)"

text \<open>The messages envelopes become on a pipe: those whose names the filters let out, encoded, all to the pipe's destination.\<close>

definition pipe_traffic :: "'r setting \<Rightarrow> (string, string) transport \<Rightarrow> 'r remote \<Rightarrow> EnvelopeCore list \<Rightarrow> (string \<times> bytes) list" where
  "pipe_traffic G t r cs =
     concat (map (\<lambda>c. case encode_payload (lib (plat G)) (codec G) (remote_format r) (Some c) of
         Inr bs \<Rightarrow> [(remote_dest r, bs)] | Inl e \<Rightarrow> [])
       (filter (\<lambda>c. lets_out t (env_name (Some c))) cs))"

lemma pipe_traffic_simps:
  "pipe_traffic G t r [] = []"
  "pipe_traffic G t r (cs @ ds) = pipe_traffic G t r cs @ pipe_traffic G t r ds"
  by (simp_all add: pipe_traffic_def)

lemma traffic_formed:
  "pipe_traffic G t (obj p) [c] =
     (if lets_out t (env_name (Some c)) then pipe.formed (lib (plat G)) (codec G) p (Some c) else [])"
  by (simp add: pipe_traffic_def pipe.formed_def pipe_message_def and_then_def split: sum.split)

lemma fold_send_at:
  fixes s :: "'r node"
  assumes "distinct (map leaf_of ts)" and "t \<in> set ts"
  shows "pipes (fold (send_on G c) ts s) (leaf_of t) = pipes (send_on G c t s) (leaf_of t)"
proof -
  have other: "pipes (fold (send_on G c) us s) l = pipes s l" if "l \<notin> leaf_of ` set us" for us l and s :: "'r node"
    using that by (induction us arbitrary: s) (auto simp: send_on_def on_pipe_def)
  show ?thesis
    using assms
  proof (induction ts arbitrary: s)
    case (Cons u us)
    show ?case
    proof (cases "u = t")
      case True
      then show ?thesis using Cons.prems other [of "leaf_of t" us] by auto
    next
      case False
      then have t: "t \<in> set us" "leaf_of u \<noteq> leaf_of t" using Cons.prems by auto
      then show ?thesis using Cons.IH [of "send_on G c u s"] Cons.prems by (simp add: send_on_def on_pipe_def)
    qed
  qed simp
qed

text \<open>What a pipe has taken since it was \<open>p0\<close>.\<close>

definition carried :: "'r setting \<Rightarrow> (string, string) transport \<Rightarrow> 'r pipe \<Rightarrow> EnvelopeCore list \<Rightarrow> 'r pipe \<Rightarrow> bool" where
  "carried G t p0 cs p \<longleftrightarrow> pipe_sends (nets G (leaf_of t)) p \<and>
     pipe_log p @ pipe_queue p = pipe_log p0 @ pipe_queue p0 @ pipe_traffic G t (obj p0) cs \<and>
     pipe_message (lib (plat G)) (codec G) p = pipe_message (lib (plat G)) (codec G) p0"

lemma carried_send:
  assumes "carried G t p0 cs p" and "pipes s (leaf_of t) = Some p"
  shows "\<exists>p'. pipes (send_on G (Some c) t s) (leaf_of t) = Some p' \<and> carried G t p0 (cs @ [c]) p'"
proof (cases "lets_out t (env_name (Some c))")
  case True
  let ?N = "nets G (leaf_of t)" and ?P = "lib (plat G)" and ?X = "codec G"
  let ?p' = "snd (pipe_dispatch ?P ?X ?N (Some c) p)"
  have p: "pipe_sends ?N p" "pipe_message ?P ?X p = pipe_message ?P ?X p0"
    "pipe_log p @ pipe_queue p = pipe_log p0 @ pipe_queue p0 @ pipe_traffic G t (obj p0) cs"
    using assms(1) by (simp_all add: carried_def)
  have "pipe.formed ?P ?X p (Some c) = pipe.formed ?P ?X p0 (Some c)" using p(2) by (simp add: pipe.formed_def)
  then have "carried G t p0 (cs @ [c]) ?p'"
    using True p pipe.dispatch_one_carries [OF p(1), of ?P ?X "Some c"] append_assoc [of "pipe_log p" "pipe_queue p"]
    by (simp add: carried_def pipe_traffic_simps traffic_formed)
  then show ?thesis using True assms(2) by (simp add: send_on_def on_pipe_def)
next
  case False
  then show ?thesis using assms by (simp add: send_on_def carried_def pipe_traffic_simps traffic_formed)
qed

lemma node_sleep_simps [simp]:
  "cout (node_sleep G s) = cout s" "cerr (node_sleep G s) = cerr s" "hits (node_sleep G s) = hits s" "registry (node_sleep G s) = registry s"
  "transports (node_sleep G s) = transports s" "middleware (node_sleep G s) = middleware s" "shutdown_flag (node_sleep G s) = shutdown_flag s"
  "heap_next (node_sleep G s) = heap_next s" "cores (node_sleep G s) = cores s"
  by (simp_all add: node_sleep_def)

text \<open>What all pipes of a node have taken since it was \<open>s0\<close>, and the envelopes it holds when nothing was received meanwhile.\<close>

definition pipes_since :: "'r setting \<Rightarrow> 'r node \<Rightarrow> EnvelopeCore list \<Rightarrow> 'r node \<Rightarrow> bool" where
  "pipes_since G s0 cs s \<longleftrightarrow> transports s = transports s0 \<and> middleware s = [] \<and> shutdown_flag s = shutdown_flag s0 \<and>
     (\<forall>t \<in> set (transports s0). \<forall>p0. pipes s0 (leaf_of t) = Some p0 \<longrightarrow>
        (\<exists>p. pipes s (leaf_of t) = Some p \<and> carried G t p0 cs p))"

definition published_since :: "'r setting \<Rightarrow> 'r node \<Rightarrow> EnvelopeCore list \<Rightarrow> 'r node \<Rightarrow> bool" where
  "published_since G s0 cs s \<longleftrightarrow> pipes_since G s0 cs s \<and> cout s = cout s0 \<and> cerr s = cerr s0 \<and>
     heap_next s = heap_next s0 + length cs \<and>
     (\<forall>k < length cs. cores s (heap_next s0 + k) = Some (cs ! k))"

lemma pipes_publish:
  assumes "node_sends G s0" and "pipes_since G s0 cs s"
    and "\<not> contains_flag (collect_default_flags (flag_insert (wire (lib (plat G)))) T) LocalOnly"
  shows "pipes_since G s0 (cs @ [published_core (node_host G) T x s]) (node_publish G T x s)"
proof -
  let ?c = "published_core (node_host G) T x s" and ?p = "node_publish G T x s"
  have s: "middleware s = []" "transports s = transports s0" "transports s \<noteq> []" "distinct (map leaf_of (transports s))"
    using assms(1,2) by (auto simp: pipes_since_def node_sends_def)
  note e = node_publish_effect [OF s(1,3) assms(3), of x]
  have "\<exists>p. pipes ?p (leaf_of t) = Some p \<and> carried G t p0 (cs @ [?c]) p"
    if a: "t \<in> set (transports s0)" "pipes s0 (leaf_of t) = Some p0" for t p0
  proof -
    obtain p where "pipes s (leaf_of t) = Some p" "carried G t p0 cs p"
      using assms(2) a unfolding pipes_since_def by blast
    then show ?thesis
      using carried_send [of G t p0 cs p s ?c] fold_send_at [OF s(4), of t G "Some ?c" s] a(1) s(2) by (simp add: e(3))
  qed
  then show ?thesis using s assms(2) by (simp add: pipes_since_def e)
qed

lemma pipes_sleep:
  assumes "pipes_since G s0 cs s"
  shows "pipes_since G s0 cs (node_sleep G s)"
proof -
  have c: "carried G t p0 cs (pipe_settle (nets G (leaf_of t)) p)" if "carried G t p0 cs p" for t p0 p
    using that pipe.settled [of "nets G (leaf_of t)" p "lib (plat G)" "codec G"] by (simp add: carried_def)
  have "\<exists>p. pipes (node_sleep G s) (leaf_of t) = Some p \<and> carried G t p0 cs p"
    if a: "t \<in> set (transports s0)" "pipes s0 (leaf_of t) = Some p0" for t p0
  proof -
    obtain p where "pipes s (leaf_of t) = Some p" "carried G t p0 cs p"
      using assms a unfolding pipes_since_def by blast
    then show ?thesis using c by (simp add: node_sleep_def)
  qed
  then show ?thesis using assms by (simp add: pipes_since_def node_sleep_def)
qed

lemma published_publish:
  assumes "node_sends G s0" and "published_since G s0 cs s"
    and "\<not> contains_flag (collect_default_flags (flag_insert (wire (lib (plat G)))) T) LocalOnly"
  shows "published_since G s0 (cs @ [published_core (node_host G) T x s]) (node_publish G T x s)"
proof -
  have s: "middleware s = []" "transports s \<noteq> []" "pipes_since G s0 cs s"
    using assms(1,2) by (auto simp: published_since_def pipes_since_def node_sends_def)
  show ?thesis
    using assms(2) pipes_publish [OF assms(1) s(3) assms(3), of x]
    by (auto simp: published_since_def node_publish_effect [OF s(1,2) assms(3)] nth_append less_Suc_eq)
qed

lemma published_all:
  assumes "node_sends G s0" and "published_since G s0 cs0 s"
    and "list_all (\<lambda>(T, x). \<not> contains_flag (collect_default_flags (flag_insert (wire (lib (plat G)))) T) LocalOnly) es"
  shows "\<exists>cs. map payload_cell cs = map (\<lambda>(T, x). Some (event_cell T x)) es \<and>
    published_since G s0 (cs0 @ cs) (fold (\<lambda>(T, x). node_publish G T x) es s)"
  using assms(2,3)
proof (induction es arbitrary: cs0 s)
  case (Cons e es)
  obtain T x where e: "e = (T, x)" by (cases e)
  let ?c = "published_core (node_host G) T x s"
  have c: "payload_cell ?c = Some (event_cell T x)" by (simp add: published_core_def)
  have p: "published_since G s0 (cs0 @ [?c]) (node_publish G T x s)"
    using published_publish [OF assms(1) Cons.prems(1)] Cons.prems(2) e by simp
  obtain cs where "map payload_cell cs = map (\<lambda>(T, x). Some (event_cell T x)) es"
      "published_since G s0 ((cs0 @ [?c]) @ cs) (fold (\<lambda>(T, x). node_publish G T x) es (node_publish G T x s))"
    using Cons.IH [OF p] Cons.prems(2) by auto
  then show ?case using c e by (intro exI [of _ "?c # cs"]) simp
qed (auto intro!: exI [of _ "[]"])

lemma published_none: "node_sends G s \<Longrightarrow> published_since G s [] s"
  by (auto simp: node_sends_def published_since_def pipes_since_def carried_def pipe_traffic_simps list_all_iff split: option.splits)

lemma pipes_settled:
  assumes "pipes_since G s0 cs s" and "t \<in> set (transports s0)" and "pipes s0 (leaf_of t) = Some p0"
  shows "\<exists>p. pipes (node_sleep G s) (leaf_of t) = Some p \<and> pipe_sends (nets G (leaf_of t)) p \<and> pipe_queue p = [] \<and>
    pipe_log p = pipe_log p0 @ pipe_queue p0 @ pipe_traffic G t (obj p0) cs"
proof -
  obtain p where "pipes s (leaf_of t) = Some p" "carried G t p0 cs p" using assms unfolding pipes_since_def by blast
  then show ?thesis
    using pipe.settled [of "nets G (leaf_of t)" p] by (simp add: node_sleep_def carried_def)
qed

section \<open>Receiving\<close>

text \<open>The process listens for \<open>T\<close> with \<open>f\<close>, and for nothing else, and pipe \<open>l\<close> is attached to its bus and receives.\<close>

definition node_listens :: "event_type \<Rightarrow> lam \<Rightarrow> string \<Rightarrow> Format \<Rightarrow> 'r node \<Rightarrow> bool" where
  "node_listens T f l fmt s \<longleftrightarrow> (\<exists>p. pipes s l = Some p \<and> receiving (obj p) \<and> remote_base (obj p) = adapter_install (adapter_new fmt None)) \<and>
     sink_of s l = BusSink \<and> middleware s = [] \<and>
     (\<exists>n. listeners s = [\<lparr>entry_id = n, handler = WrapPayload T f, name_or_pattern = event_name_v T, is_pattern = False,
        listener_priority = 0\<rparr>])"

text \<open>What the listener makes of received bytes: nothing unless they decode to an event of its name and type.\<close>

definition heard :: "'r setting \<Rightarrow> event_type \<Rightarrow> Format \<Rightarrow> 'r EventRegistry \<Rightarrow> bytes \<Rightarrow> cell option" where
  "heard G T fmt g bs =
     (case decode_payload (lib (plat G)) (codec G) fmt g bs of
        Inl e \<Rightarrow> None
      | Inr core \<Rightarrow> if env_name (Some core) = event_name_v T then payload_as (\<lambda>a b. a = b) T (Some core) else None)"

text \<open>NATS and ZeroMQ drop empty messages, and NATS lengths are 32-bit.\<close>

definition whole :: "bytes \<Rightarrow> bool" where
  "whole bs = (bs \<noteq> [] \<and> length bs < 2 ^ 31)"

lemma deliver_payload_base:
  "deliver_payload L H X n l i bs s = deliver_payload L H X n l (adapter.truncate i) bs s"
  by (simp add: deliver_payload_def adapter.defs split: option.split sum.split)

lemma remote_receive_base:
  assumes "whole bs"
  shows "\<exists>n. remote_receive L H X l r bs s = deliver_payload L H X n l (remote_base r) bs s"
  using assms
  by (cases r) (auto simp: whole_def message_arrived_def msg_handler_def nats_deliver_bytes_def sint_length zmq_deliver_bytes_def
      deliver_message_def deliver_payload_base [symmetric])

lemma node_report:
  assumes "middleware s = []"
  shows "report_transport_error (node_host G) n e s = meter (Inc transport_errors [(''transport'', n)]) s"
  using assms by (simp add: report_transport_error_def)

lemma deliver_lambda:
  fixes s :: "'r node"
  assumes "listeners s = [\<lparr>entry_id = n, handler = WrapPayload T f, name_or_pattern = event_name_v T, is_pattern = False, listener_priority = 0\<rparr>]"
    and "cores s v = Some core"
  shows "deliver_to_listeners (node_host G) v s =
    (if env_name (Some core) \<noteq> event_name_v T then s
     else let s = meter (Inc listener_invocations (event_labels (event_name_v T))) s
       in case payload_as (\<lambda>a b. a = b) T (Some core) of None \<Rightarrow> s | Some c \<Rightarrow> snd (call_lambda f c s))"
  using assms
  by (auto simp: deliver_to_listeners_def deliver_one_def entry_matches_def name_of_def call_lambda_def Let_def meter_def node_host_def
      split: option.split)

lemma node_receive_effect:
  fixes s :: "'r node" and G :: "'r setting"
  assumes "node_listens T f l fmt s" and "whole bs"
  defines "r \<equiv> node_receive G l bs s"
  shows "cout r = cout s @ (case heard G T fmt (registry s) bs of None \<Rightarrow> [] | Some c \<Rightarrow> [lambda_line f c])"
    "hits r = (if f = PrintDevice \<and> heard G T fmt (registry s) bs \<noteq> None then hits s + 1 else hits s)"
    "pipes r = pipes s" "node_listens T f l fmt r" "registry r = registry s" "cerr r = cerr s" "transports r = transports s"
    "shutdown_flag r = shutdown_flag s"
proof -
  obtain p n where p: "pipes s l = Some p" "receiving (obj p)" "remote_base (obj p) = adapter_install (adapter_new fmt None)"
    and s: "sink_of s l = BusSink" "middleware s = []"
      "listeners s = [\<lparr>entry_id = n, handler = WrapPayload T f, name_or_pattern = event_name_v T, is_pattern = False, listener_priority = 0\<rparr>]"
    using assms(1) by (auto simp: node_listens_def)
  obtain m where m: "r = deliver_payload (node_leaves G) (node_host G) (codec G) m l (adapter_install (adapter_new fmt None)) bs s"
    using remote_receive_base [OF assms(2), of "node_leaves G" "node_host G" "codec G" l "obj p" s] p
    by (auto simp: r_def node_receive_def)
  have e: "\<exists>u. r = u \<and> cout u = cout s @ (case heard G T fmt (registry s) bs of None \<Rightarrow> [] | Some c \<Rightarrow> [lambda_line f c]) \<and>
      hits u = (if f = PrintDevice \<and> heard G T fmt (registry s) bs \<noteq> None then hits s + 1 else hits s) \<and>
      pipes u = pipes s \<and> sink_of u = sink_of s \<and> middleware u = middleware s \<and> listeners u = listeners s \<and>
      registry u = registry s \<and> cerr u = cerr s \<and> transports u = transports s \<and> shutdown_flag u = shutdown_flag s"
  proof (cases "decode_payload (lib (plat G)) (codec G) fmt (registry s) bs")
    case (Inl e)
    then show ?thesis
      using s(2) unfolding m
      by (simp add: deliver_payload_def adapter_new_def call_error_sink_def node_report heard_def) (simp add: meter_def)
  next
    case (Inr core)
    then show ?thesis
      using s unfolding m
      by (auto simp: deliver_payload_def adapter_new_def alloc_core_def read_clock_def update_timestamps_def update_core_def deliver_inbound_def
          deliver_lambda heard_def call_lambda_def put_def meter_def env_name_def payload_as_def Let_def split: option.splits)
  qed
  then show "cout r = cout s @ (case heard G T fmt (registry s) bs of None \<Rightarrow> [] | Some c \<Rightarrow> [lambda_line f c])"
    "hits r = (if f = PrintDevice \<and> heard G T fmt (registry s) bs \<noteq> None then hits s + 1 else hits s)"
    "pipes r = pipes s" "registry r = registry s" "cerr r = cerr s" "transports r = transports s" "shutdown_flag r = shutdown_flag s"
    by auto
  show "node_listens T f l fmt r" using e p s by (auto simp: node_listens_def)
qed

text \<open>Publishing and waiting change neither what an adapter listens to nor how it decodes.\<close>

definition same_ear :: "'r remote \<Rightarrow> 'r remote \<Rightarrow> bool" where
  "same_ear r r' \<longleftrightarrow> receiving r' = receiving r \<and> remote_base r' = remote_base r \<and> remote_source r' = remote_source r"

lemma dispatch_ear: "same_ear (obj p) (obj (snd (pipe_dispatch P X N v p)))"
proof (cases "obj p")
  case (AmqpT i)
  then show ?thesis
    by (auto simp: same_ear_def pipe_dispatch_def amqp_dispatch_def new_promise_def post_def truncate_eq Let_def split: sum.split)
qed (simp_all add: same_ear_def pipe_dispatch_def split: prod.split)

lemma set_value_base: "adapter.truncate (set_value p b i) = adapter.truncate i"
  by (simp add: set_value_def truncate_eq)

lemma run_task_base: "adapter.truncate (run_task A t i) = adapter.truncate i"
proof (cases t)
  case (PublishTask body ct ack)
  then show ?thesis
    by (auto simp: publish_task_def set_value_def truncate_eq Let_def split: option.split publish_outcome.split)
qed (simp_all add: set_value_base)

lemma callback_base: "adapter.truncate (callback cb i) = adapter.truncate i"
proof -
  have f: "adapter.truncate (fold (\<lambda>e. set_value (snd e) False) es j) = adapter.truncate j" for es and j :: "'a amqp_impl"
    by (induction es arbitrary: j) (simp_all add: set_value_base)
  have u: "adapter.truncate (snd (resolve_upto tag ok es j)) = adapter.truncate j" for tag ok es and j :: "'a amqp_impl"
    by (induction tag ok es j rule: resolve_upto.induct) (auto simp: split_beta set_value_base)
  show ?thesis
  proof (cases cb)
    case (CbConfirm tag m ok)
    then show ?thesis
      using u [of tag ok "pending_confirms i" i] set_value_base [of _ ok i]
      by (auto simp: resolve_confirm_def split_beta Let_def truncate_eq split: option.splits)
  next
    case (CbError m)
    then show ?thesis by (simp add: onError_def Let_def truncate_eq f [unfolded truncate_eq] split: option.split)
  qed (simp_all add: monitor_def onReady_def onConnected_def onClosed_def onLost_def truncate_eq)
qed

lemma io_loop_base:
  fixes i :: "'a amqp_impl"
  shows "adapter.truncate (io_loop A ts i) = adapter.truncate i \<and> io_thread (io_loop A ts i) = io_thread i \<and>
   channel (io_loop A ts i) = channel i \<and> amqp_cfg (io_loop A ts i) = amqp_cfg i"
proof -
  have d: "adapter.truncate (drain_tasks B j) = adapter.truncate j" for B and j :: "'a amqp_impl"
  proof -
    have "adapter.truncate (fold (run_task B) us k) = adapter.truncate k" for us and k :: "'a amqp_impl"
      by (induction us arbitrary: k) (simp_all add: run_task_base)
    then show ?thesis by (simp add: drain_tasks_def truncate_eq)
  qed
  have c: "adapter.truncate (fold callback cbs j) = adapter.truncate j" for cbs and j :: "'a amqp_impl"
    by (induction cbs arbitrary: j) (simp_all add: callback_base)
  show ?thesis
    by (induction A ts i rule: io_loop.induct) (simp_all add: d c drain_frame callbacks_keep Let_def)
qed

lemma settle_ear: "same_ear r (remote_settle N r)"
  by (cases r) (simp_all add: same_ear_def io_loop_base)

lemma node_listens_ear:
  assumes "node_listens T f l fmt s" and "\<And>p. pipes s l = Some p \<Longrightarrow> \<exists>p'. pipes s' l = Some p' \<and> same_ear (obj p) (obj p')"
    and "sink_of s' = sink_of s" and "middleware s' = middleware s" and "listeners s' = listeners s"
  shows "node_listens T f l fmt s'"
  using assms by (fastforce simp: node_listens_def same_ear_def)

lemma node_sleep_source:
  "map_option (\<lambda>p. remote_source (obj p)) (pipes (node_sleep G s) l) = map_option (\<lambda>p. remote_source (obj p)) (pipes s l)"
  by (cases "pipes s l") (simp_all add: node_sleep_def pipe_settle_def settle_ear [unfolded same_ear_def])

lemma node_listens_sleep:
  assumes "node_listens T f l fmt s"
  shows "node_listens T f l fmt (node_sleep G s)"
  by (rule node_listens_ear [OF assms]) (simp_all add: node_sleep_def pipe_settle_def settle_ear)

lemma send_ear:
  assumes "pipes s l = Some p"
  shows "\<exists>p'. pipes (fold (send_on G c) ts s) l = Some p' \<and> same_ear (obj p) (obj p')"
  using assms
proof (induction ts arbitrary: s p)
  case (Cons t ts)
  have "same_ear (obj p) (obj p)" by (simp add: same_ear_def)
  then have "\<exists>p1. pipes (send_on G c t s) l = Some p1 \<and> same_ear (obj p) (obj p1)"
    using Cons.prems dispatch_ear [of p] by (cases "l = leaf_of t") (simp_all add: send_on_def on_pipe_def)
  then obtain p1 where p1: "pipes (send_on G c t s) l = Some p1" "same_ear (obj p) (obj p1)" by blast
  then show ?case using Cons.IH [OF p1(1)] by (auto simp: same_ear_def)
qed (simp add: same_ear_def)

lemma node_listens_publish:
  assumes "node_listens T f l fmt s" and "transports s \<noteq> []"
    and "\<not> contains_flag (collect_default_flags (flag_insert (wire (lib (plat G)))) T') LocalOnly"
  shows "node_listens T f l fmt (node_publish G T' x s)"
proof -
  have m: "middleware s = []" using assms(1) by (simp add: node_listens_def)
  note e = node_publish_effect [OF m assms(2,3), of x]
  show ?thesis
    by (rule node_listens_ear [OF assms(1)]) (simp_all add: e m send_ear)
qed

section \<open>Leaving\<close>

lemma node_frame_release [simp]:
  fixes s :: "'r node"
  shows "pipes (release i s) = pipes s" "cout (release i s) = cout s" "cerr (release i s) = cerr s"
    "transports (release i s) = transports s" "shutdown_flag (release i s) = shutdown_flag s"
  by (simp_all add: release_def meter_def split: option.split)

lemma node_frame_handles:
  fixes s :: "'r node"
  defines "r \<equiv> \<lambda>hs. fold (subscription_destroy release) hs s"
  shows "pipes (r hs) = pipes s \<and> cout (r hs) = cout s \<and> cerr (r hs) = cerr s \<and> transports (r hs) = transports s \<and>
    shutdown_flag (r hs) = shutdown_flag s"
  unfolding r_def
  by (induction hs arbitrary: s) (simp_all add: subscription_destroy_def subscription_release_def)

lemma node_frame_meters:
  fixes s :: "'r node"
  shows "pipes (fold (\<lambda>e. meter (g e)) es s) = pipes s \<and> cout (fold (\<lambda>e. meter (g e)) es s) = cout s \<and>
    cerr (fold (\<lambda>e. meter (g e)) es s) = cerr s"
  by (induction es arbitrary: s) (simp_all add: meter_def)

text \<open>The last days of a pipe: flushed, detached and destroyed.\<close>

definition pipe_close :: "net \<Rightarrow> 'r pipe \<Rightarrow> 'r pipe" where
  "pipe_close N p = p\<lparr>obj := remote_destroy N (remote_detach N (remote_flush N (obj p)))\<rparr>"

lemma node_leave_effect:
  fixes s :: "'r node"
  assumes "\<not> shutdown_flag s" and "distinct (map leaf_of (transports s))"
  shows "cout (node_leave G hs s) = cout s" "cerr (node_leave G hs s) = cerr s"
    "t \<in> set (transports s) \<Longrightarrow> pipes (node_leave G hs s) (leaf_of t) = map_option (pipe_close (nets G (leaf_of t))) (pipes s (leaf_of t))"
proof -
  let ?u = "fold (subscription_destroy release) (rev hs) s"
  let ?v = "fold (\<lambda>t s. transport_detach (node_leaves G) t (snd (transport_flush (node_leaves G) t s))) (transports s)
      (?u\<lparr>shutdown_flag := True, transports := []\<rparr>)"
  note u = node_frame_handles [where s = s and hs = "rev hs"]
  have l: "node_leave G hs s = (let s = fold (\<lambda>e. meter (Dec listeners_gauge (event_labels (name_or_pattern e)))) (listeners ?v) ?v
      in s\<lparr>pipes := (\<lambda>l. map_option (\<lambda>p. p\<lparr>obj := remote_destroy (nets G l) (obj p)\<rparr>) (pipes s l))\<rparr>)"
    using u assms(1) by (simp add: node_leave_def Bus_destroy_def shutdown_def Let_def)
  have c: "cout (fold (\<lambda>t s. transport_detach (node_leaves G) t (snd (transport_flush (node_leaves G) t s))) ts w) = cout w \<and>
      cerr (fold (\<lambda>t s. transport_detach (node_leaves G) t (snd (transport_flush (node_leaves G) t s))) ts w) = cerr w \<and>
      (\<forall>l. l \<notin> leaf_of ` set ts \<longrightarrow>
        pipes (fold (\<lambda>t s. transport_detach (node_leaves G) t (snd (transport_flush (node_leaves G) t s))) ts w) l = pipes w l)"
    for ts and w :: "'r node"
    by (induction ts arbitrary: w) (simp_all add: forwards on_pipe_def)
  have p: "distinct (map leaf_of ts) \<Longrightarrow> t \<in> set ts \<Longrightarrow>
      pipes (fold (\<lambda>t s. transport_detach (node_leaves G) t (snd (transport_flush (node_leaves G) t s))) ts w) (leaf_of t) =
      map_option (\<lambda>p. p\<lparr>obj := remote_detach (nets G (leaf_of t)) (remote_flush (nets G (leaf_of t)) (obj p))\<rparr>) (pipes w (leaf_of t))"
    for ts and w :: "'r node"
  proof (induction ts arbitrary: w)
    case (Cons v vs)
    show ?case
    proof (cases "v = t")
      case True
      then show ?thesis using Cons.prems c [of vs] by (auto simp: forwards on_pipe_def option.map_comp comp_def)
    next
      case False
      then have "leaf_of v \<noteq> leaf_of t" "t \<in> set vs" using Cons.prems by auto
      then show ?thesis using Cons by (simp add: forwards on_pipe_def)
    qed
  qed simp
  show "cout (node_leave G hs s) = cout s" "cerr (node_leave G hs s) = cerr s"
    by (simp_all add: l Let_def node_frame_meters c u)
  show "pipes (node_leave G hs s) (leaf_of t) = map_option (pipe_close (nets G (leaf_of t))) (pipes s (leaf_of t))"
    if "t \<in> set (transports s)"
    by (cases "pipes s (leaf_of t)") (simp_all add: l Let_def node_frame_meters p [OF assms(2) that] u pipe_close_def)
qed

text \<open>A pipe that sends gives all it has taken to its broker before it is gone.\<close>

lemma amqp_quiet_turns:
  fixes i :: "'r amqp_impl" and n :: nat
  assumes "io_thread i" and "channel i" and "\<And>k. task_message k t = []" and "ts \<noteq> []" and "list_all live_turn ts"
  defines "j \<equiv> io_loop accepting ts (post t (i\<lparr>next_promise := n\<rparr>))"
  shows "io_thread j" "channel j" "task_queue j = []" "amqp_cfg j = amqp_cfg i"
    "map (\<lambda>(m, ack). (am_routing_key m, am_body m)) (wire_log j) = map (\<lambda>(m, ack). (am_routing_key m, am_body m)) (wire_log i) @
       concat (map (task_message (routing_key (amqp_cfg i))) (task_queue i))"
  using assms(1-3) io_loop_sends [OF assms(5), of "post t (i\<lparr>next_promise := n\<rparr>)"] assms(4)
  by (simp_all add: j_def post_def)

lemma pipe_close_log:
  assumes "pipe_sends N p"
  shows "pipe_log (pipe_close N p) = pipe_log p @ pipe_queue p"
proof (cases "obj p")
  case (AmqpT i)
  let ?ts = "amqp_turns N" and ?wires = "map (\<lambda>(m, ack). (am_routing_key m, am_body m))"
  have i: "io_thread i" "channel i" "amqp_net N = accepting" "?ts \<noteq> []" "list_all live_turn ?ts"
    using assms AmqpT by (simp_all add: pipe_sends_def)
  define j where "j = amqp_flush accepting ?ts i"
  have j: "io_thread j" "channel j" "task_queue j = []" "?wires (wire_log j) = pipe_log p @ pipe_queue p"
    using i(1) amqp_quiet_turns [OF i(1,2) _ i(4,5), of "FlushTask (next_promise i)" "next_promise i + 1"]
    by (simp_all add: j_def amqp_flush_def new_promise_def post_def pipe_log_def pipe_queue_def AmqpT Let_def)
  define k where "k = amqp_detach accepting ?ts j"
  have k: "\<not> io_thread k" "?wires (wire_log k) = ?wires (wire_log j)"
    using j(1) amqp_quiet_turns [OF j(1,2) _ i(4,5), of "CloseTask (next_promise j)" "next_promise j + 1"] j(3)
    by (simp_all add: k_def amqp_detach_def adapter_uninstall_def amqp_shutdown_def new_promise_def post_def Let_def)
  have "pipe_log (pipe_close N p) = ?wires (wire_log k)"
    using AmqpT i(3) k(1)
    by (simp add: pipe_close_def pipe_log_def j_def [symmetric] k_def [symmetric] amqp_destroy_def amqp_shutdown_def)
  then show ?thesis using j(4) k(2) by simp
qed (simp_all add: pipe_close_def pipe_log_def pipe_queue_def)

section \<open>A concrete setting\<close>

text \<open>
  For the witnesses: brokers that accept everything, and codecs that carry the one document of the envelope \<open>core\<close>.
\<close>

definition demo_net :: net where
  "demo_net = \<lparr>fresh_text = ''01H'', mqtt_net = mqtt_up, mqtt_stays = False, redis_net = (False, redis_up), nats_net = (False, nats_up),
     zmq_net = (False, \<lambda>c. None), amqp_tls_built = False, amqp_pipe_ok = True, amqp_net = accepting, amqp_connects = ConnOk,
     amqp_reports = [QueueDeclared ''q'', QueueBound, ConsumeStarted], amqp_turns = [PollIdle]\<rparr>"

definition demo_setting :: "EnvelopeCore \<Rightarrow> descriptor list setting" where
  "demo_setting core =
     \<lparr>plat = \<lparr>lib = example_parcel\<lparr>from_cbor := (\<lambda>bs. to_json example_wire (Some core)), to_cbor := (\<lambda>j. [0x80])\<rparr>,
        clock_at = (\<lambda>n. 1000000 * int n), fresh_ulid = (\<lambda>v. 2), ulid_text = (\<lambda>u. []), json_text = (\<lambda>j. []), double_text = (\<lambda>m e. [])\<rparr>,
      codec = table_codec, nets = (\<lambda>l. demo_net)\<rparr>"

lemma demo_net_up: "net_up demo_net"
  by (simp add: net_up_def demo_net_def mqtt_up_def redis_up_def nats_up_def)

lemma demo_setting_simps [simp]:
  "nets (demo_setting core) l = demo_net" "wire (lib (plat (demo_setting core))) = example_wire"
  "to_cbor (lib (plat (demo_setting core))) j = [0x80]" "from_cbor (lib (plat (demo_setting core))) bs = to_json example_wire (Some core)"
  "clock_at (plat (demo_setting core)) n = 1000000 * int n" "fresh_ulid (plat (demo_setting core)) v = 2"
  by (simp_all add: demo_setting_def example_parcel_def)

definition demo_pipe :: "(string, string) transport" where
  "demo_pipe = FilteredTransport (Leaf ''own'') (Some ''order.*'') None"

definition demo_node :: "descriptor list node" where
  "demo_node = (node_new (demo_setting empty_core))\<lparr>transports := [demo_pipe], pipes := [''own'' \<mapsto> \<lparr>obj = MqttT mqtt_demo, handed = []\<rparr>]\<rparr>"

section \<open>Properties\<close>



end
