(* ===== verification/Spec2Isabelle.thy ===== *)
theory Spec2Isabelle
  imports BusRegistration BusMetrics BusTypes BusThreads Subscribers Relay Local LocalBus Redis Nats Zmq Mqtt AmqpConfirms
    AmqpLifecycle AmqpWakeup Examples BrokerExamples
begin

text \<open>
  Verification of \<^verbatim>\<open>conduit\<close>, a C++ event bus with in-process and broker transports. Paths below are
  relative to the source tree.

  \<^bold>\<open>The program.\<close> A \<^verbatim>\<open>Bus\<close> (\<^verbatim>\<open>include/conduit/bus.hpp\<close>) owns an event registry, a table of listeners, an
  ordered list of middleware and an ordered list of transports. \<^verbatim>\<open>publish\<close> builds an envelope
  (\<^verbatim>\<open>builder.hpp\<close>, \<^verbatim>\<open>envelope.hpp\<close>) around a payload, runs \<^verbatim>\<open>before_dispatch\<close> of the middleware, hands the
  envelope to every transport its flags (\<^verbatim>\<open>flags.hpp\<close>) admit, or to the listeners themselves when there is
  no transport, and runs \<^verbatim>\<open>after_dispatch\<close>. A transport (\<^verbatim>\<open>transport.hpp\<close>) gives inbound envelopes back
  through the sink it was attached with, which fans them out to the listeners whose name or glob pattern
  (\<^verbatim>\<open>glob.hpp\<close>) matches. The local transport queues on a thread pool, the relay hands envelopes to
  callbacks, the filtered transport wraps another one, and five adapters carry envelopes as JSON or CBOR
  over MQTT, Redis, NATS, ZeroMQ and AMQP.

  \<^bold>\<open>State.\<close> \<open>World\<close> holds what all components share: the heap of envelope cores (an \<^verbatim>\<open>EventEnvelope\<close> is the
  address of its core, so copies share it), the metric calls made and the readings of the clock. The bus
  record of \<open>Bus\<close> extends it with the members of \<^verbatim>\<open>Bus\<close>, the wired bus of \<open>Filtered\<close> with the bus pointer and sink of
  each transport. Exceptions are values (\<open>Exceptions\<close>): an operation that may throw returns an
  \<open>exn option\<close> or a sum, and a catch clause is a test of the class hierarchy. User callbacks (handlers,
  middleware, leaf transports) are functions on the whole state in the record \<open>bus_host\<close>: they may throw, and
  they may re-enter the bus. Code outside the repository (parcel, nlohmann, cpp-ulid, cpp-metadata, cpp-commons, prom,
  threadman and the client libraries of the brokers) is a parameter record; what is assumed of it are
  the named predicates \<open>wire_lib_laws\<close>, \<open>codecs_invert\<close>, \<open>cbor_inverts\<close>, \<open>parcel_laws\<close> and \<open>flag_insert_law\<close>, all of them
  shown to hold of concrete functions by the witnesses.

  \<^bold>\<open>Theories.\<close>
  \<^item> \<open>Prelude\<close>, \<open>Exceptions\<close> (\<^verbatim>\<open>exception.hpp\<close>), \<open>Json\<close>, \<open>Events\<close> (\<^verbatim>\<open>flags.hpp\<close>, \<^verbatim>\<open>event.hpp\<close>), \<open>Metrics\<close> (\<^verbatim>\<open>metrics.hpp\<close>): the data.
  \<^item> \<open>Envelope\<close> (\<^verbatim>\<open>envelope.hpp\<close>, \<^verbatim>\<open>metadata.hpp\<close>): the core, its accessors and its JSON form; the round trip
    returns every field, timestamps cut to milliseconds and unknown flags dropped.
  \<^item> \<open>Glob\<close> (\<^verbatim>\<open>glob.hpp\<close>): the backtracking loop against the glob language. It never accepts a name outside
    it, decides it on patterns with no single star after a double star, misses names otherwise, and ends
    within a quadratic number of steps.
  \<^item> \<open>Builder\<close> (\<^verbatim>\<open>builder.hpp\<close>): every chain of builder calls.
  \<^item> \<open>Registry\<close> (\<^verbatim>\<open>serialization.hpp\<close>, \<^verbatim>\<open>event_type_registry.hpp\<close>): copy-on-write registration, also with
    interleaved writers, the CBOR and JSON codecs with their error classes, the type catalog.
  \<^item> \<open>Listener\<close> (\<^verbatim>\<open>listener.hpp\<close>) and \<open>Bus\<close> (\<^verbatim>\<open>bus.hpp\<close>, \<^verbatim>\<open>middleware.hpp\<close>): every operation. \<open>BusDispatch\<close> refines \<^verbatim>\<open>publish_impl\<close>
    to the list of calls \<open>publish_calls\<close> and shows the fan-out is over a snapshot; \<open>BusRegistration\<close> has the
    invariant of the listener table and the ownership of handles, \<open>BusMetrics\<close> the counters, \<open>BusTypes\<close> that a typed
    handler is only called with payloads of its type. \<open>BusThreads\<close> interleaves deliveries on several threads with every
    operation of the bus, and \<open>Subscribers\<close> follows an \<^verbatim>\<open>EventSubscriber\<close> from its registration to its destruction.
  \<^item> \<open>Identity\<close>: the interface of a container numbered by a 64-bit counter, met by the bus's listeners and the relay's routes.
  \<^item> \<open>Filtered\<close> (\<^verbatim>\<open>transport.hpp\<close>, \<^verbatim>\<open>filtered_transport.hpp\<close>), \<open>Relay\<close> (\<^verbatim>\<open>relay/transport.hpp\<close>), \<open>Local\<close> (\<^verbatim>\<open>local/transport.hpp\<close>): the
    in-process transports. \<open>Local\<close> is a transition system with one step per critical section: accounting,
    what a flush means, draining, order with one worker, and the deadlock of re-entrant publishing. \<open>LocalBus\<close> puts the bus
    and the local transport together: in every mode and under every schedule the listeners see what they would see
    without a transport.
  \<^item> \<open>Adapter\<close>: what the adapters under \<^verbatim>\<open>transports/\<close> share. The locale \<open>adapter_sink\<close> is what all five meet; \<open>Redis\<close>, \<open>Nats\<close> and
    \<open>Zmq\<close> also meet \<open>adapter_lifecycle\<close>. \<open>Mqtt\<close> and \<open>AmqpLifecycle\<close> state their own outcomes: the MQTT adapter can attach without a
    connection, and the AMQP adapter stays marked as connected.
  \<^item> \<open>Amqp\<close>, \<open>AmqpConfirms\<close>: the task queue, the IO thread and the publisher confirms, refined to a broker that
    numbers messages in order. \<open>AmqpWakeup\<close>: the pipe that wakes the IO thread, with any number of posting threads.
  \<^item> \<open>Examples\<close>: the programs under \<^verbatim>\<open>examples/\<close> as lists of statements, run on the model down to their destructors.
  \<^item> \<open>Platform\<close>: what the programs use of their platform, and how they print. \<open>Pipes\<close>: the five adapters as one type with the
    virtual methods of \<^verbatim>\<open>Transport\<close>, and what each has given to its broker. \<open>Node\<close>: a process with one bus over such adapters, behind
    filters; the names of the envelopes choose the pipes they leave on. \<open>BrokerExamples\<close>: the programs under \<^verbatim>\<open>transports/*/examples/\<close>, with
    what they send and print when their brokers are reachable, and how they end when not.
  \<^item> This theory: from the publish of one process to the listeners of another.

  \<^bold>\<open>Interfaces.\<close> \<open>bus_step_relation\<close> and \<open>bus_relation\<close> carry a relation every callback respects through all
  phases of the bus; they are interpreted for the heap, the payloads, the wiring, the listener table, and the sinks and
  tasks of a local transport. \<open>bus_table_relation\<close> extends them to every public operation and every sequence of
  operations, for the table, the types of its handlers and the ids it has given up. \<open>id_registry\<close> is the numbered container.
  \<open>subscription_backref\<close> is what a handle needs of its bus. \<open>outbound_pipe\<close> is what a sender relies on, interpreted for all five adapters at once.

  \<^bold>\<open>Bounds.\<close> Subscription ids, route ids and delivery tags are 64-bit words; statements about distinctness assume
  fewer than \<open>2\<^sup>6\<^sup>4\<close> registrations, and the AMQP protocol fewer than \<open>2\<^sup>6\<^sup>4\<close> messages. NATS payload lengths pass through a
  32-bit int. Worker loops (Redis, ZeroMQ, AMQP) run over a finite list of what their blocking call
  returns at each turn, so a theorem over all lists is one over all finite runs; the reads of the stop flag in the broker programs are such a
  list too, and the thirty sleeps of the publish and subscribe programs are those of the source. Nothing else uses fuel, and
  every other loop is a total function.

  \<^bold>\<open>Not modelled.\<close> The third-party libraries named above; data races on members without a lock and the
  memory model (a critical section is one step); failure to create a thread;
  attaching a ZeroMQ adapter twice without a detach, which would destroy a joinable thread; the static
  descriptor of envelopes; a handler that publishes again while it is being observed in \<open>LocalBus\<close>; what happens
  in the example programs between a caught signal and the next read of the stop flag; the tests and the build files.
\<close>

section \<open>From one process to another\<close>

text \<open>
  A concrete pair of processes: the sender's only transport is a broker adapter, and the text and
  binary codecs carry the one document the sender produces.
\<close>

definition remote_type :: event_type where
  "remote_type = example_type\<lparr>mixin_default_flags := None\<rparr>"

definition one_document :: "EnvelopeCore \<Rightarrow> descriptor list parcel_lib" where
  "one_document core = example_parcel\<lparr>from_cbor := (\<lambda>bs. to_json example_wire (Some core)), to_cbor := (\<lambda>j. [0x80])\<rparr>"

definition document_codec :: "EnvelopeCore \<Rightarrow> text_codec" where
  "document_codec core = \<lparr>parse_json = (\<lambda>bs. to_json example_wire (Some core)), dump_json = (\<lambda>j. Inr [0x80])\<rparr>"

definition sent_core :: EnvelopeCore where
  "sent_core = \<lparr>core_id = 2, core_flags = [], core_metadata = [],
     core_timestamps = empty_timestamps\<lparr>created_at := 0, published_at := Some 1000000\<rparr>,
     correlation_id = None, causation_id = None,
     payload_cell = Some (event_cell remote_type (JObject [(''total'', JInt 5)]))\<rparr>"

definition sending_host :: "(string, string, string, descriptor list, trace) bus_host" where
  "sending_host = trace_host\<lparr>parcel := one_document sent_core, generate_ulid := (\<lambda>n. 2),
     now := (\<lambda>n. 1000000 * int n), before_dispatch := (\<lambda>m v s. (Inr True, v, push (CBefore m v) s))\<rparr>"

definition sending_bus :: "(string, string, string, descriptor list, trace) bus_scheme" where
  "sending_bus = example_bus [] [''log''] [''mqtt''] []"

section \<open>Lemmas\<close>

lemma publish_payload_phases:
  fixes H :: "('f, 'm, 't, 'r, 'z) bus_host"
  obtains s1 where "publish_payload H T x s = publish_impl H (heap_next s) s1" "clock s1 = Suc (clock s)"
    "cores s1 = (cores s)(heap_next s \<mapsto> (published_core H T x s)\<lparr>core_timestamps := empty_timestamps\<lparr>created_at := now H (clock s)\<rparr>\<rparr>)"
    "transports s1 = transports s" "middleware s1 = middleware s" "listeners s1 = listeners s" "bus.more s1 = bus.more s"
proof -
  let ?b = "builder_new (flag_insert (wire (parcel H))) T x"
  let ?s = "register_event H T s"
  obtain v s1 where b: "build (generate_ulid H (heap_next ?s)) (now H) ?b ?s = (v, s1)" by fastforce
  then have "v = heap_next s" "publish_payload H T x s = publish_impl H v s1"
    by (auto simp: build_def builder_new_def alloc_core_def read_clock_def register_event_def publish_payload_def
        event_def Let_def)
  with b show thesis
    by (intro that [of s1]) (auto simp: build_def builder_new_def alloc_core_def read_clock_def register_event_def
        envelope_of_core_def published_core_def empty_core_def Let_def)
qed

lemma publish_payload_core:
  fixes H :: "('f, 'm, 't, 'r, 'z) bus_host"
  assumes "host_respects H keeps_cores"
  shows "cores (publish_payload H T x s) = (cores s)(heap_next s \<mapsto> published_core H T x s)"
proof -
  obtain s1 where p: "publish_payload H T x s = publish_impl H (heap_next s) s1" "clock s1 = Suc (clock s)"
    "cores s1 = (cores s)(heap_next s \<mapsto> (published_core H T x s)\<lparr>core_timestamps := empty_timestamps\<lparr>created_at := now H (clock s)\<rparr>\<rparr>)"
    by (rule publish_payload_phases)
  obtain t s2 where b: "begin_publish H (heap_next s) s1 = (t, s2)" by fastforce
  have "cores (publish_impl H (heap_next s) s1) = cores s2"
    using heap.publish_after_begin_R [OF assms b] by (simp add: keeps_cores_def)
  then show ?thesis
    using begin_publish_frame(6,7) [OF b] p by (simp add: published_core_def empty_core_def)
qed

lemma remote_only_calls:
  assumes "\<And>m. \<not> veto m" and "scope t = Remote" and "\<not> contains_flag (core_flags c) LocalOnly"
  shows "publish_calls scope d veto v c ms [t] es =
    (let mw = (if contains_flag (core_flags c) NoMiddleware then [] else ms)
     in map (\<lambda>m. CBefore m v) mw @ CDispatch t v # map (\<lambda>m. CAfter m v) (rev mw))"
proof -
  have "asked veto ms = ms" for ms using assms(1) by (induction ms) simp_all
  then show ?thesis using assms by (simp add: publish_calls_def Let_def eligible_def)
qed

lemma sending_keeps:
  "tracing sending_host quiet_trace quiet" "no_rebind sending_host"
  "host_respects sending_host keeps_wiring" "host_respects sending_host keeps_cores"
  by (simp_all add: sending_host_def tracing_def no_rebind_def host_respects_def trace_host_def quiet_trace_def
      keeps_wiring_def keeps_payloads_def keeps_cores_def)

lemma receiving_keeps:
  fixes P :: "descriptor list parcel_lib"
  shows "tracing (inbound_host\<lparr>parcel := P\<rparr>) wired.more inbound_event"
    "host_respects (inbound_host\<lparr>parcel := P\<rparr>) keeps_payloads"
  unfolding tracing_def
proof (rule conjI)
  show "\<forall>s s'. bus.more s = bus.more s' \<longrightarrow> wired.more s = wired.more s'" by (blast intro: wired_more_bus)
qed (simp_all add: inbound_host_def demo_host_def note_demo_simps host_respects_def keeps_payloads_def)

lemma sent_core_published:
  "sent_core = published_core sending_host remote_type (JObject [(''total'', JInt 5)]) sending_bus"
  by (simp add: published_core_def sent_core_def sending_host_def sending_bus_def remote_type_def example_type_def
      collect_default_flags_def empty_core_def)

lemma sent_inverts: "codecs_invert example_wire (registry_ptr example_registry) sent_core"
  by (simp add: codecs_invert_def sent_core_def remote_type_def event_cell_def kind_id_def example_type_def
      example_wire_def example_registry_kinds example_lib_def event_kind_prefix_def list_all_iff)

section \<open>Properties\<close>



end
